(* ===== verification/Rauta_Prelude.thy ===== *)
theory Rauta_Prelude
  imports Main "HOL-Library.Word"
begin

text \<open>
  The prelude of the development: the machine integers of the Rust sources, the outcome type
  that separates a returned value from a panic, the collections of facts that the component
  proofs use, and generic lemmas on lists and words that more than one component needs.
\<close>

unbundle bit_operations_syntax

section \<open>Collections of facts\<close>

named_theorems packed_simps \<open>evaluation of bit fields packed into one 64-bit word\<close>
named_theorems inv_intros \<open>preservation of the components' invariants\<close>

section \<open>Machine integers\<close>

type_synonym u8 = "8 word"
type_synonym u16 = "16 word"
type_synonym u32 = "32 word"
type_synonym u64 = "64 word"

text \<open>
  Times are natural numbers of nanoseconds since an arbitrary origin (\<open>std::time::Instant\<close>
  and \<open>std::time::Duration\<close> have nanosecond resolution); the operations that read a clock
  take the current time as an argument.
\<close>

type_synonym duration = nat
type_synonym instant = nat

abbreviation as_micros :: "duration \<Rightarrow> nat" where
  "as_micros d \<equiv> d div 1000"

abbreviation as_millis :: "duration \<Rightarrow> nat" where
  "as_millis d \<equiv> d div 1000000"

section \<open>Outcomes\<close>

text \<open>
  A Rust computation returns a value, panics with a message, or runs forever. The loops that
  carry no bound in the source are partial functions; not returning is the value \<open>Diverges\<close>.
\<close>

datatype 'a outcome = Done 'a | Panic string | Diverges

fun map_outcome :: "('a \<Rightarrow> 'b) \<Rightarrow> 'a outcome \<Rightarrow> 'b outcome" where
  "map_outcome f (Done x) = Done (f x)"
| "map_outcome f (Panic m) = Panic m"
| "map_outcome f Diverges = Diverges"

lemma map_outcome_Done: "map_outcome f r = Done y \<longleftrightarrow> (\<exists>x. r = Done x \<and> y = f x)"
  by (cases r) auto

section \<open>Printing numbers\<close>

definition digit :: "nat \<Rightarrow> char" where
  "digit n = (if n < 10 then char_of (48 + n) else char_of (87 + n))"

fun show_base :: "nat \<Rightarrow> nat \<Rightarrow> string" where
  "show_base b n =
     (if b < 2 \<or> n < b then [digit n] else show_base b (n div b) @ [digit (n mod b)])"

declare show_base.simps [simp del]

abbreviation show_nat :: "nat \<Rightarrow> string" where
  "show_nat \<equiv> show_base 10"

abbreviation show_hex :: "nat \<Rightarrow> string" where
  "show_hex \<equiv> show_base 16"

definition undigit :: "char \<Rightarrow> nat" where
  "undigit c = (if of_char c < (58::nat) then of_char c - 48 else of_char c - 87)"

definition read_base :: "nat \<Rightarrow> string \<Rightarrow> nat" where
  "read_base b s = foldl (\<lambda>acc c. acc * b + undigit c) 0 s"

lemma undigit_digit: "n < 16 \<Longrightarrow> undigit (digit n) = n"
  by (auto simp: undigit_def digit_def)

lemma read_show_base: "2 \<le> b \<Longrightarrow> b \<le> 16 \<Longrightarrow> read_base b (show_base b n) = n"
proof (induction b n rule: show_base.induct)
  case (1 b n)
  show ?case
  proof (cases "n < b")
    case True
    with "1.prems" show ?thesis
      by (simp add: show_base.simps [of b n] read_base_def undigit_digit)
  next
    case False
    with 1 have "read_base b (show_base b (n div b)) = n div b" by simp
    with False "1.prems" show ?thesis
      by (simp add: show_base.simps [of b n] read_base_def undigit_digit
          mod_less_divisor [THEN less_le_trans])
  qed
qed

lemma show_base_inj: "2 \<le> b \<Longrightarrow> b \<le> 16 \<Longrightarrow> show_base b m = show_base b n \<longleftrightarrow> m = n"
  by (metis read_show_base)

lemma set_show_base: "2 \<le> b \<Longrightarrow> set (show_base b n) \<subseteq> digit ` {..<b}"
proof (induction b n rule: show_base.induct)
  case (1 b n)
  then show ?case
    by (subst show_base.simps) (auto simp: not_less)
qed

lemma digit_not_punctuation:
  "n < 16 \<Longrightarrow> digit n \<notin> {CHR ''.'', CHR '':'', CHR ''['', CHR '']'', CHR ''/''}"
proof -
  assume n: "n < 16"
  then have d: "of_char (digit n) = (if n < 10 then 48 + n else 87 + n)"
    by (simp add: digit_def)
  have "digit n \<noteq> c" if "of_char c < (48::nat) \<or> of_char c \<in> {58..<(97::nat)}" for c
    using d n that by (auto split: if_splits)
  then show ?thesis by simp
qed

lemma punctuation_notin_show [simp]:
  assumes "2 \<le> b" "b \<le> 16" "c \<in> {CHR ''.'', CHR '':'', CHR ''['', CHR '']'', CHR ''/''}"
  shows "c \<notin> set (show_base b n)"
proof
  assume "c \<in> set (show_base b n)"
  with assms(1) obtain d where "c = digit d" "d < b"
    using set_show_base [of b n] by auto
  with assms digit_not_punctuation [of d] show False by simp
qed

lemma show_base_not_Nil [simp]: "show_base b n \<noteq> []"
  by (subst show_base.simps) simp

section \<open>Generic lemmas on lists\<close>

text \<open>A separator that occurs in neither prefix splits a string in one way only.\<close>

lemma split_at_separator:
  "c \<notin> set xs \<Longrightarrow> c \<notin> set ys \<Longrightarrow> xs @ c # r = ys @ c # s \<longleftrightarrow> xs = ys \<and> r = s"
proof (induction xs arbitrary: ys)
  case Nil
  then show ?case by (cases ys) auto
next
  case (Cons x xs)
  then show ?case by (cases ys) auto
qed

lemma take_eq_nth_iff:
  "take (length s) xs = map f s \<longleftrightarrow> length s \<le> length xs \<and> (\<forall>i<length s. xs ! i = f (s ! i))"
  (is "?l \<longleftrightarrow> ?r")
proof
  assume l: ?l
  then have "length (take (length s) xs) = length s" by simp
  then have len: "length s \<le> length xs" by simp
  have "xs ! i = f (s ! i)" if "i < length s" for i
  proof -
    have "take (length s) xs ! i = f (s ! i)" using l that by simp
    then show ?thesis using that by simp
  qed
  with len show ?r by blast
next
  assume ?r
  then show ?l by (auto intro: nth_equalityI)
qed

lemma unat_ucast_u32 [simp]: "unat (ucast w :: u64) = unat (w :: u32)"
proof -
  have "unat w < 2 ^ 32" using unsigned_less [of w] by simp
  then show ?thesis by (simp add: unsigned_ucast_eq take_bit_nat_eq_self)
qed

end
