(* ===== verification/Common_Types.thy ===== *)
theory Common_Types
  imports Rauta_Prelude
begin

text \<open>
  The core types of the \<open>common\<close> crate (\<open>common/src/lib.rs\<close>): HTTP methods and their parser,
  backends and their addresses, the fixed-size backend list, and the FNV-1a hash.
  The lemmas give the parser's exact language, the round trips between a backend and the
  addresses it is built from, and the injectivity of the printed form of IPv4 backends, which
  the circuit breakers use as their key.
\<close>

section \<open>Constants\<close>

definition MAX_BACKENDS :: nat where "MAX_BACKENDS = 32"
definition MAGLEV_TABLE_SIZE :: nat where "MAGLEV_TABLE_SIZE = 65537"
definition COMPACT_MAGLEV_SIZE :: nat where "COMPACT_MAGLEV_SIZE = 4099"

section \<open>HTTP methods\<close>

datatype HttpMethod = GET | POST | PUT | DELETE | HEAD | OPTIONS | PATCH | ALL_m

definition at_byte :: "u8 list \<Rightarrow> nat \<Rightarrow> char \<Rightarrow> bool" where
  "at_byte bytes i c \<longleftrightarrow> bytes ! i = of_char c"

definition from_bytes :: "u8 list \<Rightarrow> HttpMethod option" where
  "from_bytes bytes =
     (if length bytes < 4 then None
      else if at_byte bytes 0 CHR ''G'' \<and> at_byte bytes 1 CHR ''E'' \<and> at_byte bytes 2 CHR ''T''
        \<and> at_byte bytes 3 CHR '' '' then Some GET
      else if at_byte bytes 0 CHR ''P'' \<and> at_byte bytes 1 CHR ''O'' \<and> at_byte bytes 2 CHR ''S''
        \<and> length bytes \<ge> 5 \<and> at_byte bytes 3 CHR ''T'' \<and> at_byte bytes 4 CHR '' '' then Some POST
      else if at_byte bytes 0 CHR ''P'' \<and> at_byte bytes 1 CHR ''U'' \<and> at_byte bytes 2 CHR ''T''
        \<and> at_byte bytes 3 CHR '' '' then Some PUT
      else if at_byte bytes 0 CHR ''D'' \<and> at_byte bytes 1 CHR ''E'' \<and> at_byte bytes 2 CHR ''L''
        \<and> length bytes \<ge> 7 \<and> at_byte bytes 3 CHR ''E'' \<and> at_byte bytes 4 CHR ''T''
        \<and> at_byte bytes 5 CHR ''E'' \<and> at_byte bytes 6 CHR '' '' then Some DELETE
      else if at_byte bytes 0 CHR ''H'' \<and> at_byte bytes 1 CHR ''E'' \<and> at_byte bytes 2 CHR ''A''
        \<and> length bytes \<ge> 5 \<and> at_byte bytes 3 CHR ''D'' \<and> at_byte bytes 4 CHR '' '' then Some HEAD
      else if at_byte bytes 0 CHR ''O'' \<and> at_byte bytes 1 CHR ''P'' \<and> at_byte bytes 2 CHR ''T''
        \<and> length bytes \<ge> 8 \<and> at_byte bytes 3 CHR ''I'' \<and> at_byte bytes 4 CHR ''O''
        \<and> at_byte bytes 5 CHR ''N'' \<and> at_byte bytes 6 CHR ''S'' \<and> at_byte bytes 7 CHR '' ''
        then Some OPTIONS
      else if at_byte bytes 0 CHR ''P'' \<and> at_byte bytes 1 CHR ''A'' \<and> at_byte bytes 2 CHR ''T''
        \<and> length bytes \<ge> 6 \<and> at_byte bytes 3 CHR ''C'' \<and> at_byte bytes 4 CHR ''H''
        \<and> at_byte bytes 5 CHR '' '' then Some PATCH
      else None)"

fun method_len :: "HttpMethod \<Rightarrow> u8" where
  "method_len GET = 3"
| "method_len PUT = 3"
| "method_len POST = 4"
| "method_len HEAD = 4"
| "method_len PATCH = 5"
| "method_len DELETE = 6"
| "method_len OPTIONS = 7"
| "method_len ALL_m = 0"

text \<open>The names the sources print for the methods (\<open>method_to_str\<close> of the request handler).\<close>

fun method_to_str :: "HttpMethod \<Rightarrow> string" where
  "method_to_str GET = ''GET''"
| "method_to_str POST = ''POST''"
| "method_to_str PUT = ''PUT''"
| "method_to_str DELETE = ''DELETE''"
| "method_to_str HEAD = ''HEAD''"
| "method_to_str OPTIONS = ''OPTIONS''"
| "method_to_str PATCH = ''PATCH''"
| "method_to_str ALL_m = ''ALL''"

definition as_bytes :: "string \<Rightarrow> u8 list" where
  "as_bytes s = map of_char s"

section \<open>Backends\<close>

datatype ipv4addr = Ipv4Addr u8 u8 u8 u8

text \<open>An IPv6 address is its 16 octets in network order.\<close>

datatype ipv6addr = Ipv6Addr "u8 list"

datatype socketaddr = SocketV4 ipv4addr u16 | SocketV6 ipv6addr u16 u32 u32

text \<open>
  The alignment padding of the Rust structs is constant zero in every constructor and is left
  out of the records.
\<close>

record backend =
  ip :: "u8 list"
  port :: u16
  weight :: u16
  is_ipv6 :: bool

fun ipv4_octets :: "ipv4addr \<Rightarrow> u8 list" where
  "ipv4_octets (Ipv4Addr a b c d) = [a, b, c, d]"

fun ipv6_octets :: "ipv6addr \<Rightarrow> u8 list" where
  "ipv6_octets (Ipv6Addr bs) = bs"

definition u32_to_be_bytes :: "u32 \<Rightarrow> u8 list" where
  "u32_to_be_bytes w =
     [ucast (drop_bit 24 w), ucast (drop_bit 16 w), ucast (drop_bit 8 w), ucast w]"

definition u16_to_be_bytes :: "u16 \<Rightarrow> u8 list" where
  "u16_to_be_bytes w = [ucast (drop_bit 8 w), ucast w]"

fun u32_from_ipv4 :: "ipv4addr \<Rightarrow> u32" where
  "u32_from_ipv4 (Ipv4Addr a b c d) =
     push_bit 24 (ucast a) OR push_bit 16 (ucast b) OR push_bit 8 (ucast c) OR ucast d"

definition from_ipv4 :: "ipv4addr \<Rightarrow> u16 \<Rightarrow> u16 \<Rightarrow> backend" where
  "from_ipv4 a p w =
     \<lparr>ip = ipv4_octets a @ replicate 12 0, port = p, weight = w, is_ipv6 = False\<rparr>"

definition from_ipv6 :: "ipv6addr \<Rightarrow> u16 \<Rightarrow> u16 \<Rightarrow> backend" where
  "from_ipv6 a p w = \<lparr>ip = ipv6_octets a, port = p, weight = w, is_ipv6 = True\<rparr>"

definition backend_new :: "u32 \<Rightarrow> u16 \<Rightarrow> u16 \<Rightarrow> backend" where
  "backend_new a p w =
     \<lparr>ip = u32_to_be_bytes a @ replicate 12 0, port = p, weight = w, is_ipv6 = False\<rparr>"

definition ipv4_of_octets :: "u8 list \<Rightarrow> ipv4addr" where
  "ipv4_of_octets bs = Ipv4Addr (bs ! 0) (bs ! 1) (bs ! 2) (bs ! 3)"

definition as_ipv4 :: "backend \<Rightarrow> ipv4addr option" where
  "as_ipv4 b = (if is_ipv6 b then None else Some (ipv4_of_octets (ip b)))"

definition as_ipv6 :: "backend \<Rightarrow> ipv6addr option" where
  "as_ipv6 b = (if \<not> is_ipv6 b then None else Some (Ipv6Addr (ip b)))"

definition ipv4_as_u32 :: "backend \<Rightarrow> u32 option" where
  "ipv4_as_u32 b = map_option u32_from_ipv4 (as_ipv4 b)"

definition to_socket_addr :: "backend \<Rightarrow> socketaddr" where
  "to_socket_addr b =
     (if is_ipv6 b then SocketV6 (Ipv6Addr (ip b)) (port b) 0 0
      else SocketV4 (ipv4_of_octets (ip b)) (port b))"

fun to_ipv6_mapped :: "ipv4addr \<Rightarrow> ipv6addr" where
  "to_ipv6_mapped (Ipv4Addr a b c d) = Ipv6Addr (replicate 10 0 @ [255, 255, a, b, c, d])"

definition to_ipv4_mapped :: "backend \<Rightarrow> ipv6addr" where
  "to_ipv4_mapped b =
     (if is_ipv6 b then Ipv6Addr (ip b) else to_ipv6_mapped (ipv4_of_octets (ip b)))"

text \<open>
  What every constructor establishes: 16 octets, and the unused octets of an IPv4 backend are
  zero. The Rust field is private, so every backend of the program satisfies it.
\<close>

definition backend_wf :: "backend \<Rightarrow> bool" where
  "backend_wf b \<longleftrightarrow>
     length (ip b) = 16 \<and> (\<not> is_ipv6 b \<longrightarrow> drop 4 (ip b) = replicate 12 0)"

text \<open>
  \<open>Display for Backend\<close>. IPv4 backends print as \<open>a.b.c.d:port\<close>, IPv6 backends as
  \<open>[addr]:port\<close> with the standard library's printing of IPv6 addresses: an IPv4-mapped address
  prints as \<open>::ffff:a.b.c.d\<close>; otherwise the first longest run of at least two zero segments is
  abbreviated to \<open>::\<close>.
\<close>

definition show_u8 :: "u8 \<Rightarrow> string" where "show_u8 w = show_nat (unat w)"
definition show_u16 :: "u16 \<Rightarrow> string" where "show_u16 w = show_nat (unat w)"

fun show_ipv4 :: "ipv4addr \<Rightarrow> string" where
  "show_ipv4 (Ipv4Addr a b c d) =
     show_u8 a @ CHR ''.'' # show_u8 b @ CHR ''.'' # show_u8 c @ CHR ''.'' # show_u8 d"

fun segments :: "u8 list \<Rightarrow> nat list" where
  "segments (h # l # bs) = (256 * unat h + unat l) # segments bs"
| "segments _ = []"

fun longest_zero_span :: "nat \<Rightarrow> nat \<times> nat \<Rightarrow> nat \<times> nat \<Rightarrow> nat list \<Rightarrow> nat \<times> nat" where
  "longest_zero_span i longest current [] = longest"
| "longest_zero_span i longest current (s # ss) =
     (if s = 0 then
        let start = (if snd current = 0 then i else fst current);
            current' = (start, snd current + 1);
            longest' = (if snd longest < snd current' then current' else longest)
        in longest_zero_span (Suc i) longest' current' ss
      else longest_zero_span (Suc i) longest (0, 0) ss)"

fun fmt_subslice :: "nat list \<Rightarrow> string" where
  "fmt_subslice [] = []"
| "fmt_subslice [s] = show_hex s"
| "fmt_subslice (s # t # ss) = show_hex s @ CHR '':'' # fmt_subslice (t # ss)"

fun show_ipv6 :: "ipv6addr \<Rightarrow> string" where
  "show_ipv6 (Ipv6Addr bs) =
     (if take 12 bs = replicate 10 0 @ [255, 255]
      then ''::ffff:'' @ show_ipv4 (ipv4_of_octets (drop 12 bs))
      else let segs = segments bs; (start, len) = longest_zero_span 0 (0, 0) (0, 0) segs
        in if len > 1
           then fmt_subslice (take start segs) @ ''::'' @ fmt_subslice (drop (start + len) segs)
           else fmt_subslice segs)"

definition show_backend :: "backend \<Rightarrow> string" where
  "show_backend b =
     (if is_ipv6 b then CHR ''['' # show_ipv6 (Ipv6Addr (ip b)) @ '']:'' @ show_u16 (port b)
      else show_ipv4 (ipv4_of_octets (ip b)) @ CHR '':'' # show_u16 (port b))"

section \<open>FNV-1a\<close>

definition FNV_OFFSET :: u64 where "FNV_OFFSET = 0xcbf29ce484222325"
definition FNV_PRIME :: u64 where "FNV_PRIME = 0x100000001b3"

fun fnv1a_loop :: "u64 \<Rightarrow> u8 list \<Rightarrow> u64" where
  "fnv1a_loop hash [] = hash"
| "fnv1a_loop hash (b # bs) = fnv1a_loop ((hash XOR ucast b) * FNV_PRIME) bs"

definition fnv1a_hash :: "u8 list \<Rightarrow> u64" where
  "fnv1a_hash bytes = fnv1a_loop FNV_OFFSET bytes"

section \<open>The method parser's language\<close>

lemma method_len_str: "m \<noteq> ALL_m \<Longrightarrow> unat (method_len m) = length (method_to_str m)"
  by (cases m) simp_all

lemma unat_of_char_u8: "unat (of_char c :: u8) = of_char c"
proof -
  have "of_char c < (256::nat)" by (rule nat_of_char_less_256)
  moreover have "(of_char c :: u8) = of_nat (of_char c)" by (rule of_nat_of_char [symmetric])
  ultimately show ?thesis by (simp only: unat_of_nat) simp
qed

lemma of_char_u8_eq [simp]: "(of_char c :: u8) = of_char d \<longleftrightarrow> c = d"
  by (metis unat_of_char_u8 of_char_eq_iff)

lemma at_byte_unique: "at_byte bs i c \<Longrightarrow> at_byte bs i d \<longleftrightarrow> c = d"
  by (simp add: at_byte_def)

definition starts :: "u8 list \<Rightarrow> string \<Rightarrow> bool" where
  "starts bs s \<longleftrightarrow> take (length s) bs = as_bytes s"

fun at_bytes :: "u8 list \<Rightarrow> nat \<Rightarrow> string \<Rightarrow> bool" where
  "at_bytes bs i [] = True"
| "at_bytes bs i (c # cs) = (at_byte bs i c \<and> at_bytes bs (Suc i) cs)"

lemma at_bytes_iff: "at_bytes bs k s \<longleftrightarrow> (\<forall>i<length s. at_byte bs (k + i) (s ! i))"
proof (induction s arbitrary: k)
  case (Cons c cs)
  then show ?case by (auto simp: less_Suc_eq_0_disj)
qed simp

lemma starts_at_bytes: "starts bs s \<longleftrightarrow> length s \<le> length bs \<and> at_bytes bs 0 s"
  by (simp add: starts_def as_bytes_def take_eq_nth_iff at_bytes_iff at_byte_def)

lemma starts_simps:
  "4 \<le> length bs \<Longrightarrow> starts bs ''GET '' \<longleftrightarrow> at_byte bs 0 CHR ''G'' \<and> at_byte bs 1 CHR ''E'' \<and> at_byte bs 2 CHR ''T'' \<and> at_byte bs 3 CHR '' ''"
  "4 \<le> length bs \<Longrightarrow> starts bs ''POST '' \<longleftrightarrow> at_byte bs 0 CHR ''P'' \<and> at_byte bs 1 CHR ''O'' \<and> at_byte bs 2 CHR ''S'' \<and> length bs \<ge> 5
       \<and> at_byte bs 3 CHR ''T'' \<and> at_byte bs 4 CHR '' ''"
  "4 \<le> length bs \<Longrightarrow> starts bs ''PUT '' \<longleftrightarrow> at_byte bs 0 CHR ''P'' \<and> at_byte bs 1 CHR ''U'' \<and> at_byte bs 2 CHR ''T'' \<and> at_byte bs 3 CHR '' ''"
  "4 \<le> length bs \<Longrightarrow> starts bs ''DELETE '' \<longleftrightarrow> at_byte bs 0 CHR ''D'' \<and> at_byte bs 1 CHR ''E'' \<and> at_byte bs 2 CHR ''L'' \<and> length bs \<ge> 7
       \<and> at_byte bs 3 CHR ''E'' \<and> at_byte bs 4 CHR ''T'' \<and> at_byte bs 5 CHR ''E'' \<and> at_byte bs 6 CHR '' ''"
  "4 \<le> length bs \<Longrightarrow> starts bs ''HEAD '' \<longleftrightarrow> at_byte bs 0 CHR ''H'' \<and> at_byte bs 1 CHR ''E'' \<and> at_byte bs 2 CHR ''A'' \<and> length bs \<ge> 5
       \<and> at_byte bs 3 CHR ''D'' \<and> at_byte bs 4 CHR '' ''"
  "4 \<le> length bs \<Longrightarrow> starts bs ''OPTIONS '' \<longleftrightarrow> at_byte bs 0 CHR ''O'' \<and> at_byte bs 1 CHR ''P'' \<and> at_byte bs 2 CHR ''T'' \<and> length bs \<ge> 8
       \<and> at_byte bs 3 CHR ''I'' \<and> at_byte bs 4 CHR ''O'' \<and> at_byte bs 5 CHR ''N'' \<and> at_byte bs 6 CHR ''S'' \<and> at_byte bs 7 CHR '' ''"
  "4 \<le> length bs \<Longrightarrow> starts bs ''PATCH '' \<longleftrightarrow> at_byte bs 0 CHR ''P'' \<and> at_byte bs 1 CHR ''A'' \<and> at_byte bs 2 CHR ''T'' \<and> length bs \<ge> 6
       \<and> at_byte bs 3 CHR ''C'' \<and> at_byte bs 4 CHR ''H'' \<and> at_byte bs 5 CHR '' ''"
  by (simp_all add: starts_at_bytes numeral_eq_Suc) blast+

lemma starts_short: "length bs < 4 \<Longrightarrow> m \<noteq> ALL_m \<Longrightarrow> \<not> starts bs (method_to_str m @ '' '')"
  by (cases m) (simp_all add: starts_at_bytes)

lemma from_bytes_starts:
  "from_bytes bs =
     (if starts bs ''GET '' then Some GET
      else if starts bs ''POST '' then Some POST
      else if starts bs ''PUT '' then Some PUT
      else if starts bs ''DELETE '' then Some DELETE
      else if starts bs ''HEAD '' then Some HEAD
      else if starts bs ''OPTIONS '' then Some OPTIONS
      else if starts bs ''PATCH '' then Some PATCH
      else None)"
proof (cases "length bs < 4")
  case True
  then show ?thesis
    using starts_short [of bs GET] starts_short [of bs POST] starts_short [of bs PUT]
      starts_short [of bs DELETE] starts_short [of bs HEAD] starts_short [of bs OPTIONS]
      starts_short [of bs PATCH]
    by (simp add: from_bytes_def)
next
  case False
  then have "4 \<le> length bs" by simp
  then show ?thesis
    by (simp only: from_bytes_def starts_simps False if_False)
qed

lemma starts_two:
  assumes "starts bs s" and "2 \<le> length s"
  shows "bs ! 0 = of_char (s ! 0) \<and> bs ! 1 = of_char (s ! 1)"
proof -
  obtain c d s' where "s = c # d # s'" using assms(2)
    by (cases s; cases "tl s") auto
  with assms(1) show ?thesis by (simp add: starts_at_bytes at_byte_def)
qed

lemma method_two_chars:
  "method_to_str m ! 0 = method_to_str m' ! 0 \<Longrightarrow> method_to_str m ! 1 = method_to_str m' ! 1
     \<Longrightarrow> m = m'"
  by (cases m; cases m') simp_all

lemma starts_unique:
  assumes "starts bs (method_to_str m @ '' '')" and "starts bs (method_to_str m' @ '' '')"
  shows "m = m'"
proof -
  have two: "2 \<le> length (method_to_str n)" for n by (cases n) simp_all
  have nth: "bs ! i = of_char (method_to_str n ! i)"
    if "starts bs (method_to_str n @ '' '')" "i < 2" for n i
    using starts_two [OF that(1)] two [of n] that(2)
    by (auto simp: nth_append less_2_cases_iff)
  from nth [OF assms(1), of 0] nth [OF assms(2), of 0] nth [OF assms(1), of 1] nth [OF assms(2), of 1]
  show ?thesis by (intro method_two_chars) simp_all
qed

text \<open>
  \<open>HttpMethod::from_bytes\<close> accepts a request line exactly when it starts with the method's
  name and a space.
\<close>

lemma from_bytes_iff:
  "from_bytes bs = Some m \<longleftrightarrow> m \<noteq> ALL_m \<and> starts bs (method_to_str m @ '' '')"
proof
  assume "from_bytes bs = Some m"
  then show "m \<noteq> ALL_m \<and> starts bs (method_to_str m @ '' '')"
    unfolding from_bytes_starts by (simp split: if_split_asm)
next
  assume m: "m \<noteq> ALL_m \<and> starts bs (method_to_str m @ '' '')"
  then have "from_bytes bs \<noteq> None"
    unfolding from_bytes_starts by (cases m) auto
  then obtain m' where m': "from_bytes bs = Some m'" by blast
  then have "starts bs (method_to_str m' @ '' '')"
    unfolding from_bytes_starts by (simp split: if_split_asm)
  with m m' show "from_bytes bs = Some m"
    using starts_unique by blast
qed

section \<open>Addresses\<close>

lemma length_ipv4_octets [simp]: "length (ipv4_octets a) = 4"
  by (cases a) simp

lemma ipv4_of_octets_append [simp]: "ipv4_of_octets (ipv4_octets a @ bs) = a"
  by (cases a) (simp add: ipv4_of_octets_def numeral_eq_Suc)

lemma backend_wf_from_ipv4 [inv_intros]: "backend_wf (from_ipv4 a p w)"
  by (simp add: backend_wf_def from_ipv4_def)

lemma backend_wf_from_ipv6 [inv_intros]:
  "length (ipv6_octets a) = 16 \<Longrightarrow> backend_wf (from_ipv6 a p w)"
  by (simp add: backend_wf_def from_ipv6_def)

lemma backend_wf_new [inv_intros]: "backend_wf (backend_new x p w)"
  by (simp add: backend_wf_def backend_new_def u32_to_be_bytes_def)

lemma u32_to_be_bytes_from_ipv4: "u32_to_be_bytes (u32_from_ipv4 a) = ipv4_octets a"
proof (cases a)
  case (Ipv4Addr b c d e)
  have "ucast (drop_bit 24 (u32_from_ipv4 a)) = b" "ucast (drop_bit 16 (u32_from_ipv4 a)) = c"
    "ucast (drop_bit 8 (u32_from_ipv4 a)) = d" "ucast (u32_from_ipv4 a) = e"
    unfolding Ipv4Addr by (rule bit_word_eqI, auto simp: bit_simps dest: bit_imp_le_length)+
  then show ?thesis by (simp add: u32_to_be_bytes_def Ipv4Addr)
qed

lemma u32_from_be_bytes: "u32_from_ipv4 (ipv4_of_octets (u32_to_be_bytes x @ bs)) = x"
proof -
  let ?y = "push_bit 24 (ucast (ucast (drop_bit 24 x) :: u8))
      OR push_bit 16 (ucast (ucast (drop_bit 16 x) :: u8))
      OR push_bit 8 (ucast (ucast (drop_bit 8 x) :: u8)) OR ucast (ucast x :: u8) :: u32"
  have "?y = x"
  proof (rule bit_word_eqI)
    fix n
    assume "n < LENGTH(32)"
    then consider "n < 8" | "8 \<le> n" "n < 16" | "16 \<le> n" "n < 24" | "24 \<le> n" "n < 32"
      by fastforce
    then show "bit ?y n = bit x n"
      by cases (auto simp: bit_simps)
  qed
  then show ?thesis
    by (simp add: u32_to_be_bytes_def ipv4_of_octets_def numeral_eq_Suc)
qed

text \<open>The legacy constructor and the typed one build the same backend.\<close>

lemma backend_new_from_ipv4: "backend_new (u32_from_ipv4 a) p w = from_ipv4 a p w"
  by (simp add: backend_new_def from_ipv4_def u32_to_be_bytes_from_ipv4)

lemma backend_new_as_u32: "ipv4_as_u32 (backend_new x p w) = Some x"
  by (simp add: ipv4_as_u32_def as_ipv4_def backend_new_def u32_from_be_bytes)

lemma wf_ipv4_octets:
  assumes "backend_wf b" "\<not> is_ipv6 b"
  shows "ip b = ipv4_octets (ipv4_of_octets (ip b)) @ replicate 12 0"
proof -
  have "take 4 (ip b) = ipv4_octets (ipv4_of_octets (ip b))"
  proof (rule nth_equalityI)
    show "length (take 4 (ip b)) = length (ipv4_octets (ipv4_of_octets (ip b)))"
      using assms by (simp add: backend_wf_def)
    fix i assume "i < length (take 4 (ip b))"
    then have "i = 0 \<or> i = 1 \<or> i = 2 \<or> i = 3" by auto
    then show "take 4 (ip b) ! i = ipv4_octets (ipv4_of_octets (ip b)) ! i"
      by (auto simp: ipv4_of_octets_def)
  qed
  then show ?thesis
    using assms append_take_drop_id [of 4 "ip b"] by (simp add: backend_wf_def)
qed

text \<open>A backend is its socket address and its weight.\<close>

lemma backend_eq_iff_socket:
  assumes "backend_wf b" "backend_wf b'"
  shows "b = b' \<longleftrightarrow> to_socket_addr b = to_socket_addr b' \<and> weight b = weight b'"
proof
  assume r: "to_socket_addr b = to_socket_addr b' \<and> weight b = weight b'"
  then have "is_ipv6 b = is_ipv6 b'" and p: "port b = port b'"
    by (auto simp: to_socket_addr_def split: if_splits)
  moreover from this r have "ip b = ip b'"
    using assms [THEN wf_ipv4_octets] by (cases "is_ipv6 b") (auto simp: to_socket_addr_def)
  ultimately show "b = b'" using r by simp
qed simp

section \<open>Printed backends\<close>

lemma show_u8_inj: "show_u8 a = show_u8 b \<longleftrightarrow> a = b"
  by (simp add: show_u8_def show_base_inj flip: word_unat_eq_iff)

lemma show_u16_inj: "show_u16 a = show_u16 b \<longleftrightarrow> a = b"
  by (simp add: show_u16_def show_base_inj flip: word_unat_eq_iff)

lemma punctuation_notin_show_u8 [simp]:
  "CHR ''.'' \<notin> set (show_u8 a)" "CHR '':'' \<notin> set (show_u8 a)" "CHR ''['' \<notin> set (show_u8 a)"
  by (simp_all add: show_u8_def)

lemma show_ipv4_inj: "show_ipv4 a = show_ipv4 b \<longleftrightarrow> a = b"
  by (cases a; cases b) (simp add: split_at_separator show_u8_inj)

lemma colon_notin_show_ipv4: "CHR '':'' \<notin> set (show_ipv4 a)" "CHR ''['' \<notin> set (show_ipv4 a)"
  by (cases a; simp)+

text \<open>
  Two IPv4 backends print alike only if they have the same address and port; an IPv6 backend
  never prints like an IPv4 one.
\<close>

lemma show_backend_ipv4_eq:
  assumes "\<not> is_ipv6 b"
  shows "show_backend b = show_backend b' \<longleftrightarrow>
    \<not> is_ipv6 b' \<and> ipv4_of_octets (ip b) = ipv4_of_octets (ip b') \<and> port b = port b'"
proof (cases "is_ipv6 b'")
  case True
  have "show_ipv4 (ipv4_of_octets (ip b)) \<noteq> []"
    by (cases "ipv4_of_octets (ip b)") (simp add: show_u8_def)
  then have "show_backend b \<noteq> show_backend b'"
    using assms True colon_notin_show_ipv4(2) [of "ipv4_of_octets (ip b)"]
    by (auto simp: show_backend_def append_eq_Cons_conv)
  with True show ?thesis by simp
next
  case False
  with assms show ?thesis
    by (simp add: show_backend_def split_at_separator colon_notin_show_ipv4 show_ipv4_inj show_u16_inj)
qed

end
