(* ===== verification/Maglev.thy ===== *)
theory Maglev
  imports Common_Types
begin

text \<open>
  Maglev consistent hashing (\<open>common/src/lib.rs\<close>): the two-hash permutation of a backend, the
  loop that lets the permutations claim the slots of the lookup table, the full table
  (\<open>maglev_build_table\<close>, 65537 slots) and the compact one used by the router
  (\<open>maglev_build_compact_table\<close>, 4099 slots, repetitions by weight), and the two lookups.

  The claiming loop of the two builders is the same text over two representations of the
  table; the locale \<open>claim_table\<close> states what the loop needs of a representation, its lemmas
  show that the loop ends and compute the owner of every slot, and both tables interpret it.
\<close>

section \<open>Hashes and permutations\<close>

definition hash_backend :: "u64 \<Rightarrow> u64 \<Rightarrow> u64" where
  "hash_backend key seed =
     foldl (\<lambda>hash i. (hash XOR (drop_bit (i * 8) key AND 0xFF)) * FNV_PRIME)
       (FNV_OFFSET XOR seed) [0..<8]"

definition hasher_bytes :: "backend \<Rightarrow> u8 list" where
  "hasher_bytes b = ip b @ u16_to_be_bytes (port b)"

text \<open>
  The body that \<open>generate_permutation\<close> and \<open>generate_permutation_compact\<close> share, for a table
  of \<open>M\<close> slots.
\<close>

definition perm_offset :: "nat \<Rightarrow> backend \<Rightarrow> u32 \<Rightarrow> nat" where
  "perm_offset M b idx =
     unat (hash_backend (fnv1a_hash (hasher_bytes b)) (ucast idx) mod of_nat M)"

definition perm_skip :: "nat \<Rightarrow> backend \<Rightarrow> u32 \<Rightarrow> nat" where
  "perm_skip M b idx =
     unat (hash_backend (fnv1a_hash (hasher_bytes b)) (ucast idx + 1) mod (of_nat M - 1) + 1)"

definition permutation_of :: "nat \<Rightarrow> backend \<Rightarrow> u32 \<Rightarrow> nat list" where
  "permutation_of M b idx =
     map (\<lambda>j. (perm_offset M b idx + j * perm_skip M b idx) mod M) [0..<M]"

definition generate_permutation :: "backend \<Rightarrow> u32 \<Rightarrow> nat list" where
  "generate_permutation b idx = permutation_of MAGLEV_TABLE_SIZE b idx"

definition generate_permutation_compact :: "backend \<Rightarrow> u32 \<Rightarrow> nat list" where
  "generate_permutation_compact b idx = permutation_of COMPACT_MAGLEV_SIZE b idx"

section \<open>The claiming loop\<close>

text \<open>
  One pass of the inner \<open>for\<close> loop: every permutation tries its \<open>n\<close>-th slot; the loop breaks
  when the last slot is filled. The outer \<open>while\<close> has no bound in the source.
\<close>

fun fill_round :: "nat \<Rightarrow> ('s \<Rightarrow> nat \<Rightarrow> bool) \<Rightarrow> (nat \<Rightarrow> 'v \<Rightarrow> 's \<Rightarrow> 's) \<Rightarrow> ('s \<Rightarrow> nat) \<Rightarrow>
    nat \<Rightarrow> ('v \<times> nat list) list \<Rightarrow> 's \<Rightarrow> 's" where
  "fill_round M is_free claim filled n [] s = s"
| "fill_round M is_free claim filled n ((v, perm) # ps) s =
     (let c = perm ! (n mod M) in
      if is_free s c then
        (let s' = claim c v s in
         if filled s' = M then s' else fill_round M is_free claim filled n ps s')
      else fill_round M is_free claim filled n ps s)"

partial_function (option) fill_loop :: "nat \<Rightarrow> ('s \<Rightarrow> nat \<Rightarrow> bool) \<Rightarrow> (nat \<Rightarrow> 'v \<Rightarrow> 's \<Rightarrow> 's) \<Rightarrow>
    ('s \<Rightarrow> nat) \<Rightarrow> ('v \<times> nat list) list \<Rightarrow> nat \<Rightarrow> 's \<Rightarrow> 's option" where
  "fill_loop M is_free claim filled perms n s =
     (if filled s < M
      then fill_loop M is_free claim filled perms (Suc n) (fill_round M is_free claim filled n perms s)
      else Some s)"

subsection \<open>The full table: \<open>Vec<Option<u32>>\<close> and a counter\<close>

record full_table =
  ft_table :: "u32 option list"
  ft_filled :: nat

definition full_is_free :: "full_table \<Rightarrow> nat \<Rightarrow> bool" where
  "full_is_free s c \<longleftrightarrow> ft_table s ! c = None"

definition full_claim :: "nat \<Rightarrow> u32 \<Rightarrow> full_table \<Rightarrow> full_table" where
  "full_claim c v s = \<lparr>ft_table = (ft_table s)[c := Some v], ft_filled = ft_filled s + 1\<rparr>"

definition full_permutations :: "backend list \<Rightarrow> (u32 \<times> nat list) list" where
  "full_permutations bs =
     map (\<lambda>(i, b). (of_nat i, generate_permutation b (of_nat i))) (enumerate 0 bs)"

definition maglev_build_table :: "backend list \<Rightarrow> u32 option list outcome" where
  "maglev_build_table bs =
     (if bs = [] then Done (replicate MAGLEV_TABLE_SIZE None)
      else case fill_loop MAGLEV_TABLE_SIZE full_is_free full_claim ft_filled
             (full_permutations bs) 0
             \<lparr>ft_table = replicate MAGLEV_TABLE_SIZE None, ft_filled = 0\<rparr> of
             None \<Rightarrow> Diverges
           | Some s \<Rightarrow> Done (ft_table s))"

subsection \<open>The compact table: \<open>Vec<u8>\<close>, a \<open>Vec<bool>\<close> of filled slots and a counter\<close>

record compact_table =
  ct_table :: "u8 list"
  ct_filled :: "bool list"
  ct_count :: nat

definition compact_is_free :: "compact_table \<Rightarrow> nat \<Rightarrow> bool" where
  "compact_is_free s c \<longleftrightarrow> \<not> ct_filled s ! c"

definition compact_claim :: "nat \<Rightarrow> u8 \<Rightarrow> compact_table \<Rightarrow> compact_table" where
  "compact_claim c v s =
     \<lparr>ct_table = (ct_table s)[c := v], ct_filled = (ct_filled s)[c := True],
      ct_count = ct_count s + 1\<rparr>"

definition repetitions :: "backend \<Rightarrow> nat" where
  "repetitions b = max (unat (weight b div 10)) 1"

definition backend_permutations :: "nat \<Rightarrow> backend \<Rightarrow> (u8 \<times> nat list) list" where
  "backend_permutations i b =
     map (\<lambda>rep. (of_nat i, generate_permutation_compact b (of_nat (i * 100 + rep))))
       [0..<repetitions b]"

definition compact_permutations :: "backend list \<Rightarrow> (u8 \<times> nat list) list" where
  "compact_permutations bs = concat (map (\<lambda>(i, b). backend_permutations i b) (enumerate 0 bs))"

definition maglev_build_compact_table :: "backend list \<Rightarrow> u8 list outcome" where
  "maglev_build_compact_table bs =
     (if bs = [] then Done (replicate COMPACT_MAGLEV_SIZE 0)
      else if length bs > MAX_BACKENDS then Panic ''Cannot build compact table''
      else case fill_loop COMPACT_MAGLEV_SIZE compact_is_free compact_claim ct_count
             (compact_permutations bs) 0
             \<lparr>ct_table = replicate COMPACT_MAGLEV_SIZE 0,
              ct_filled = replicate COMPACT_MAGLEV_SIZE False, ct_count = 0\<rparr> of
             None \<Rightarrow> Diverges
           | Some s \<Rightarrow> Done (ct_table s))"

section \<open>Lookups\<close>

definition maglev_lookup :: "u64 \<Rightarrow> u32 option list \<Rightarrow> u32 option" where
  "maglev_lookup flow_key table =
     (if table = [] then None
      else let idx = unat (flow_key mod of_nat (length table)) in
        if idx < length table then table ! idx else None)"

definition maglev_lookup_compact :: "u64 \<Rightarrow> u8 list \<Rightarrow> u8 outcome" where
  "maglev_lookup_compact flow_key table =
     (if table = [] then Done 0
      else let idx = unat (flow_key mod of_nat COMPACT_MAGLEV_SIZE) in
        if idx < length table then Done (table ! idx) else Panic ''index out of bounds'')"

section \<open>The owner of a slot\<close>

text \<open>
  The reference definition: list the attempts (slot, value) in the order of the rounds, and in
  a round in the order of the permutations; a slot belongs to the first attempt at it.
\<close>

definition round_attempts :: "nat \<Rightarrow> ('v \<times> nat list) list \<Rightarrow> nat \<Rightarrow> (nat \<times> 'v) list" where
  "round_attempts M perms n = map (\<lambda>(v, perm). (perm ! (n mod M), v)) perms"

definition attempts :: "nat \<Rightarrow> ('v \<times> nat list) list \<Rightarrow> nat \<Rightarrow> (nat \<times> 'v) list" where
  "attempts M perms n = concat (map (round_attempts M perms) [0..<n])"

definition slot_owner :: "nat \<Rightarrow> ('v \<times> nat list) list \<Rightarrow> nat \<Rightarrow> 'v option" where
  "slot_owner M perms c = map_of (attempts M perms M) c"

definition perms_ok :: "nat \<Rightarrow> ('v \<times> nat list) list \<Rightarrow> bool" where
  "perms_ok M perms \<longleftrightarrow>
     (\<forall>(v, perm) \<in> set perms. length perm = M \<and> set perm = {..<M} \<and> distinct perm)"

lemma attempts_Suc: "attempts M perms (Suc n) = attempts M perms n @ round_attempts M perms n"
  by (simp add: attempts_def)

lemma attempts_mono_prefix:
  "n \<le> n' \<Longrightarrow> \<exists>ys. attempts M perms n' = attempts M perms n @ ys"
  by (induction n' rule: dec_induct) (auto simp: attempts_Suc)

lemma perms_ok_nth:
  assumes "perms_ok M perms" "(v, perm) \<in> set perms" "0 < M"
  shows "perm ! (n mod M) < M"
proof -
  have "length perm = M" "set perm = {..<M}" using assms(1,2) by (auto simp: perms_ok_def)
  moreover have "n mod M < M" using assms(3) by simp
  ultimately show ?thesis using nth_mem [of "n mod M" perm] by auto
qed

lemma attempts_slots: "perms_ok M perms \<Longrightarrow> 0 < M \<Longrightarrow> fst ` set (attempts M perms n) \<subseteq> {..<M}"
  by (auto simp: attempts_def round_attempts_def perms_ok_nth)

text \<open>The first permutation alone reaches every slot in \<open>M\<close> rounds.\<close>

lemma attempts_cover:
  assumes "perms_ok M perms" "perms \<noteq> []"
  shows "{..<M} \<subseteq> fst ` set (attempts M perms M)"
proof
  fix c assume c: "c \<in> {..<M}"
  obtain v perm ps where p: "perms = (v, perm) # ps" using assms(2) by (cases perms) auto
  then have "length perm = M" "set perm = {..<M}" using assms(1) by (auto simp: perms_ok_def)
  then obtain n where n: "n < M" "perm ! n = c" using c by (metis in_set_conv_nth)
  then have "(c, v) \<in> set (round_attempts M perms n)"
    by (auto simp: round_attempts_def p)
  with n show "c \<in> fst ` set (attempts M perms M)"
    by (force simp: attempts_def)
qed

text \<open>Once every slot has an owner, further attempts change nothing.\<close>

lemma map_of_append_full:
  assumes "dom (map_of xs) = {..<M}" "fst ` set ys \<subseteq> {..<M}"
  shows "map_of (xs @ ys) = map_of xs"
proof
  fix c
  show "map_of (xs @ ys) c = map_of xs c"
  proof (cases "map_of xs c")
    case None
    with assms have "c \<notin> fst ` set ys" by auto
    then have "map_of ys c = None" by (simp add: map_of_eq_None_iff)
    with None show ?thesis by (simp add: map_add_def)
  qed (simp add: map_add_def)
qed

lemma map_of_snoc_free:
  "map_of (xs @ (c, v) # ys) = (if map_of xs c = None then map_of ((xs @ [(c, v)]) @ ys) else map_of (xs @ ys))"
  by (auto simp: map_add_def fun_eq_iff split: option.split)

locale claim_table =
  fixes M :: nat
    and is_free :: "'s \<Rightarrow> nat \<Rightarrow> bool"
    and claim :: "nat \<Rightarrow> 'v \<Rightarrow> 's \<Rightarrow> 's"
    and filled :: "'s \<Rightarrow> nat"
    and slots :: "'s \<Rightarrow> nat \<Rightarrow> 'v option"
    and table_inv :: "'s \<Rightarrow> bool"
  assumes M_pos: "0 < M"
    and free_iff: "table_inv s \<Longrightarrow> c < M \<Longrightarrow> is_free s c \<longleftrightarrow> slots s c = None"
    and slots_claim: "table_inv s \<Longrightarrow> c < M \<Longrightarrow> slots s c = None \<Longrightarrow> slots (claim c v s) = (slots s)(c \<mapsto> v)"
    and inv_claim: "table_inv s \<Longrightarrow> c < M \<Longrightarrow> slots s c = None \<Longrightarrow> table_inv (claim c v s)"
    and filled_card: "table_inv s \<Longrightarrow> filled s = card (dom (slots s))"
    and slots_dom: "table_inv s \<Longrightarrow> dom (slots s) \<subseteq> {..<M}"
begin

lemma filled_le: "table_inv s \<Longrightarrow> filled s \<le> M"
  using filled_card slots_dom by (metis card_lessThan card_mono finite_lessThan)

lemma filled_full: "table_inv s \<Longrightarrow> filled s = M \<longleftrightarrow> dom (slots s) = {..<M}"
  using filled_card slots_dom
  by (metis card_lessThan card_subset_eq finite_lessThan)

lemma fill_round_slots:
  assumes "table_inv s" "slots s = map_of xs" "perms_ok M ps"
  shows "table_inv (fill_round M is_free claim filled n ps s) \<and>
    slots (fill_round M is_free claim filled n ps s) = map_of (xs @ round_attempts M ps n)"
  using assms
proof (induction ps arbitrary: s xs)
  case Nil
  then show ?case by (simp add: round_attempts_def)
next
  case (Cons p ps)
  obtain v perm where p: "p = (v, perm)" by (cases p)
  let ?c = "perm ! (n mod M)"
  let ?s' = "claim ?c v s"
  have ok: "perms_ok M ps" using Cons.prems(3) by (auto simp: perms_ok_def)
  have c: "?c < M" using perms_ok_nth [OF Cons.prems(3)] p M_pos by auto
  have ra: "round_attempts M (p # ps) n = (?c, v) # round_attempts M ps n"
    by (simp add: round_attempts_def p)
  have sl: "fst ` set (round_attempts M ps n) \<subseteq> {..<M}"
    using perms_ok_nth [OF ok] M_pos by (auto simp: round_attempts_def)
  show ?case
  proof (cases "is_free s ?c")
    case True
    then have none: "map_of xs ?c = None"
      using free_iff Cons.prems(1,2) c by simp
    have s': "table_inv ?s'" "slots ?s' = map_of (xs @ [(?c, v)])"
      using slots_claim [OF Cons.prems(1) c] inv_claim [OF Cons.prems(1) c] none Cons.prems(2)
      by (auto simp: map_add_def fun_eq_iff split: option.split)
    show ?thesis
    proof (cases "filled ?s' = M")
      case full: True
      then have "dom (map_of (xs @ [(?c, v)])) = {..<M}" using filled_full s' by simp
      then have "map_of ((xs @ [(?c, v)]) @ round_attempts M ps n) = map_of (xs @ [(?c, v)])"
        using sl by (rule map_of_append_full)
      with True full s' show ?thesis by (simp add: p ra [unfolded p] Let_def)
    next
      case False
      with True Cons.IH [OF s' ok] show ?thesis by (simp add: p ra [unfolded p] Let_def)
    qed
  next
    case False
    then have "map_of xs ?c \<noteq> None" using free_iff Cons.prems(1,2) c by simp
    then have "map_of (xs @ round_attempts M (p # ps) n) = map_of (xs @ round_attempts M ps n)"
      unfolding ra by (subst map_of_snoc_free) (simp only: if_False)
    with False Cons.IH [OF Cons.prems(1,2) ok] show ?thesis by (simp add: p Let_def)
  qed
qed

text \<open>The loop ends, and gives every slot to the first attempt at it.\<close>

lemma fill_loop_slots:
  assumes "table_inv s" "slots s = map_of (attempts M perms n)" "perms_ok M perms" "perms \<noteq> []"
    "n \<le> M"
  shows "\<exists>s'. fill_loop M is_free claim filled perms n s = Some s' \<and> table_inv s' \<and>
    dom (slots s') = {..<M} \<and> slots s' = slot_owner M perms"
  using assms
proof (induction "M - n" arbitrary: n s)
  case 0
  then have "n = M" by simp
  then have "{..<M} \<subseteq> dom (slots s)"
    using attempts_cover [OF "0.prems"(3,4)] "0.prems"(2) by (simp add: dom_map_of_conv_image_fst)
  then have full: "dom (slots s) = {..<M}" using slots_dom "0.prems"(1) by blast
  then have "\<not> filled s < M" using filled_full [OF "0.prems"(1)] by simp
  moreover have "slots s = slot_owner M perms"
    using "0.prems"(2) \<open>n = M\<close> by (simp add: slot_owner_def fun_eq_iff)
  ultimately show ?case using full "0.prems"(1) by (subst fill_loop.simps) simp
next
  case (Suc k)
  show ?case
  proof (cases "filled s < M")
    case True
    let ?s' = "fill_round M is_free claim filled n perms s"
    from fill_round_slots [OF Suc.prems(1,2,3)]
    have "table_inv ?s'" "slots ?s' = map_of (attempts M perms (Suc n))"
      by (simp_all add: attempts_Suc)
    with Suc.hyps(1) [of "Suc n" ?s'] Suc.hyps(2) Suc.prems(3,4)
    have "\<exists>s'. fill_loop M is_free claim filled perms (Suc n) ?s' = Some s' \<and> table_inv s' \<and>
        dom (slots s') = {..<M} \<and> slots s' = slot_owner M perms" by simp
    with True show ?thesis by (subst fill_loop.simps) simp
  next
    case False
    then have full: "dom (slots s) = {..<M}"
      using filled_full filled_le Suc.prems(1) by (metis le_neq_implies_less)
    obtain ys where ys: "attempts M perms M = attempts M perms n @ ys"
      using attempts_mono_prefix [OF Suc.prems(5)] by blast
    have "fst ` set ys \<subseteq> {..<M}"
      using attempts_slots [OF Suc.prems(3) M_pos, of M] by (auto simp: ys)
    then have "slots s = slot_owner M perms"
      using map_of_append_full [of "attempts M perms n" M ys] full Suc.prems(2)
      by (simp add: slot_owner_def ys fun_eq_iff)
    with False full Suc.prems(1) show ?thesis by (subst fill_loop.simps) simp
  qed
qed

end

section \<open>The permutations are permutations\<close>

text \<open>
  The table sizes are prime; all the permutations need is that every skip below the size is
  coprime to it, which follows from the absence of divisors up to the square root.
\<close>

lemma coprime_of_no_divisor:
  fixes M s :: nat
  assumes none: "\<forall>d \<in> {2..k}. \<not> d dvd M" and M: "M < (k + 1) * (k + 1)" and s: "0 < s" "s < M"
  shows "coprime s M"
proof (rule ccontr)
  assume "\<not> coprime s M"
  define g where "g = gcd s M"
  have g: "g dvd M" "g \<le> s" "g \<noteq> 0" "g \<noteq> 1"
    using s \<open>\<not> coprime s M\<close> by (auto simp: g_def coprime_iff_gcd_eq_1 intro: dvd_imp_le)
  then obtain q where q: "M = g * q" by blast
  have "q \<noteq> 0" using q s by (cases q) auto
  moreover have "q \<noteq> 1" using q s g(2) by auto
  ultimately have q2: "2 \<le> q" "2 \<le> g" using g by auto
  have "k < g" using none g(1) q2(2) by (meson atLeastAtMost_iff not_le)
  moreover have "k < q" using none q q2(1) by (metis atLeastAtMost_iff dvd_triv_right not_le)
  ultimately have "(k + 1) * (k + 1) \<le> g * q" by (intro mult_le_mono) simp_all
  with M q show False by simp
qed

lemma no_divisor_check:
  assumes "list_all (\<lambda>d. int M mod d \<noteq> 0) [2..int k]"
  shows "\<forall>d \<in> {2..k}. \<not> d dvd M"
proof
  fix d assume d: "d \<in> {2..k}"
  then have "int M mod int d \<noteq> 0" using assms by (auto simp: list_all_iff)
  then show "\<not> d dvd M" by (simp add: zmod_int [symmetric] mod_eq_0_iff_dvd)
qed

lemma compact_size_no_divisor: "list_all (\<lambda>d. int 4099 mod d \<noteq> 0) [2..int 64]"
  unfolding of_nat_numeral by code_simp

lemma table_size_no_divisor: "list_all (\<lambda>d. int 65537 mod d \<noteq> 0) [2..int 256]"
  unfolding of_nat_numeral by code_simp

lemma skip_coprime_compact:
  assumes "0 < s" "s < COMPACT_MAGLEV_SIZE"
  shows "coprime s COMPACT_MAGLEV_SIZE"
  unfolding COMPACT_MAGLEV_SIZE_def
  by (rule coprime_of_no_divisor [OF no_divisor_check [OF compact_size_no_divisor]])
    (use assms in \<open>simp_all add: COMPACT_MAGLEV_SIZE_def\<close>)

lemma skip_coprime_full:
  assumes "0 < s" "s < MAGLEV_TABLE_SIZE"
  shows "coprime s MAGLEV_TABLE_SIZE"
  unfolding MAGLEV_TABLE_SIZE_def
  by (rule coprime_of_no_divisor [OF no_divisor_check [OF table_size_no_divisor]])
    (use assms in \<open>simp_all add: MAGLEV_TABLE_SIZE_def\<close>)

lemma perm_skip_bounds:
  assumes "2 \<le> M" "M < 2 ^ 64"
  shows "0 < perm_skip M b idx" "perm_skip M b idx < M"
proof -
  let ?h = "hash_backend (fnv1a_hash (hasher_bytes b)) (ucast idx + 1)"
  have M1: "unat (of_nat M - 1 :: u64) = M - 1"
  proof -
    have "(of_nat M - 1 :: u64) = of_nat (M - 1)" using assms(1) by simp
    then show ?thesis using assms by (simp add: unat_of_nat del: of_nat_diff)
  qed
  have lt: "unat (?h mod (of_nat M - 1)) < M - 1"
    using M1 assms(1) by (simp add: unat_mod_distrib)
  then have "unat (?h mod (of_nat M - 1) + 1) = unat (?h mod (of_nat M - 1)) + 1"
    using assms(2) by (simp add: unat_word_ariths)
  with lt show "0 < perm_skip M b idx" "perm_skip M b idx < M"
    by (simp_all add: perm_skip_def)
qed

lemma affine_inj:
  fixes M s :: nat
  assumes "coprime s M" "(a + i * s) mod M = (a + j * s) mod M" "i < M" "j < M"
  shows "i = j"
proof -
  have main: "i = j" if "i \<le> j" "i < M" "j < M" "(a + i * s) mod M = (a + j * s) mod M" for i j
  proof -
    have "M dvd (a + j * s) - (a + i * s)"
      using mod_eq_dvd_iff_nat [of "a + i * s" "a + j * s" M] that by (simp add: mult_le_mono1)
    then have "M dvd (j - i) * s" by (simp add: diff_mult_distrib)
    then have "M dvd j - i" using assms(1) by (simp add: coprime_dvd_mult_left_iff coprime_commute)
    then have "j - i = 0" using that(3) by (auto dest: dvd_imp_le)
    then show ?thesis using that(1) by simp
  qed
  show ?thesis
    using main [of i j] main [of j i] assms by (cases "i \<le> j") auto
qed

lemma permutation_of_ok:
  assumes "2 \<le> M" "M < 2 ^ 64" "\<And>s. 0 < s \<Longrightarrow> s < M \<Longrightarrow> coprime s M"
  shows "length (permutation_of M b idx) = M \<and> set (permutation_of M b idx) = {..<M} \<and>
    distinct (permutation_of M b idx)"
proof -
  have cop: "coprime (perm_skip M b idx) M"
    using assms(3) perm_skip_bounds [OF assms(1,2)] by blast
  have d: "distinct (permutation_of M b idx)"
    unfolding permutation_of_def
    by (auto simp: distinct_map inj_on_def intro: affine_inj [OF cop])
  have len: "length (permutation_of M b idx) = M" by (simp add: permutation_of_def)
  have "set (permutation_of M b idx) \<subseteq> {..<M}" using assms(1) by (auto simp: permutation_of_def)
  moreover have "card (set (permutation_of M b idx)) = card {..<M}"
    using d len by (simp add: distinct_card)
  ultimately have "set (permutation_of M b idx) = {..<M}" by (simp add: card_subset_eq)
  with d len show ?thesis by blast
qed

lemma compact_permutations_ok: "perms_ok COMPACT_MAGLEV_SIZE (compact_permutations bs)"
proof -
  have "2 \<le> COMPACT_MAGLEV_SIZE" "COMPACT_MAGLEV_SIZE < 2 ^ 64"
    by (simp_all add: COMPACT_MAGLEV_SIZE_def)
  from permutation_of_ok [OF this skip_coprime_compact] show ?thesis
    by (auto simp: perms_ok_def compact_permutations_def backend_permutations_def
        generate_permutation_compact_def)
qed

lemma full_permutations_ok: "perms_ok MAGLEV_TABLE_SIZE (full_permutations bs)"
proof -
  have "2 \<le> MAGLEV_TABLE_SIZE" "MAGLEV_TABLE_SIZE < 2 ^ 64"
    by (simp_all add: MAGLEV_TABLE_SIZE_def)
  from permutation_of_ok [OF this skip_coprime_full] show ?thesis
    by (auto simp: perms_ok_def full_permutations_def generate_permutation_def)
qed

section \<open>Both tables are claim tables\<close>

definition full_slots :: "full_table \<Rightarrow> nat \<Rightarrow> u32 option" where
  "full_slots s c = (if c < length (ft_table s) then ft_table s ! c else None)"

definition full_inv :: "full_table \<Rightarrow> bool" where
  "full_inv s \<longleftrightarrow> length (ft_table s) = MAGLEV_TABLE_SIZE \<and> ft_filled s = card (dom (full_slots s))"

definition compact_slots :: "compact_table \<Rightarrow> nat \<Rightarrow> u8 option" where
  "compact_slots s c =
     (if c < COMPACT_MAGLEV_SIZE \<and> ct_filled s ! c then Some (ct_table s ! c) else None)"

definition compact_inv :: "compact_table \<Rightarrow> bool" where
  "compact_inv s \<longleftrightarrow> length (ct_table s) = COMPACT_MAGLEV_SIZE
     \<and> length (ct_filled s) = COMPACT_MAGLEV_SIZE \<and> ct_count s = card (dom (compact_slots s))"

lemma finite_dom_below: "dom m \<subseteq> {..<n} \<Longrightarrow> finite (dom m)" for n :: nat
  by (rule finite_subset [OF _ finite_lessThan])

lemma full_slots_dom: "length (ft_table s) = n \<Longrightarrow> dom (full_slots s) \<subseteq> {..<n}"
  by (auto simp: full_slots_def split: if_splits)

lemma compact_slots_dom: "dom (compact_slots s) \<subseteq> {..<COMPACT_MAGLEV_SIZE}"
  by (auto simp: compact_slots_def split: if_splits)

lemma full_slots_claim:
  "c < length (ft_table s) \<Longrightarrow> full_slots (full_claim c v s) = (full_slots s)(c \<mapsto> v)"
  by (auto simp: full_slots_def full_claim_def nth_list_update fun_eq_iff)

lemma compact_slots_claim:
  "length (ct_table s) = COMPACT_MAGLEV_SIZE \<Longrightarrow> length (ct_filled s) = COMPACT_MAGLEV_SIZE \<Longrightarrow>
    c < COMPACT_MAGLEV_SIZE \<Longrightarrow> compact_slots (compact_claim c v s) = (compact_slots s)(c \<mapsto> v)"
  by (auto simp: compact_slots_def compact_claim_def nth_list_update fun_eq_iff)

interpretation full: claim_table MAGLEV_TABLE_SIZE full_is_free full_claim ft_filled full_slots full_inv
proof unfold_locales
  fix s c v
  assume s: "full_inv s" and c: "c < MAGLEV_TABLE_SIZE" and free: "full_slots s c = None"
  have "finite (dom (full_slots s))" "c \<notin> dom (full_slots s)"
    using s free full_slots_dom [of s] by (auto simp: full_inv_def intro: finite_dom_below)
  then have "card (dom ((full_slots s)(c \<mapsto> v))) = ft_filled s + 1"
    using s by (simp add: full_inv_def)
  then show "full_inv (full_claim c v s)"
    using s c by (simp add: full_inv_def full_slots_claim) (simp add: full_claim_def)
qed (auto simp: full_inv_def full_is_free_def full_slots_claim MAGLEV_TABLE_SIZE_def full_slots_def
       split: if_splits)

interpretation compact: claim_table COMPACT_MAGLEV_SIZE compact_is_free compact_claim ct_count
  compact_slots compact_inv
proof unfold_locales
  fix s c v
  assume s: "compact_inv s" and c: "c < COMPACT_MAGLEV_SIZE" and free: "compact_slots s c = None"
  have "finite (dom (compact_slots s))" "c \<notin> dom (compact_slots s)"
    using free compact_slots_dom [of s] by (auto intro: finite_dom_below)
  then have "card (dom ((compact_slots s)(c \<mapsto> v))) = ct_count s + 1"
    using s by (simp add: compact_inv_def)
  then show "compact_inv (compact_claim c v s)"
    using s c by (simp add: compact_inv_def compact_slots_claim) (simp add: compact_claim_def)
qed (auto simp: compact_inv_def compact_is_free_def compact_slots_claim COMPACT_MAGLEV_SIZE_def
       compact_slots_def split: if_splits)

section \<open>The compact table\<close>

abbreviation compact_start :: compact_table where
  "compact_start \<equiv> \<lparr>ct_table = replicate COMPACT_MAGLEV_SIZE 0,
     ct_filled = replicate COMPACT_MAGLEV_SIZE False, ct_count = 0\<rparr>"

abbreviation full_start :: full_table where
  "full_start \<equiv> \<lparr>ft_table = replicate MAGLEV_TABLE_SIZE None, ft_filled = 0\<rparr>"

lemma compact_start_inv: "compact_inv compact_start" "compact_slots compact_start = Map.empty"
proof -
  show e: "compact_slots compact_start = Map.empty" by (auto simp: compact_slots_def)
  show "compact_inv compact_start" by (simp add: compact_inv_def e)
qed

lemma full_start_inv: "full_inv full_start" "full_slots full_start = Map.empty"
proof -
  show e: "full_slots full_start = Map.empty" by (auto simp: full_slots_def)
  show "full_inv full_start" by (simp add: full_inv_def e)
qed

lemma attempts_0 [simp]: "attempts M perms 0 = []"
  by (simp add: attempts_def)

lemma backend_permutations_not_Nil: "backend_permutations i b \<noteq> []"
  by (simp add: backend_permutations_def repetitions_def)

lemma compact_permutations_not_Nil: "bs \<noteq> [] \<Longrightarrow> compact_permutations bs \<noteq> []"
  by (cases bs) (simp_all add: compact_permutations_def backend_permutations_not_Nil)

lemma full_permutations_not_Nil: "bs \<noteq> [] \<Longrightarrow> full_permutations bs \<noteq> []"
  by (cases bs) (simp_all add: full_permutations_def)

lemma compact_build:
  assumes "bs \<noteq> []" "length bs \<le> MAX_BACKENDS"
  obtains t where "maglev_build_compact_table bs = Done t" "length t = COMPACT_MAGLEV_SIZE"
    "\<And>c. c < COMPACT_MAGLEV_SIZE \<Longrightarrow>
       slot_owner COMPACT_MAGLEV_SIZE (compact_permutations bs) c = Some (t ! c)"
proof -
  from compact.fill_loop_slots [of compact_start "compact_permutations bs" 0] compact_start_inv
    compact_permutations_ok compact_permutations_not_Nil [OF assms(1)]
  obtain s where s: "fill_loop COMPACT_MAGLEV_SIZE compact_is_free compact_claim ct_count
      (compact_permutations bs) 0 compact_start = Some s" "compact_inv s"
      "dom (compact_slots s) = {..<COMPACT_MAGLEV_SIZE}"
      "compact_slots s = slot_owner COMPACT_MAGLEV_SIZE (compact_permutations bs)"
    by auto
  have "maglev_build_compact_table bs = Done (ct_table s)"
    using assms s(1) by (simp add: maglev_build_compact_table_def)
  moreover have "length (ct_table s) = COMPACT_MAGLEV_SIZE" using s(2) by (simp add: compact_inv_def)
  moreover have "slot_owner COMPACT_MAGLEV_SIZE (compact_permutations bs) c = Some (ct_table s ! c)"
    if "c < COMPACT_MAGLEV_SIZE" for c
  proof -
    have "c \<in> dom (compact_slots s)" using s(3) that by simp
    then have "compact_slots s c = Some (ct_table s ! c)"
      by (auto simp: compact_slots_def split: if_splits)
    then show ?thesis using s(4) by simp
  qed
  ultimately show thesis by (rule that)
qed

text \<open>The values of a slot are those of the permutations, the indices of the backends.\<close>

lemma slot_owner_value: "slot_owner M perms c = Some v \<Longrightarrow> v \<in> fst ` set perms"
  by (force simp: slot_owner_def attempts_def round_attempts_def dest!: map_of_SomeD)

lemma compact_permutations_values:
  "v \<in> fst ` set (compact_permutations bs) \<Longrightarrow> \<exists>i<length bs. v = of_nat i"
  by (force simp: compact_permutations_def backend_permutations_def in_set_enumerate_eq)

lemma slot_owner_append:
  "slot_owner M (perms @ ps) c = slot_owner M perms c \<or>
     (\<exists>v \<in> fst ` set ps. slot_owner M (perms @ ps) c = Some v)"
proof -
  let ?A = "attempts M perms" and ?Z = "attempts M (perms @ ps)"
  define V where "V = fst ` set ps"
  have "map_of (?Z n) c = map_of (?A n) c \<or> (\<exists>v \<in> V. map_of (?Z n) c = Some v)" for n
  proof (induction n)
    case (Suc n)
    have ra: "round_attempts M (perms @ ps) n = round_attempts M perms n @ round_attempts M ps n"
      by (simp add: round_attempts_def)
    have val: "map_of (round_attempts M ps n) c = None \<or>
        (\<exists>v \<in> V. map_of (round_attempts M ps n) c = Some v)"
    proof (cases "map_of (round_attempts M ps n) c")
      case (Some v)
      then have "(c, v) \<in> set (round_attempts M ps n)" by (rule map_of_SomeD)
      then have "v \<in> V" by (force simp: V_def round_attempts_def)
      with Some show ?thesis by simp
    qed simp
    from Suc val show ?case
      by (auto simp: attempts_Suc ra map_add_def split: option.splits)
  qed simp
  then show ?thesis by (simp add: slot_owner_def V_def)
qed

lemma compact_permutations_snoc:
  "compact_permutations (bs @ [b]) = compact_permutations bs @ backend_permutations (length bs) b"
  by (simp add: compact_permutations_def enumerate_append_eq)

text \<open>
  C1: For every non-empty list of at most 32 backends the unbounded claiming loop of
  \<open>maglev_build_compact_table\<close> ends; the table has 4099 entries, and every entry is the one the
  reference definition gives: the backend whose permutation reached the slot first.
\<close>

theorem compact_table_total:
  assumes "bs \<noteq> []" "length bs \<le> MAX_BACKENDS"
  shows "\<exists>t. maglev_build_compact_table bs = Done t \<and> length t = COMPACT_MAGLEV_SIZE \<and>
    (\<forall>c<COMPACT_MAGLEV_SIZE.
       slot_owner COMPACT_MAGLEV_SIZE (compact_permutations bs) c = Some (t ! c))"
  using compact_build [OF assms] by metis

theorem compact_table_total_witness:
  "\<exists>t. maglev_build_compact_table [backend_new 1 80 100, backend_new 2 80 50] = Done t \<and>
    length t = COMPACT_MAGLEV_SIZE"
  using compact_table_total [of "[backend_new 1 80 100, backend_new 2 80 50]"]
  by (auto simp: MAX_BACKENDS_def)

lemma compact_build_panic:
  "maglev_build_compact_table bs = Panic m \<Longrightarrow> MAX_BACKENDS < length bs"
  "MAX_BACKENDS < length bs \<Longrightarrow> maglev_build_compact_table bs = Panic ''Cannot build compact table''"
  by (auto simp: maglev_build_compact_table_def MAX_BACKENDS_def split: if_splits option.splits)

lemma compact_build_entries:
  assumes "maglev_build_compact_table bs = Done t" "bs \<noteq> []"
  shows "length t = COMPACT_MAGLEV_SIZE" "c < COMPACT_MAGLEV_SIZE \<Longrightarrow> unat (t ! c) < length bs"
proof -
  have le: "length bs \<le> MAX_BACKENDS"
    using assms compact_build_panic(2) [of bs] by fastforce
  obtain t' where t': "maglev_build_compact_table bs = Done t'"
    "length t' = COMPACT_MAGLEV_SIZE"
    "\<And>c. c < COMPACT_MAGLEV_SIZE \<Longrightarrow>
       slot_owner COMPACT_MAGLEV_SIZE (compact_permutations bs) c = Some (t' ! c)"
    using compact_build [OF assms(2) le] by blast
  then have t: "t' = t" using assms(1) by simp
  show "length t = COMPACT_MAGLEV_SIZE" using t t'(2) by simp
  assume "c < COMPACT_MAGLEV_SIZE"
  from t'(3) [OF this] obtain i where i: "i < length bs" "t ! c = of_nat i"
    using slot_owner_value compact_permutations_values t by metis
  moreover have "i < 256" using i(1) le by (simp add: MAX_BACKENDS_def)
  ultimately show "unat (t ! c) < length bs" by (simp add: unat_of_nat)
qed

lemma lookup_index_lt: "unat (k mod of_nat COMPACT_MAGLEV_SIZE :: u64) < COMPACT_MAGLEV_SIZE"
  by (simp add: COMPACT_MAGLEV_SIZE_def unat_mod_distrib)

text \<open>
  A lookup in a table built for a non-empty list of backends never indexes outside the
  table and never names a backend outside the list.
\<close>

theorem compact_lookup_in_range:
  assumes "maglev_build_compact_table bs = Done t" "bs \<noteq> []"
  shows "\<exists>i. maglev_lookup_compact k t = Done i \<and> unat i < length bs"
proof -
  note t = compact_build_entries [OF assms]
  have "t \<noteq> []" using t(1) by (auto simp: COMPACT_MAGLEV_SIZE_def)
  with t lookup_index_lt [of k] show ?thesis
    by (auto simp: maglev_lookup_compact_def Let_def)
qed

theorem compact_lookup_in_range_witness:
  "\<exists>t i. maglev_build_compact_table [backend_new 1 80 100] = Done t \<and>
     maglev_lookup_compact 12345678901 t = Done i \<and> unat i < 1"
proof -
  obtain t where "maglev_build_compact_table [backend_new 1 80 100] = Done t"
    using compact_build [of "[backend_new 1 80 100]"] by (auto simp: MAX_BACKENDS_def)
  with compact_lookup_in_range [OF this, of 12345678901] show ?thesis by auto
qed

text \<open>
  Minimal disruption when a backend is appended: every slot of the compact table keeps its
  backend or moves to the new one; no slot moves between two old backends.
\<close>

theorem compact_append_disruption:
  assumes "maglev_build_compact_table bs = Done t" "bs \<noteq> []"
    and "maglev_build_compact_table (bs @ [b]) = Done t'"
    and "c < COMPACT_MAGLEV_SIZE"
  shows "t' ! c = t ! c \<or> t' ! c = of_nat (length bs)"
proof -
  have le: "length (bs @ [b]) \<le> MAX_BACKENDS"
    using assms(3) compact_build_panic(2) [of "bs @ [b]"] by fastforce
  have own: "slot_owner COMPACT_MAGLEV_SIZE (compact_permutations xs) c = Some (u ! c)"
    if "maglev_build_compact_table xs = Done u" "xs \<noteq> []" "length xs \<le> MAX_BACKENDS" for xs u
    using compact_build [OF that(2,3)] that(1) assms(4) by (metis outcome.inject(1))
  have "v = of_nat (length bs)" if "v \<in> fst ` set (backend_permutations (length bs) b)" for v
    using that by (auto simp: backend_permutations_def)
  then show ?thesis
    using slot_owner_append [of COMPACT_MAGLEV_SIZE "compact_permutations bs"
        "backend_permutations (length bs) b" c]
      own [OF assms(1,2)] own [OF assms(3)] le
    by (auto simp: compact_permutations_snoc)
qed

theorem compact_append_disruption_witness:
  "\<exists>t t'. maglev_build_compact_table [backend_new 1 80 100] = Done t \<and>
     maglev_build_compact_table ([backend_new 1 80 100] @ [backend_new 2 80 100]) = Done t' \<and>
     (t' ! 7 = t ! 7 \<or> t' ! 7 = of_nat 1)"
proof -
  obtain t where t: "maglev_build_compact_table [backend_new 1 80 100] = Done t"
    using compact_build [of "[backend_new 1 80 100]"] by (auto simp: MAX_BACKENDS_def)
  obtain t' where t': "maglev_build_compact_table ([backend_new 1 80 100] @ [backend_new 2 80 100]) = Done t'"
    using compact_build [of "[backend_new 1 80 100] @ [backend_new 2 80 100]"]
    by (auto simp: MAX_BACKENDS_def)
  from compact_append_disruption [OF t _ t', of 7] t t' show ?thesis
    by (auto simp: COMPACT_MAGLEV_SIZE_def)
qed

section \<open>The full table\<close>

lemma full_build:
  assumes "bs \<noteq> []"
  obtains t where "maglev_build_table bs = Done t" "length t = MAGLEV_TABLE_SIZE"
    "\<And>c. c < MAGLEV_TABLE_SIZE \<Longrightarrow> t ! c \<noteq> None \<and>
       t ! c = slot_owner MAGLEV_TABLE_SIZE (full_permutations bs) c"
proof -
  from full.fill_loop_slots [of full_start "full_permutations bs" 0] full_start_inv
    full_permutations_ok full_permutations_not_Nil [OF assms(1)]
  obtain s where s: "fill_loop MAGLEV_TABLE_SIZE full_is_free full_claim ft_filled
      (full_permutations bs) 0 full_start = Some s" "full_inv s"
      "dom (full_slots s) = {..<MAGLEV_TABLE_SIZE}"
      "full_slots s = slot_owner MAGLEV_TABLE_SIZE (full_permutations bs)"
    by auto
  have "maglev_build_table bs = Done (ft_table s)"
    using assms s(1) by (simp add: maglev_build_table_def)
  moreover have "length (ft_table s) = MAGLEV_TABLE_SIZE" using s(2) by (simp add: full_inv_def)
  moreover have "ft_table s ! c \<noteq> None \<and>
      ft_table s ! c = slot_owner MAGLEV_TABLE_SIZE (full_permutations bs) c"
    if "c < MAGLEV_TABLE_SIZE" for c
  proof -
    have "full_slots s c = ft_table s ! c"
      using s(2) that by (simp add: full_slots_def full_inv_def)
    moreover have "full_slots s c \<noteq> None" using s(3) that by blast
    ultimately show ?thesis using s(4) by metis
  qed
  ultimately show thesis by (rule that)
qed

text \<open>
  The full table's loop ends for every non-empty list of backends, fills all 65537 slots
  with the first backend to reach each, and a lookup then always finds one.
\<close>

theorem full_table_total:
  assumes "bs \<noteq> []"
  shows "\<exists>t. maglev_build_table bs = Done t \<and> length t = MAGLEV_TABLE_SIZE \<and>
    (\<forall>k. \<exists>i. maglev_lookup k t = Some i \<and> i \<in> fst ` set (full_permutations bs))"
proof -
  obtain t where t: "maglev_build_table bs = Done t" "length t = MAGLEV_TABLE_SIZE"
    "\<And>c. c < MAGLEV_TABLE_SIZE \<Longrightarrow> t ! c \<noteq> None \<and>
       t ! c = slot_owner MAGLEV_TABLE_SIZE (full_permutations bs) c"
    using full_build [OF assms] by blast
  have "\<exists>i. maglev_lookup k t = Some i \<and> i \<in> fst ` set (full_permutations bs)" for k
  proof -
    have "unat (k mod of_nat MAGLEV_TABLE_SIZE :: u64) < MAGLEV_TABLE_SIZE"
      by (simp add: MAGLEV_TABLE_SIZE_def unat_mod_distrib)
    moreover have "t \<noteq> []" using t(2) by (auto simp: MAGLEV_TABLE_SIZE_def)
    ultimately have "maglev_lookup k t = t ! unat (k mod of_nat MAGLEV_TABLE_SIZE)"
      and "unat (k mod of_nat MAGLEV_TABLE_SIZE :: u64) < MAGLEV_TABLE_SIZE"
      using t(2) by (simp_all add: maglev_lookup_def)
    then show ?thesis using t(3) slot_owner_value by (metis not_None_eq)
  qed
  with t show ?thesis by blast
qed

theorem full_table_total_witness:
  "\<exists>t. maglev_build_table [backend_new 1 80 100] = Done t \<and> length t = MAGLEV_TABLE_SIZE"
  using full_table_total [of "[backend_new 1 80 100]"] by auto

end
