(* ===== verification/F64.thy ===== *)
theory F64
  imports Complex_Main Rauta_Prelude
begin

text \<open>
  The double precision numbers the program computes with: a finite double is its exact rational
  value, and every operation rounds its exact result to the nearest double (53 bits of
  significand, ties to even, gradual underflow, overflow to infinity). The two zeros are one
  value. The lemmas give the error of a rounding and the numbers on which it is exact.
\<close>

datatype f64 = Fin rat | PosInf | NegInf | NaN

fun nat_log2 :: "nat \<Rightarrow> nat" where
  "nat_log2 n = (if n < 2 then 0 else Suc (nat_log2 (n div 2)))"

declare nat_log2.simps [simp del]

definition rat_log2 :: "rat \<Rightarrow> int" where
  "rat_log2 q =
     (let (n, d) = quotient_of q; k = int (nat_log2 (nat n)) - int (nat_log2 (nat d))
      in if q < 2 powi k then k - 1 else k)"

definition round_half_even :: "rat \<Rightarrow> int" where
  "round_half_even x =
     (let f = \<lfloor>x\<rfloor>; r = x - of_int f
      in if r < 1 / 2 then f else if 1 / 2 < r then f + 1 else if even f then f else f + 1)"

text \<open>The distance of neighbouring doubles at the magnitude of \<open>q\<close>, and the nearest double.\<close>

definition ulp :: "rat \<Rightarrow> rat" where
  "ulp q = 2 powi (max (rat_log2 \<bar>q\<bar> - 52) (- 1074))"

definition f64_nearest :: "rat \<Rightarrow> rat" where
  "f64_nearest q = (if q = 0 then 0 else of_int (round_half_even (q / ulp q)) * ulp q)"

definition f64_round :: "rat \<Rightarrow> f64" where
  "f64_round q =
     (let v = f64_nearest q
      in if 2 ^ 1024 \<le> v then PosInf else if v \<le> - (2 ^ 1024) then NegInf else Fin v)"

fun f64_mul :: "f64 \<Rightarrow> f64 \<Rightarrow> f64" where
  "f64_mul (Fin x) (Fin y) = f64_round (x * y)"
| "f64_mul NaN y = NaN"
| "f64_mul x NaN = NaN"
| "f64_mul (Fin x) PosInf = (if x = 0 then NaN else if 0 < x then PosInf else NegInf)"
| "f64_mul (Fin x) NegInf = (if x = 0 then NaN else if 0 < x then NegInf else PosInf)"
| "f64_mul PosInf (Fin y) = (if y = 0 then NaN else if 0 < y then PosInf else NegInf)"
| "f64_mul NegInf (Fin y) = (if y = 0 then NaN else if 0 < y then NegInf else PosInf)"
| "f64_mul PosInf PosInf = PosInf"
| "f64_mul NegInf NegInf = PosInf"
| "f64_mul PosInf NegInf = NegInf"
| "f64_mul NegInf PosInf = NegInf"

text \<open>Division by a finite number, the only one the program performs; zero divisors count as positive.\<close>

fun f64_div :: "f64 \<Rightarrow> rat \<Rightarrow> f64" where
  "f64_div (Fin x) y =
     (if y = 0 then (if x = 0 then NaN else if 0 < x then PosInf else NegInf) else f64_round (x / y))"
| "f64_div PosInf y = (if 0 \<le> y then PosInf else NegInf)"
| "f64_div NegInf y = (if 0 \<le> y then NegInf else PosInf)"
| "f64_div NaN y = NaN"

fun f64_le :: "f64 \<Rightarrow> f64 \<Rightarrow> bool" where
  "f64_le NaN y = False"
| "f64_le x NaN = False"
| "f64_le NegInf y = True"
| "f64_le x PosInf = True"
| "f64_le (Fin x) (Fin y) = (x \<le> y)"
| "f64_le x y = False"

text \<open>The method \<open>min\<close> of the standard library: a NaN loses against a number.\<close>

definition f64_min :: "f64 \<Rightarrow> f64 \<Rightarrow> f64" where
  "f64_min x y = (if x = NaN then y else if y = NaN then x else if f64_le x y then x else y)"

text \<open>The casts: from an integer, with rounding; to one, truncating and saturating, NaN to 0.\<close>

definition f64_of_nat :: "nat \<Rightarrow> f64" where
  "f64_of_nat n = f64_round (of_nat n)"

fun f64_to_u64 :: "f64 \<Rightarrow> u64" where
  "f64_to_u64 (Fin q) = (if q < 0 then 0 else if 2 ^ 64 \<le> q then - 1 else of_int \<lfloor>q\<rfloor>)"
| "f64_to_u64 PosInf = - 1"
| "f64_to_u64 NegInf = 0"
| "f64_to_u64 NaN = 0"

fun f64_to_i64 :: "f64 \<Rightarrow> int" where
  "f64_to_i64 (Fin q) =
     (let t = (if 0 \<le> q then \<lfloor>q\<rfloor> else - \<lfloor>- q\<rfloor>) in max (- (2 ^ 63)) (min (2 ^ 63 - 1) t))"
| "f64_to_i64 PosInf = 2 ^ 63 - 1"
| "f64_to_i64 NegInf = - (2 ^ 63)"
| "f64_to_i64 NaN = 0"

section \<open>Logarithms\<close>

lemma nat_log2_bounds: "0 < n \<Longrightarrow> 2 ^ nat_log2 n \<le> n \<and> n < 2 ^ Suc (nat_log2 n)"
proof (induction n rule: nat_log2.induct)
  case (1 n)
  show ?case
  proof (cases "n < 2")
    case True then show ?thesis using 1 by (simp add: nat_log2.simps [of n])
  next
    case False
    then have "2 ^ nat_log2 (n div 2) \<le> n div 2 \<and> n div 2 < 2 ^ Suc (nat_log2 (n div 2))" using 1 by simp
    then have "2 * 2 ^ nat_log2 (n div 2) \<le> n \<and> n < 4 * 2 ^ nat_log2 (n div 2)"
      unfolding power_Suc by linarith
    then show ?thesis using False by (simp add: nat_log2.simps [of n])
  qed
qed

lemma rat_log2_bounds:
  assumes "0 < q"
  shows "2 powi rat_log2 q \<le> q" "q < 2 powi (rat_log2 q + 1)"
proof -
  obtain n d where nd: "quotient_of q = (n, d)" by (cases "quotient_of q")
  have d: "0 < d" using nd quotient_of_denom_pos by blast
  have q: "q = of_int n / of_int d" using nd by (rule quotient_of_div)
  have n: "0 < n" using assms d unfolding q by (simp add: zero_less_divide_iff)
  let ?a = "nat_log2 (nat n)" and ?b = "nat_log2 (nat d)" and ?k = "int (nat_log2 (nat n)) - int (nat_log2 (nat d))"
  have int_le: "2 ^ ?a \<le> n" "n < 2 ^ Suc ?a" "2 ^ ?b \<le> d" "d < 2 ^ Suc ?b"
    using nat_log2_bounds [of "nat n"] nat_log2_bounds [of "nat d"] n d
    by (simp_all add: nat_le_eq_zle nat_less_iff le_nat_iff)
  have r: "(2 :: rat) ^ ?a \<le> of_int n" "of_int n < (2 :: rat) ^ Suc ?a"
    "(2 :: rat) ^ ?b \<le> of_int d" "of_int d < (2 :: rat) ^ Suc ?b"
    using int_le [folded of_int_le_iff [where ?'a = rat] of_int_less_iff [where ?'a = rat]]
    unfolding of_int_power of_int_numeral .
  have "q < 2 ^ Suc ?a / 2 ^ ?b" unfolding q using r n d by (intro frac_less) (auto simp del: power_Suc)
  also have "\<dots> = 2 powi (?k + 1)" by (simp add: power_int_diff power_int_add)
  finally have up: "q < 2 powi (?k + 1)" .
  have "(2 :: rat) powi (?k - 1) = 2 ^ ?a / 2 ^ Suc ?b" by (simp add: power_int_diff power_int_add)
  also have "\<dots> \<le> q" unfolding q by (rule frac_le) (use r n d in auto)
  finally have lo: "2 powi (?k - 1) \<le> q" .
  show "2 powi rat_log2 q \<le> q" "q < 2 powi (rat_log2 q + 1)"
    using up lo by (auto simp: rat_log2_def nd Let_def)
qed

lemma powi_less_iff [simp]: "(2 :: rat) powi a < 2 powi b \<longleftrightarrow> a < b"
  by (meson not_less power_int_increasing power_int_strict_increasing one_le_numeral one_less_numeral_iff
      semiring_norm(76))

lemma powi_split: "e \<le> j \<Longrightarrow> (2 :: rat) powi j = of_int (2 ^ nat (j - e)) * 2 powi e"
proof -
  assume "e \<le> j"
  then obtain n where "j = e + int n" using zle_iff_zadd by blast
  then show ?thesis by (simp add: power_int_add)
qed

lemma rat_log2_less: "0 < q \<Longrightarrow> q < 2 powi k \<Longrightarrow> rat_log2 q < k"
  using rat_log2_bounds(1) [of q] le_less_trans [of "2 powi rat_log2 q" q "2 powi k"] by simp

section \<open>Rounding\<close>

lemma round_half_even_error: "\<bar>of_int (round_half_even x) - x\<bar> \<le> 1 / 2"
proof -
  define r where "r = x - of_int \<lfloor>x\<rfloor>"
  have r: "0 \<le> r" "r < 1" unfolding r_def by linarith+
  have "round_half_even x = \<lfloor>x\<rfloor> \<and> r \<le> 1 / 2 \<or> round_half_even x = \<lfloor>x\<rfloor> + 1 \<and> 1 / 2 \<le> r"
    unfolding round_half_even_def Let_def r_def [symmetric] by (simp add: not_less)
  then have "of_int (round_half_even x) - x = - r \<and> r \<le> 1 / 2 \<or>
      of_int (round_half_even x) - x = 1 - r \<and> 1 / 2 \<le> r"
    by (auto simp: r_def)
  with r show ?thesis by (auto simp: abs_if)
qed

lemma round_half_even_of_int [simp]: "round_half_even (of_int k) = k"
  by (simp add: round_half_even_def Let_def)

lemma round_half_even_mono_int:
  "x \<le> of_int k \<Longrightarrow> round_half_even x \<le> k" "of_int k \<le> x \<Longrightarrow> k \<le> round_half_even x"
proof -
  have *: "\<lfloor>x\<rfloor> \<le> round_half_even x" "round_half_even x \<le> \<lfloor>x\<rfloor> + 1"
    by (auto simp: round_half_even_def Let_def)
  show "k \<le> round_half_even x" if "of_int k \<le> x" using that * by linarith
  show "round_half_even x \<le> k" if "x \<le> of_int k"
  proof (cases "x = of_int k")
    case False
    with that have "\<lfloor>x\<rfloor> < k" by (simp add: floor_less_iff)
    with * show ?thesis by simp
  qed simp
qed

lemma ulp_pos [simp]: "0 < ulp q" "ulp q \<noteq> 0" by (simp_all add: ulp_def)

lemma f64_nearest_error: "\<bar>f64_nearest q - q\<bar> \<le> ulp q / 2"
proof (cases "q = 0")
  case False
  have "\<bar>of_int (round_half_even (q / ulp q)) - q / ulp q\<bar> * ulp q \<le> 1 / 2 * ulp q"
    by (intro mult_right_mono round_half_even_error) (simp add: less_imp_le)
  also have "\<bar>of_int (round_half_even (q / ulp q)) - q / ulp q\<bar> * ulp q =
      \<bar>of_int (round_half_even (q / ulp q)) * ulp q - q\<bar>"
    using ulp_pos(1) [of q] by (simp add: abs_mult_pos' algebra_simps less_imp_le flip: abs_mult_pos)
  finally show ?thesis using False by (simp add: f64_nearest_def)
qed (simp add: f64_nearest_def less_imp_le)

lemma ulp_le: "2 powi (-1022) \<le> \<bar>q\<bar> \<Longrightarrow> ulp q \<le> \<bar>q\<bar> / 2 ^ 52"
proof -
  assume a: "2 powi (-1022) \<le> \<bar>q\<bar>"
  have pos: "0 < \<bar>q\<bar>" by (rule less_le_trans [OF zero_less_power_int a]) simp
  note b = rat_log2_bounds [OF pos]
  have "(2 :: rat) powi (-1022) < 2 powi (rat_log2 \<bar>q\<bar> + 1)" by (rule le_less_trans [OF a b(2)])
  then have "-1022 < rat_log2 \<bar>q\<bar> + 1" by (simp only: powi_less_iff)
  then have "ulp q = 2 powi (rat_log2 \<bar>q\<bar> - 52)" by (simp add: ulp_def)
  also have "\<dots> = 2 powi rat_log2 \<bar>q\<bar> / 2 ^ 52" by (simp add: power_int_diff)
  also have "\<dots> \<le> \<bar>q\<bar> / 2 ^ 52" using b by (simp add: divide_right_mono)
  finally show ?thesis .
qed

lemma f64_nearest_le: "q \<le> of_int k * ulp q \<Longrightarrow> q \<noteq> 0 \<Longrightarrow> f64_nearest q \<le> of_int k * ulp q"
  using round_half_even_mono_int(1) [of "q / ulp q" k] ulp_pos [of q]
  by (simp add: f64_nearest_def field_simps)

lemma f64_nearest_exact: "q = of_int k * ulp q \<Longrightarrow> f64_nearest q = q"
proof -
  assume q: "q = of_int k * ulp q"
  then have "q / ulp q = of_int k" using ulp_pos(2) [of q] by (metis nonzero_mult_div_cancel_right)
  then show ?thesis by (simp add: f64_nearest_def q [symmetric])
qed

text \<open>A number with at most 53 significant bits is its own nearest double.\<close>

lemma f64_nearest_representable:
  assumes "q = of_int m * 2 powi j" "\<bar>m\<bar> < 2 ^ 53" "- 1074 \<le> j"
  shows "f64_nearest q = q"
proof (cases "m = 0")
  case False
  let ?e = "max (rat_log2 \<bar>q\<bar> - 52) (- 1074)"
  have q: "\<bar>q\<bar> = of_int \<bar>m\<bar> * 2 powi j" by (simp add: assms(1) abs_mult)
  have "(of_int \<bar>m\<bar> :: rat) < of_int (2 ^ 53)" using assms(2) by (simp only: of_int_less_iff)
  then have "\<bar>q\<bar> < of_int (2 ^ 53) * 2 powi j" unfolding q by (rule mult_strict_right_mono) simp
  also have "\<dots> = 2 powi (53 + j)" by (simp add: power_int_add)
  finally have "rat_log2 \<bar>q\<bar> < 53 + j" using False by (intro rat_log2_less) (simp_all add: q)
  then have e: "?e \<le> j" using assms(3) by simp
  have "of_int (m * 2 ^ nat (j - ?e)) * ulp q = of_int m * (of_int (2 ^ nat (j - ?e)) * 2 powi ?e)"
    unfolding ulp_def of_int_mult by (rule mult.assoc)
  also have "\<dots> = q" unfolding powi_split [OF e, symmetric] by (rule assms(1) [symmetric])
  finally have "q = of_int (m * 2 ^ nat (j - ?e)) * ulp q" ..
  then show ?thesis by (rule f64_nearest_exact)
qed (simp add: assms f64_nearest_def)

lemma f64_round_fin: "\<bar>f64_nearest q\<bar> < 2 ^ 1024 \<Longrightarrow> f64_round q = Fin (f64_nearest q)"
  by (auto simp: f64_round_def Let_def abs_less_iff)

lemma f64_nearest_relative:
  "2 powi (-1022) \<le> \<bar>q\<bar> \<Longrightarrow> \<bar>f64_nearest q - q\<bar> \<le> \<bar>q\<bar> / 2 ^ 53"
  using f64_nearest_error [of q] ulp_le [of q] by simp

lemma of_nat_bound: "n < 2 ^ k \<Longrightarrow> (of_nat n :: rat) < 2 ^ k"
  by (metis of_nat_less_iff of_nat_numeral of_nat_power)

lemma f64_of_nat_exact: "n < 2 ^ 53 \<Longrightarrow> f64_of_nat n = Fin (of_nat n)"
proof -
  assume n: "n < 2 ^ 53"
  have "f64_nearest (of_nat n) = of_nat n"
    by (rule f64_nearest_representable [of _ "int n" 0]) (use n in simp_all)
  moreover have "(of_nat n :: rat) < 2 ^ 1024" by (rule less_trans [OF of_nat_bound [OF n]]) simp
  ultimately show ?thesis by (simp add: f64_of_nat_def f64_round_fin)
qed

lemma f64_nearest_nonneg: "0 \<le> q \<Longrightarrow> 0 \<le> f64_nearest q"
  using round_half_even_mono_int(2) [of 0 "q / ulp q"] ulp_pos(1) [of q]
  by (simp add: f64_nearest_def less_imp_le)

lemma f64_nearest_le_power:
  assumes "0 \<le> q" "q \<le> 2 powi k" "- 1074 \<le> k"
  shows "f64_nearest q \<le> 2 powi k"
proof (cases "q = 0 \<or> q = 2 powi k")
  case True
  have "f64_nearest (2 powi k) = 2 powi k"
    by (rule f64_nearest_representable [of _ 1 k]) (use assms in simp_all)
  with True show ?thesis by (auto simp: f64_nearest_def)
next
  case False
  then have "rat_log2 \<bar>q\<bar> < k" using assms by (intro rat_log2_less) simp_all
  then have "max (rat_log2 \<bar>q\<bar> - 52) (- 1074) \<le> k" using assms by simp
  note split = powi_split [OF this, folded ulp_def]
  show ?thesis unfolding split by (rule f64_nearest_le, fold split) (use False assms in simp_all)
qed

text \<open>Comparing a rounded ratio with one half is comparing the numbers.\<close>

lemma f64_ratio_half:
  assumes t: "0 < t" "t < 2 ^ 52" and e: "e \<le> t"
  shows "f64_le (f64_div (f64_of_nat e) (of_nat t)) (Fin (1 / 2)) \<longleftrightarrow> 2 * e \<le> t"
proof -
  let ?q = "of_nat e / of_nat t :: rat"
  have half: "?q \<le> 1 / 2 \<longleftrightarrow> 2 * e \<le> t"
  proof -
    have "?q \<le> 1 / 2 \<longleftrightarrow> (of_nat (2 * e) :: rat) \<le> of_nat t" using t by (simp add: field_simps)
    then show ?thesis by (simp only: of_nat_le_iff)
  qed
  have q: "0 \<le> ?q" "?q \<le> 2 powi 0" using t e by (simp_all add: divide_le_eq)
  have fin: "f64_round ?q = Fin (f64_nearest ?q)"
    using f64_nearest_le_power [OF q] f64_nearest_nonneg [OF q(1)]
    by (intro f64_round_fin) (simp add: abs_if)
  have ofe: "f64_of_nat e = Fin (of_nat e)" using t e by (intro f64_of_nat_exact) simp
  have up: "1 / 2 < f64_nearest ?q" if "1 / 2 < ?q"
  proof -
    have tr: "(0 :: rat) < of_nat t" "(of_nat t :: rat) < 2 ^ 52"
      using t of_nat_bound by simp_all
    have "t + 1 \<le> 2 * e" using that half by linarith
    then have "(of_nat (t + 1) :: rat) \<le> of_nat (2 * e)" by (simp only: of_nat_le_iff)
    then have "of_nat (t + 1) / (2 * of_nat t :: rat) \<le> of_nat (2 * e) / (2 * of_nat t)"
      by (rule divide_right_mono) simp
    then have "1 / 2 + 1 / (2 * of_nat t) \<le> ?q" using tr(1) by (simp add: add_divide_distrib)
    moreover have "1 / 2 ^ 53 < 1 / (2 * of_nat t :: rat)" using tr by (simp add: field_simps)
    moreover have "\<bar>f64_nearest ?q - ?q\<bar> \<le> 1 / 2 ^ 53"
    proof -
      have "(2 :: rat) powi (-1022) \<le> 2 powi (-1)" by (rule power_int_increasing) simp_all
      also have "\<dots> \<le> \<bar>?q\<bar>" using that by simp
      finally have "2 powi (-1022) \<le> \<bar>?q\<bar>" .
      from f64_nearest_relative [OF this] q show ?thesis by simp
    qed
    ultimately show ?thesis by linarith
  qed
  have "f64_nearest ?q \<le> 1 / 2 \<longleftrightarrow> ?q \<le> 1 / 2"
    using f64_nearest_le_power [OF q(1), of "-1"] up by (auto simp: not_less [symmetric] power_int_minus)
  then show ?thesis using t half by (simp add: ofe fin)
qed

end
