(* ===== verification/Agent_Types.thy ===== *)
theory Agent_Types
  imports F64
begin

text \<open>
  The snapshot types of the agent interface (\<open>agent-api/src/types.rs\<close>) that the router, the breaker
  and the rate limiter report their state in.
\<close>

record BackendSnapshot =
  bs_address :: string
  bs_port :: u16
  bs_weight :: u16
  bs_is_ipv6 :: bool
  bs_is_draining :: bool
  bs_health_score :: "f64 option"

record RouteSnapshot =
  rs_pattern :: string
  rs_method :: string
  rs_backends :: "BackendSnapshot list"
  rs_has_request_filters :: bool
  rs_has_response_filters :: bool
  rs_has_redirect :: bool
  rs_has_timeout :: bool
  rs_has_retry :: bool

record CircuitBreakerSnapshot =
  cbs_backend_id :: string
  cbs_state :: string
  cbs_failure_count :: u32

record RateLimiterSnapshot =
  rls_route :: string
  rls_tokens_available :: f64
  rls_capacity :: f64
  rls_refill_rate :: f64

record ListenerSnapshot =
  ls_port :: u16
  ls_protocol :: string
  ls_gateway_refs :: "string list"

record CacheStats =
  cs_hits :: u64
  cs_misses :: u64
  cs_size :: nat
  cs_hit_rate :: f64

record GatewaySnapshot =
  gs_status :: string
  gs_uptime_seconds :: u64
  gs_route_count :: nat
  gs_open_circuits :: nat
  gs_exhausted_rate_limiters :: nat
  gs_listeners :: "ListenerSnapshot list"
  gs_cache_stats :: "CacheStats option"

end
