(* ===== verification/Circuit_Breaker.thy ===== *)
theory Circuit_Breaker
  imports Agent_Types "HOL-Library.AList"
begin

text \<open>
  The lock-free circuit breaker (\<open>control/src/proxy/circuit_breaker.rs\<close>): the state packed
  into one 64-bit word, the bodies of the three compare-and-swap loops, the operations of one
  breaker run without contention, the interleaving of any number of threads at the granularity
  of the atomic operations, and the per-backend manager.

  The lemmas give the round trips of the packing, refine the packed operations to an abstract
  three-state breaker, and show that every interleaving only makes transitions of that breaker.
\<close>

section \<open>Packed state\<close>

datatype CircuitState = Closed | Open | HalfOpen

fun state_to_str :: "CircuitState \<Rightarrow> string" where
  "state_to_str Closed = ''Closed''"
| "state_to_str Open = ''Open''"
| "state_to_str HalfOpen = ''HalfOpen''"

definition STATE_SHIFT :: nat where "STATE_SHIFT = 62"
definition STATE_MASK :: u64 where "STATE_MASK = push_bit STATE_SHIFT 0x3"
definition FAILURE_SHIFT :: nat where "FAILURE_SHIFT = 32"
definition FAILURE_MASK :: u64 where "FAILURE_MASK = push_bit FAILURE_SHIFT 0xFFFF"
definition SUCCESS_SHIFT :: nat where "SUCCESS_SHIFT = 16"
definition SUCCESS_MASK :: u64 where "SUCCESS_MASK = push_bit SUCCESS_SHIFT 0xFFFF"
definition HALFOPEN_MASK :: u64 where "HALFOPEN_MASK = 0xFFFF"

definition STATE_CLOSED :: u64 where "STATE_CLOSED = 0"
definition STATE_OPEN :: u64 where "STATE_OPEN = 1"
definition STATE_HALFOPEN :: u64 where "STATE_HALFOPEN = 2"

definition pack_state :: "u64 \<Rightarrow> u64 \<Rightarrow> u64 \<Rightarrow> u64 \<Rightarrow> u64" where
  "pack_state state failures successes half_open_reqs =
     push_bit STATE_SHIFT state OR push_bit FAILURE_SHIFT (failures AND 0xFFFF)
     OR push_bit SUCCESS_SHIFT (successes AND 0xFFFF) OR (half_open_reqs AND 0xFFFF)"

definition unpack_state_field :: "u64 \<Rightarrow> u64" where
  "unpack_state_field p = drop_bit STATE_SHIFT (p AND STATE_MASK)"

definition unpack_failures :: "u64 \<Rightarrow> u64" where
  "unpack_failures p = drop_bit FAILURE_SHIFT (p AND FAILURE_MASK)"

definition unpack_successes :: "u64 \<Rightarrow> u64" where
  "unpack_successes p = drop_bit SUCCESS_SHIFT (p AND SUCCESS_MASK)"

definition unpack_half_open_reqs :: "u64 \<Rightarrow> u64" where
  "unpack_half_open_reqs p = p AND HALFOPEN_MASK"

definition state_from_u64 :: "u64 \<Rightarrow> CircuitState" where
  "state_from_u64 v = (if v = STATE_OPEN then Open else if v = STATE_HALFOPEN then HalfOpen else Closed)"

fun state_to_u64 :: "CircuitState \<Rightarrow> u64" where
  "state_to_u64 Closed = STATE_CLOSED"
| "state_to_u64 Open = STATE_OPEN"
| "state_to_u64 HalfOpen = STATE_HALFOPEN"

section \<open>One breaker\<close>

record CircuitBreaker =
  cb_packed :: u64
  last_failure_us :: u64
  created_at :: instant
  failure_threshold :: u32
  cb_timeout :: duration
  half_open_max_requests :: u32

definition cb_new :: "u32 \<Rightarrow> duration \<Rightarrow> instant \<Rightarrow> CircuitBreaker" where
  "cb_new threshold timeout now =
     \<lparr>cb_packed = pack_state STATE_CLOSED 0 0 0, last_failure_us = 0, created_at = now,
      failure_threshold = threshold, cb_timeout = timeout, half_open_max_requests = 3\<rparr>"

definition should_attempt_reset :: "CircuitBreaker \<Rightarrow> instant \<Rightarrow> bool" where
  "should_attempt_reset cb now =
     (if last_failure_us cb = 0 then False
      else let last_failure_duration = unat (last_failure_us cb - 1) * 1000;
               elapsed_since_creation = now - created_at cb
           in if elapsed_since_creation > last_failure_duration
              then elapsed_since_creation - last_failure_duration \<ge> cb_timeout cb
              else False)"

text \<open>
  What one iteration of a compare-and-swap loop does with the value it loaded: return, or try
  to swap in a new word; a successful swap returns a result, a failed one starts over.
\<close>

datatype 'r decision = Return 'r | Cas u64 'r

definition allow_decide :: "CircuitBreaker \<Rightarrow> bool \<Rightarrow> u64 \<Rightarrow> bool decision" where
  "allow_decide cb reset current =
     (let state = unpack_state_field current in
      if state = STATE_CLOSED then Return True
      else if state = STATE_OPEN then
        (if reset then Cas (pack_state STATE_HALFOPEN 0 0 1) True else Return False)
      else if state = STATE_HALFOPEN then
        (let half_open_reqs = unpack_half_open_reqs current in
         if half_open_reqs < ucast (half_open_max_requests cb) then
           Cas (pack_state STATE_HALFOPEN (unpack_failures current) (unpack_successes current)
                  (half_open_reqs + 1)) True
         else Return False)
      else Return False)"

text \<open>The result of \<open>record_success\<close>'s body says whether \<open>last_failure_us\<close> is cleared next.\<close>

definition success_decide :: "CircuitBreaker \<Rightarrow> u64 \<Rightarrow> bool decision" where
  "success_decide cb current =
     (let state = unpack_state_field current in
      if state = STATE_CLOSED then Cas (pack_state STATE_CLOSED 0 0 0) False
      else if state = STATE_HALFOPEN then
        (let successes = unpack_successes current + 1;
             half_open_reqs = unpack_half_open_reqs current in
         if successes \<ge> ucast (half_open_max_requests cb)
         then Cas (pack_state STATE_CLOSED 0 0 0) True
         else Cas (pack_state STATE_HALFOPEN (unpack_failures current) successes half_open_reqs) False)
      else Return False)"

definition failure_decide :: "CircuitBreaker \<Rightarrow> u64 \<Rightarrow> unit decision" where
  "failure_decide cb current =
     (let state = unpack_state_field current in
      if state = STATE_CLOSED then
        (let failures = unpack_failures current + 1 in
         if failures \<ge> ucast (failure_threshold cb)
         then Cas (pack_state STATE_OPEN failures 0 0) ()
         else Cas (pack_state STATE_CLOSED failures 0 0) ())
      else if state = STATE_HALFOPEN then Cas (pack_state STATE_OPEN 0 0 0) ()
      else Return ())"

definition failure_stamp :: "CircuitBreaker \<Rightarrow> instant \<Rightarrow> u64" where
  "failure_stamp cb now = of_nat (as_micros (now - created_at cb)) + 1"

text \<open>The operations without contention: the first swap succeeds.\<close>

definition allow_request :: "instant \<Rightarrow> CircuitBreaker \<Rightarrow> bool \<times> CircuitBreaker" where
  "allow_request now cb =
     (case allow_decide cb (should_attempt_reset cb now) (cb_packed cb) of
        Return r \<Rightarrow> (r, cb)
      | Cas new r \<Rightarrow> (r, cb\<lparr>cb_packed := new\<rparr>))"

definition record_success :: "CircuitBreaker \<Rightarrow> CircuitBreaker" where
  "record_success cb =
     (case success_decide cb (cb_packed cb) of
        Return _ \<Rightarrow> cb
      | Cas new clear \<Rightarrow>
          if clear then cb\<lparr>cb_packed := new, last_failure_us := 0\<rparr> else cb\<lparr>cb_packed := new\<rparr>)"

definition record_failure :: "instant \<Rightarrow> CircuitBreaker \<Rightarrow> CircuitBreaker" where
  "record_failure now cb =
     (let cb' = cb\<lparr>last_failure_us := failure_stamp cb now\<rparr> in
      case failure_decide cb' (cb_packed cb') of
        Return _ \<Rightarrow> cb'
      | Cas new _ \<Rightarrow> cb'\<lparr>cb_packed := new\<rparr>)"

definition cb_state :: "CircuitBreaker \<Rightarrow> CircuitState" where
  "cb_state cb = state_from_u64 (unpack_state_field (cb_packed cb))"

definition failure_count :: "CircuitBreaker \<Rightarrow> u32" where
  "failure_count cb = ucast (unpack_failures (cb_packed cb))"

section \<open>The manager\<close>

text \<open>
  The breakers are shared objects behind a map from backend ids; a get never copies one, so the
  map holds their current state. The calls that update the Prometheus metrics are recorded in
  the order they are made.
\<close>

datatype cb_metric =
    CbRequests string string
  | CbStateGauge string u64
  | CbTransition string string string
  | CbFailures string

record CircuitBreakerManager =
  breakers :: "(string \<times> CircuitBreaker) list"
  default_failure_threshold :: u32
  default_timeout :: duration
  cb_metrics :: "cb_metric list"

definition cbm_new :: "u32 \<Rightarrow> duration \<Rightarrow> CircuitBreakerManager" where
  "cbm_new threshold timeout =
     \<lparr>breakers = [], default_failure_threshold = threshold, default_timeout = timeout,
      cb_metrics = []\<rparr>"

definition cbm_default :: CircuitBreakerManager where
  "cbm_default = cbm_new 5 30000000000"

definition get_breaker :: "instant \<Rightarrow> string \<Rightarrow> CircuitBreakerManager \<Rightarrow>
    CircuitBreaker \<times> CircuitBreakerManager" where
  "get_breaker now backend_id m =
     (case map_of (breakers m) backend_id of
        Some b \<Rightarrow> (b, m)
      | None \<Rightarrow>
          let b = cb_new (default_failure_threshold m) (default_timeout m) now
          in (b, m\<lparr>breakers := AList.update backend_id b (breakers m)\<rparr>))"

definition put_breaker :: "string \<Rightarrow> CircuitBreaker \<Rightarrow> CircuitBreakerManager \<Rightarrow> CircuitBreakerManager" where
  "put_breaker backend_id b m = m\<lparr>breakers := AList.update backend_id b (breakers m)\<rparr>"

definition log_metrics :: "cb_metric list \<Rightarrow> CircuitBreakerManager \<Rightarrow> CircuitBreakerManager" where
  "log_metrics es m = m\<lparr>cb_metrics := cb_metrics m @ es\<rparr>"

definition transition_metrics :: "string \<Rightarrow> CircuitState \<Rightarrow> CircuitState \<Rightarrow> cb_metric list" where
  "transition_metrics backend_id old_state new_state =
     (if old_state \<noteq> new_state
      then [CbTransition backend_id (state_to_str old_state) (state_to_str new_state)] else [])"

definition cbm_allow_request :: "instant \<Rightarrow> string \<Rightarrow> CircuitBreakerManager \<Rightarrow>
    bool \<times> CircuitBreakerManager" where
  "cbm_allow_request now backend_id m =
     (let (b, m) = get_breaker now backend_id m;
          old_state = cb_state b;
          (allowed, b') = allow_request now b;
          new_state = cb_state b'
      in (allowed,
          log_metrics ([CbRequests backend_id (if allowed then ''allowed'' else ''rejected''),
              CbStateGauge backend_id (state_to_u64 new_state)]
            @ transition_metrics backend_id old_state new_state)
          (put_breaker backend_id b' m)))"

definition cbm_record_success :: "instant \<Rightarrow> string \<Rightarrow> CircuitBreakerManager \<Rightarrow> CircuitBreakerManager" where
  "cbm_record_success now backend_id m =
     (let (b, m) = get_breaker now backend_id m;
          old_state = cb_state b;
          b' = record_success b;
          new_state = cb_state b'
      in log_metrics (CbStateGauge backend_id (state_to_u64 new_state)
            # transition_metrics backend_id old_state new_state)
          (put_breaker backend_id b' m))"

definition cbm_record_failure :: "instant \<Rightarrow> string \<Rightarrow> CircuitBreakerManager \<Rightarrow> CircuitBreakerManager" where
  "cbm_record_failure now backend_id m =
     (let (b, m) = get_breaker now backend_id m;
          old_state = cb_state b;
          b' = record_failure now b;
          new_state = cb_state b'
      in log_metrics ([CbFailures backend_id, CbStateGauge backend_id (state_to_u64 new_state)]
            @ transition_metrics backend_id old_state new_state)
          (put_breaker backend_id b' m))"

definition get_state :: "string \<Rightarrow> CircuitBreakerManager \<Rightarrow> CircuitState option" where
  "get_state backend_id m = map_option cb_state (map_of (breakers m) backend_id)"

definition cbm_snapshot_all :: "CircuitBreakerManager \<Rightarrow> CircuitBreakerSnapshot list" where
  "cbm_snapshot_all m =
     map (\<lambda>(id, b). \<lparr>cbs_backend_id = id, cbs_state = state_to_str (cb_state b),
       cbs_failure_count = failure_count b\<rparr>) (breakers m)"

definition open_count :: "CircuitBreakerManager \<Rightarrow> nat" where
  "open_count m = length (filter (\<lambda>(id, b). cb_state b = Open) (breakers m))"

definition remove_backend :: "string \<Rightarrow> CircuitBreakerManager \<Rightarrow> CircuitBreakerManager" where
  "remove_backend backend_id m = m\<lparr>breakers := AList.delete backend_id (breakers m)\<rparr>"

section \<open>Packing lemmas\<close>

lemma mask16: "(0xFFFF :: u64) = mask 16" and mask2: "(0x3 :: u64) = mask 2"
  by (simp_all add: mask_eq_exp_minus_1)

lemmas pack_defs = pack_state_def unpack_state_field_def unpack_failures_def unpack_successes_def
  unpack_half_open_reqs_def STATE_MASK_def FAILURE_MASK_def SUCCESS_MASK_def HALFOPEN_MASK_def
  STATE_SHIFT_def FAILURE_SHIFT_def SUCCESS_SHIFT_def mask16 mask2

lemma unpack_pack [packed_simps]:
  "unpack_state_field (pack_state s f u h) = take_bit 2 s"
  "unpack_failures (pack_state s f u h) = take_bit 16 f"
  "unpack_successes (pack_state s f u h) = take_bit 16 u"
  "unpack_half_open_reqs (pack_state s f u h) = take_bit 16 h"
  unfolding pack_defs by (rule bit_word_eqI, auto simp: bit_simps)+

lemma take_bit_states [packed_simps]:
  "take_bit 2 STATE_CLOSED = STATE_CLOSED" "take_bit 2 STATE_OPEN = STATE_OPEN"
  "take_bit 2 STATE_HALFOPEN = STATE_HALFOPEN"
  by (simp_all add: STATE_CLOSED_def STATE_OPEN_def STATE_HALFOPEN_def)

lemma states_distinct [packed_simps]:
  "STATE_CLOSED \<noteq> STATE_OPEN" "STATE_CLOSED \<noteq> STATE_HALFOPEN" "STATE_OPEN \<noteq> STATE_HALFOPEN"
  "STATE_OPEN \<noteq> STATE_CLOSED" "STATE_HALFOPEN \<noteq> STATE_CLOSED" "STATE_HALFOPEN \<noteq> STATE_OPEN"
  by (simp_all add: STATE_CLOSED_def STATE_OPEN_def STATE_HALFOPEN_def)

lemma unpack_bounds:
  "unat (unpack_failures p) < 2 ^ 16" "unat (unpack_successes p) < 2 ^ 16"
  "unat (unpack_half_open_reqs p) < 2 ^ 16" "unat (unpack_state_field p) < 4"
proof -
  have t: "unat (take_bit n w) < 2 ^ n" for n and w :: u64
    by (simp add: unsigned_take_bit_eq)
  have "unpack_failures p = take_bit 16 (drop_bit 32 p)" "unpack_successes p = take_bit 16 (drop_bit 16 p)"
    "unpack_half_open_reqs p = take_bit 16 p" "unpack_state_field p = take_bit 2 (drop_bit 62 p)"
    unfolding pack_defs by (rule bit_word_eqI, auto simp: bit_simps)+
  with t [of 16] t [of 2] show "unat (unpack_failures p) < 2 ^ 16" "unat (unpack_successes p) < 2 ^ 16"
    "unat (unpack_half_open_reqs p) < 2 ^ 16" "unat (unpack_state_field p) < 4"
    by simp_all
qed

text \<open>
  Packing loses nothing: a breaker state whose fields fit their bit ranges is recovered
  from the packed word, field by field.
\<close>

theorem pack_state_roundtrip:
  assumes "unat s < 4" "unat f < 65536" "unat u < 65536" "unat h < 65536"
  shows "unpack_state_field (pack_state s f u h) = s \<and> unpack_failures (pack_state s f u h) = f \<and>
    unpack_successes (pack_state s f u h) = u \<and> unpack_half_open_reqs (pack_state s f u h) = h"
proof -
  have "take_bit n w = w" if "unat w < 2 ^ n" for n and w :: u64
    using that by (simp add: word_eq_iff_unsigned [where ?'a = nat] unsigned_take_bit_eq take_bit_nat_eq_self)
  with assms show ?thesis by (simp add: unpack_pack)
qed

theorem pack_state_roundtrip_witness:
  "unpack_failures (pack_state 2 65535 1 3) = 65535 \<and> unpack_half_open_reqs (pack_state 2 65535 1 3) = 3"
  using pack_state_roundtrip [of 2 65535 1 3] by simp

section \<open>The abstract breaker\<close>

text \<open>
  The contract: a closed breaker counts consecutive failures and opens at the threshold; an
  open one admits a probe once the timeout has passed; a half-open one admits a bounded number
  of probes, closes after as many successes and reopens on any failure.
\<close>

datatype breaker_spec =
    SClosed nat  \<comment> \<open>consecutive failures\<close>
  | SOpen nat  \<comment> \<open>failures when it opened\<close>
  | SHalfOpen nat nat  \<comment> \<open>successes, admitted probes\<close>

fun spec_allow :: "nat \<Rightarrow> bool \<Rightarrow> breaker_spec \<Rightarrow> bool \<times> breaker_spec" where
  "spec_allow mx expired (SClosed f) = (True, SClosed f)"
| "spec_allow mx expired (SOpen f) = (if expired then (True, SHalfOpen 0 1) else (False, SOpen f))"
| "spec_allow mx expired (SHalfOpen u r) =
     (if r < mx then (True, SHalfOpen u (r + 1)) else (False, SHalfOpen u r))"

fun spec_success :: "nat \<Rightarrow> breaker_spec \<Rightarrow> breaker_spec" where
  "spec_success mx (SClosed f) = SClosed 0"
| "spec_success mx (SOpen f) = SOpen f"
| "spec_success mx (SHalfOpen u r) = (if u + 1 \<ge> mx then SClosed 0 else SHalfOpen (u + 1) r)"

fun spec_failure :: "nat \<Rightarrow> breaker_spec \<Rightarrow> breaker_spec" where
  "spec_failure thr (SClosed f) = (if f + 1 \<ge> thr then SOpen (f + 1) else SClosed (f + 1))"
| "spec_failure thr (SOpen f) = SOpen f"
| "spec_failure thr (SHalfOpen u r) = SOpen 0"

fun spec_inv :: "nat \<Rightarrow> nat \<Rightarrow> breaker_spec \<Rightarrow> bool" where
  "spec_inv thr mx (SClosed f) \<longleftrightarrow> f < max 1 thr"
| "spec_inv thr mx (SOpen f) \<longleftrightarrow> f \<le> max 1 thr"
| "spec_inv thr mx (SHalfOpen u r) \<longleftrightarrow> u < mx \<and> 1 \<le> r \<and> r \<le> mx"

definition abs_breaker :: "u64 \<Rightarrow> breaker_spec" where
  "abs_breaker p =
     (let st = unpack_state_field p in
      if st = STATE_OPEN then SOpen (unat (unpack_failures p))
      else if st = STATE_HALFOPEN
        then SHalfOpen (unat (unpack_successes p)) (unat (unpack_half_open_reqs p))
      else SClosed (unat (unpack_failures p)))"

text \<open>
  The invariant of a packed word under a configuration whose thresholds fit the 16-bit fields:
  the state field is one of the three states, and the abstract state is within its bounds.
\<close>

definition config_ok :: "CircuitBreaker \<Rightarrow> bool" where
  "config_ok cb \<longleftrightarrow> unat (failure_threshold cb) \<le> 65535 \<and>
     1 \<le> unat (half_open_max_requests cb) \<and> unat (half_open_max_requests cb) \<le> 65535"

definition word_ok :: "CircuitBreaker \<Rightarrow> u64 \<Rightarrow> bool" where
  "word_ok cb p \<longleftrightarrow> unpack_state_field p \<in> {STATE_CLOSED, STATE_OPEN, STATE_HALFOPEN} \<and>
     spec_inv (unat (failure_threshold cb)) (unat (half_open_max_requests cb)) (abs_breaker p)"

definition cb_inv :: "CircuitBreaker \<Rightarrow> bool" where
  "cb_inv cb \<longleftrightarrow> config_ok cb \<and> word_ok cb (cb_packed cb)"

lemma spec_inv_allow: "1 \<le> mx \<Longrightarrow> spec_inv thr mx b \<Longrightarrow> spec_inv thr mx (snd (spec_allow mx e b))"
  by (cases b) auto

lemma spec_inv_success: "spec_inv thr mx b \<Longrightarrow> spec_inv thr mx (spec_success mx b)"
  by (cases b) auto

lemma spec_inv_failure: "spec_inv thr mx b \<Longrightarrow> spec_inv thr mx (spec_failure thr b)"
  by (cases b) auto

lemma unat_take_bit16: "unat (w :: u64) < 65536 \<Longrightarrow> take_bit 16 w = w"
  by (simp add: word_eq_iff_unsigned [where ?'a = nat] unsigned_take_bit_eq take_bit_nat_eq_self)

lemma unat_inc16: "unat (w :: u64) < 65536 \<Longrightarrow> unat (w + 1) = unat w + 1"
  by (simp add: unat_word_ariths)

lemma unat_inc_fields [simp]:
  "unat (unpack_failures p + 1) = unat (unpack_failures p) + 1"
  "unat (unpack_successes p + 1) = unat (unpack_successes p) + 1"
  "unat (unpack_half_open_reqs p + 1) = unat (unpack_half_open_reqs p) + 1"
  using unpack_bounds [of p] by (simp_all add: unat_inc16)

lemma take_bit_fields [packed_simps]:
  "take_bit 16 (unpack_failures p) = unpack_failures p"
  "take_bit 16 (unpack_successes p) = unpack_successes p"
  "take_bit 16 (unpack_half_open_reqs p) = unpack_half_open_reqs p"
  using unpack_bounds [of p] by (simp_all add: unat_take_bit16)

text \<open>What a word means after a swap.\<close>

lemma abs_pack [packed_simps]:
  "abs_breaker (pack_state STATE_CLOSED f u h) = SClosed (unat (take_bit 16 f))"
  "abs_breaker (pack_state STATE_OPEN f u h) = SOpen (unat (take_bit 16 f))"
  "abs_breaker (pack_state STATE_HALFOPEN f u h) = SHalfOpen (unat (take_bit 16 u)) (unat (take_bit 16 h))"
  by (simp_all add: abs_breaker_def packed_simps)

lemma state_pack [packed_simps]:
  "unpack_state_field (pack_state STATE_CLOSED f u h) = STATE_CLOSED"
  "unpack_state_field (pack_state STATE_OPEN f u h) = STATE_OPEN"
  "unpack_state_field (pack_state STATE_HALFOPEN f u h) = STATE_HALFOPEN"
  by (simp_all add: packed_simps)

lemma word_ok_cases:
  assumes "word_ok cb p"
  obtains (closed) "unpack_state_field p = STATE_CLOSED" "abs_breaker p = SClosed (unat (unpack_failures p))"
      "unat (unpack_failures p) < max 1 (unat (failure_threshold cb))"
    | (opened) "unpack_state_field p = STATE_OPEN" "abs_breaker p = SOpen (unat (unpack_failures p))"
    | (half) "unpack_state_field p = STATE_HALFOPEN"
      "abs_breaker p = SHalfOpen (unat (unpack_successes p)) (unat (unpack_half_open_reqs p))"
      "unat (unpack_successes p) < unat (half_open_max_requests cb)"
      "unat (unpack_half_open_reqs p) \<le> unat (half_open_max_requests cb)"
  using assms by (auto simp: word_ok_def abs_breaker_def packed_simps Let_def)

abbreviation thr_of :: "CircuitBreaker \<Rightarrow> nat" where
  "thr_of cb \<equiv> unat (failure_threshold cb)"

abbreviation max_of :: "CircuitBreaker \<Rightarrow> nat" where
  "max_of cb \<equiv> unat (half_open_max_requests cb)"

section \<open>The loop bodies refine the abstract breaker\<close>

text \<open>
  Each lemma is about one iteration on any loaded word, so it serves the operations without
  contention and the interleavings alike.
\<close>

lemma word_okI:
  "unpack_state_field p \<in> {STATE_CLOSED, STATE_OPEN, STATE_HALFOPEN} \<Longrightarrow>
     spec_inv (thr_of cb) (max_of cb) (abs_breaker p) \<Longrightarrow> word_ok cb p"
  by (simp add: word_ok_def)

lemma allow_decide_abs:
  assumes "config_ok cb" "word_ok cb p"
  shows "case allow_decide cb e p of
      Return r \<Rightarrow> spec_allow (max_of cb) e (abs_breaker p) = (r, abs_breaker p)
    | Cas new r \<Rightarrow> spec_allow (max_of cb) e (abs_breaker p) = (r, abs_breaker new) \<and>
        unpack_state_field new = STATE_HALFOPEN"
  using assms(2)
proof (cases rule: word_ok_cases)
  case half
  have "unpack_half_open_reqs p < ucast (half_open_max_requests cb) \<longleftrightarrow>
      unat (unpack_half_open_reqs p) < max_of cb"
    by (simp add: word_less_nat_alt)
  moreover have "take_bit 16 (unpack_half_open_reqs p + 1) = unpack_half_open_reqs p + 1"
    if "unat (unpack_half_open_reqs p) < max_of cb"
    using that assms(1) by (intro unat_take_bit16) (simp add: config_ok_def)
  ultimately show ?thesis using half by (simp add: allow_decide_def packed_simps Let_def)
qed (simp_all add: allow_decide_def packed_simps Let_def)

lemma success_decide_abs:
  assumes "config_ok cb" "word_ok cb p"
  shows "case success_decide cb p of
      Return r \<Rightarrow> spec_success (max_of cb) (abs_breaker p) = abs_breaker p
    | Cas new r \<Rightarrow> spec_success (max_of cb) (abs_breaker p) = abs_breaker new \<and>
        unpack_state_field new \<in> {STATE_CLOSED, STATE_HALFOPEN}"
  using assms(2)
proof (cases rule: word_ok_cases)
  case half
  have "ucast (half_open_max_requests cb) \<le> unpack_successes p + 1 \<longleftrightarrow>
      max_of cb \<le> unat (unpack_successes p) + 1"
    by (simp add: word_le_nat_alt)
  moreover have "take_bit 16 (unpack_successes p + 1) = unpack_successes p + 1"
    using half assms(1) by (intro unat_take_bit16) (simp add: config_ok_def)
  ultimately show ?thesis using half by (simp add: success_decide_def packed_simps Let_def)
qed (simp_all add: success_decide_def packed_simps Let_def)

lemma failure_decide_abs:
  assumes "config_ok cb" "word_ok cb p"
  shows "case failure_decide cb p of
      Return r \<Rightarrow> spec_failure (thr_of cb) (abs_breaker p) = abs_breaker p
    | Cas new r \<Rightarrow> spec_failure (thr_of cb) (abs_breaker p) = abs_breaker new \<and>
        unpack_state_field new \<in> {STATE_CLOSED, STATE_OPEN}"
  using assms(2)
proof (cases rule: word_ok_cases)
  case closed
  have "ucast (failure_threshold cb) \<le> unpack_failures p + 1 \<longleftrightarrow>
      thr_of cb \<le> unat (unpack_failures p) + 1"
    by (simp add: word_le_nat_alt)
  moreover have "take_bit 16 (unpack_failures p + 1) = unpack_failures p + 1"
    using closed assms(1) by (intro unat_take_bit16) (auto simp: config_ok_def)
  ultimately show ?thesis using closed by (simp add: failure_decide_def packed_simps Let_def)
qed (simp_all add: failure_decide_def packed_simps Let_def)

lemma word_ok_swaps [inv_intros]:
  assumes "config_ok cb" "word_ok cb p"
  shows "allow_decide cb e p = Cas new r \<Longrightarrow> word_ok cb new"
    and "success_decide cb p = Cas new c \<Longrightarrow> word_ok cb new"
    and "failure_decide cb p = Cas new d \<Longrightarrow> word_ok cb new"
proof -
  have inv: "spec_inv (thr_of cb) (max_of cb) (abs_breaker p)" using assms(2) by (simp add: word_ok_def)
  have mx: "1 \<le> max_of cb" using assms(1) by (simp add: config_ok_def)
  show "word_ok cb new" if "allow_decide cb e p = Cas new r"
    using allow_decide_abs [OF assms, of e] that spec_inv_allow [OF mx inv, of e]
    by (intro word_okI) auto
  show "word_ok cb new" if "success_decide cb p = Cas new c"
    using success_decide_abs [OF assms] that spec_inv_success [OF inv] by (intro word_okI) auto
  show "word_ok cb new" if "failure_decide cb p = Cas new d"
    using failure_decide_abs [OF assms] that spec_inv_failure [OF inv] by (intro word_okI) auto
qed

section \<open>The operations without contention\<close>

lemma cb_new_inv [inv_intros]: "unat thr \<le> 65535 \<Longrightarrow> cb_inv (cb_new thr timeout now)"
  by (simp add: cb_inv_def config_ok_def word_ok_def cb_new_def packed_simps)

lemma decide_config [simp]:
  "allow_decide (cb\<lparr>last_failure_us := t\<rparr>) = allow_decide cb"
  "allow_decide (cb\<lparr>cb_packed := q\<rparr>) = allow_decide cb"
  "success_decide (cb\<lparr>last_failure_us := t\<rparr>) = success_decide cb"
  "success_decide (cb\<lparr>cb_packed := q\<rparr>) = success_decide cb"
  "failure_decide (cb\<lparr>last_failure_us := t\<rparr>) = failure_decide cb"
  "failure_decide (cb\<lparr>cb_packed := q\<rparr>) = failure_decide cb"
  by (simp_all add: fun_eq_iff allow_decide_def success_decide_def failure_decide_def Let_def)

lemma config_word_frame [simp]:
  "config_ok (cb\<lparr>last_failure_us := t\<rparr>) = config_ok cb" "config_ok (cb\<lparr>cb_packed := q\<rparr>) = config_ok cb"
  "word_ok (cb\<lparr>last_failure_us := t\<rparr>) p = word_ok cb p" "word_ok (cb\<lparr>cb_packed := q\<rparr>) p = word_ok cb p"
  by (simp_all add: config_ok_def word_ok_def)

lemma allow_request_inv [inv_intros]: "cb_inv cb \<Longrightarrow> cb_inv (snd (allow_request now cb))"
  by (auto simp: allow_request_def cb_inv_def intro: word_ok_swaps split: decision.split)

lemma record_success_inv [inv_intros]: "cb_inv cb \<Longrightarrow> cb_inv (record_success cb)"
  by (auto simp: record_success_def cb_inv_def intro: word_ok_swaps split: decision.split)

lemma record_failure_inv [inv_intros]: "cb_inv cb \<Longrightarrow> cb_inv (record_failure now cb)"
  by (auto simp: record_failure_def cb_inv_def Let_def intro: word_ok_swaps split: decision.split)

text \<open>
  C6: Under the invariant each operation of the packed breaker is the abstract breaker's: the
  answer of \<open>allow_request\<close> and the state after every operation are those of the contract, and
  the invariant is kept.
\<close>

theorem breaker_refines:
  assumes "cb_inv cb"
  shows "spec_allow (max_of cb) (should_attempt_reset cb now) (abs_breaker (cb_packed cb)) =
      (fst (allow_request now cb), abs_breaker (cb_packed (snd (allow_request now cb)))) \<and>
    spec_success (max_of cb) (abs_breaker (cb_packed cb)) = abs_breaker (cb_packed (record_success cb)) \<and>
    spec_failure (thr_of cb) (abs_breaker (cb_packed cb)) =
      abs_breaker (cb_packed (record_failure now cb)) \<and>
    cb_inv (snd (allow_request now cb)) \<and> cb_inv (record_success cb) \<and> cb_inv (record_failure now cb)"
proof (intro conjI)
  have ok: "config_ok cb" "word_ok cb (cb_packed cb)" using assms by (simp_all add: cb_inv_def)
  show "spec_allow (max_of cb) (should_attempt_reset cb now) (abs_breaker (cb_packed cb)) =
      (fst (allow_request now cb), abs_breaker (cb_packed (snd (allow_request now cb))))"
    using allow_decide_abs [OF ok, of "should_attempt_reset cb now"]
    by (auto simp: allow_request_def split: decision.splits)
  show "spec_success (max_of cb) (abs_breaker (cb_packed cb)) = abs_breaker (cb_packed (record_success cb))"
    using success_decide_abs [OF ok] by (auto simp: record_success_def split: decision.splits)
  show "spec_failure (thr_of cb) (abs_breaker (cb_packed cb)) = abs_breaker (cb_packed (record_failure now cb))"
    using failure_decide_abs [OF ok] by (auto simp: record_failure_def Let_def split: decision.splits)
qed (use assms in \<open>blast intro: inv_intros\<close>)+

theorem breaker_refines_witness:
  "spec_failure 5 (abs_breaker (cb_packed (cb_new 5 30000000000 0))) =
     abs_breaker (cb_packed (record_failure 7 (cb_new 5 30000000000 0)))"
proof -
  have "cb_inv (cb_new 5 30000000000 0)" by (rule cb_new_inv) simp
  from breaker_refines [OF this, of 7] show ?thesis by (simp add: cb_new_def)
qed

section \<open>Interleavings\<close>

text \<open>
  Any number of threads call the operations on one shared breaker. A step is one atomic action
  of one thread: a load of the packed word, the load of \<open>last_failure_us\<close> and the reading of the
  clock that check the timeout, a weak compare-and-swap (which may fail although the word is
  unchanged), and the stores to \<open>last_failure_us\<close>. The program counters are the points between the atomic actions.
\<close>

datatype cb_op = OpAllow | OpSuccess | OpFailure

datatype cb_pc =
    Idle
  | AllowLoad
  | AllowCheck u64
  | AllowClock u64 u64
  | AllowCas u64 u64
  | SuccLoad
  | SuccCas u64 u64 bool
  | SuccClear
  | FailClock
  | FailStore u64
  | FailLoad
  | FailCas u64 u64

datatype cb_event = Tau | Answer bool | Success | Failure

record cb_world =
  w_cb :: CircuitBreaker
  w_now :: instant
  w_pc :: "nat \<Rightarrow> cb_pc"

fun start_pc :: "cb_op \<Rightarrow> cb_pc" where
  "start_pc OpAllow = AllowLoad"
| "start_pc OpSuccess = SuccLoad"
| "start_pc OpFailure = FailClock"

definition goto :: "nat \<Rightarrow> cb_pc \<Rightarrow> cb_world \<Rightarrow> cb_world" where
  "goto i pc w = w\<lparr>w_pc := (w_pc w)(i := pc)\<rparr>"

definition swap_word :: "u64 \<Rightarrow> cb_world \<Rightarrow> cb_world" where
  "swap_word new w = w\<lparr>w_cb := (w_cb w)\<lparr>cb_packed := new\<rparr>\<rparr>"

definition stamp :: "u64 \<Rightarrow> cb_world \<Rightarrow> cb_world" where
  "stamp t w = w\<lparr>w_cb := (w_cb w)\<lparr>last_failure_us := t\<rparr>\<rparr>"

text \<open>\<open>thread_step i ok w\<close>: thread \<open>i\<close>'s next atomic action; \<open>ok\<close> lets a swap succeed.\<close>

definition thread_step :: "nat \<Rightarrow> bool \<Rightarrow> cb_world \<Rightarrow> cb_event \<times> cb_world" where
  "thread_step i ok w =
     (let cb = w_cb w; p = cb_packed cb in
      case w_pc w i of
        Idle \<Rightarrow> (Tau, w)
      | AllowLoad \<Rightarrow>
          if unpack_state_field p = STATE_OPEN then (Tau, goto i (AllowCheck p) w)
          else (case allow_decide cb False p of
                  Return r \<Rightarrow> (Answer r, goto i Idle w)
                | Cas new r \<Rightarrow> (Tau, goto i (AllowCas p new) w))
      | AllowCheck cur \<Rightarrow>
          if last_failure_us cb = 0 then
            (case allow_decide cb False cur of
               Return r \<Rightarrow> (Answer r, goto i Idle w)
             | Cas new r \<Rightarrow> (Tau, goto i (AllowCas cur new) w))
          else (Tau, goto i (AllowClock cur (last_failure_us cb)) w)
      | AllowClock cur since \<Rightarrow>
          (case allow_decide cb (should_attempt_reset (cb\<lparr>last_failure_us := since\<rparr>) (w_now w)) cur of
             Return r \<Rightarrow> (Answer r, goto i Idle w)
           | Cas new r \<Rightarrow> (Tau, goto i (AllowCas cur new) w))
      | AllowCas cur new \<Rightarrow>
          if ok \<and> p = cur then (Answer True, goto i Idle (swap_word new w))
          else (Tau, goto i AllowLoad w)
      | SuccLoad \<Rightarrow>
          (case success_decide cb p of
             Return _ \<Rightarrow> (Success, goto i Idle w)
           | Cas new clear \<Rightarrow> (Tau, goto i (SuccCas p new clear) w))
      | SuccCas cur new clear \<Rightarrow>
          if ok \<and> p = cur
          then (Success, goto i (if clear then SuccClear else Idle) (swap_word new w))
          else (Tau, goto i SuccLoad w)
      | SuccClear \<Rightarrow> (Tau, goto i Idle (stamp 0 w))
      | FailClock \<Rightarrow> (Tau, goto i (FailStore (failure_stamp cb (w_now w))) w)
      | FailStore t \<Rightarrow> (Tau, goto i FailLoad (stamp t w))
      | FailLoad \<Rightarrow>
          (case failure_decide cb p of
             Return _ \<Rightarrow> (Failure, goto i Idle w)
           | Cas new _ \<Rightarrow> (Tau, goto i (FailCas p new) w))
      | FailCas cur new \<Rightarrow>
          if ok \<and> p = cur then (Failure, goto i Idle (swap_word new w))
          else (Tau, goto i FailLoad w))"

inductive cb_step :: "cb_world \<Rightarrow> cb_event \<Rightarrow> cb_world \<Rightarrow> bool" where
  tick: "cb_step w Tau (w\<lparr>w_now := w_now w + d\<rparr>)"
| call: "w_pc w i = Idle \<Longrightarrow> cb_step w Tau (goto i (start_pc op) w)"
| run: "thread_step i ok w = (ev, w') \<Longrightarrow> cb_step w ev w'"

inductive_cases cb_stepE: "cb_step w ev w'"

inductive cb_reach :: "cb_world \<Rightarrow> cb_world \<Rightarrow> bool" for w0 where
  start: "cb_reach w0 w0"
| step: "cb_reach w0 w \<Longrightarrow> cb_step w ev w' \<Longrightarrow> cb_reach w0 w'"

definition cb_init :: "u32 \<Rightarrow> duration \<Rightarrow> instant \<Rightarrow> cb_world" where
  "cb_init threshold timeout now =
     \<lparr>w_cb = cb_new threshold timeout now, w_now = now, w_pc = (\<lambda>_. Idle)\<rparr>"

text \<open>A schedule, run deterministically, to exhibit interleavings.\<close>

datatype cb_action = Tick nat | Call nat cb_op | Run nat bool

fun do_action :: "cb_action \<Rightarrow> cb_world \<Rightarrow> cb_world" where
  "do_action (Tick d) w = w\<lparr>w_now := w_now w + d\<rparr>"
| "do_action (Call i op) w = (if w_pc w i = Idle then goto i (start_pc op) w else w)"
| "do_action (Run i ok) w = snd (thread_step i ok w)"

definition run_schedule :: "cb_action list \<Rightarrow> cb_world \<Rightarrow> cb_world" where
  "run_schedule as w = fold do_action as w"

lemma do_action_reach: "cb_reach w0 w \<Longrightarrow> cb_reach w0 (do_action a w)"
  by (cases a) (auto intro: cb_reach.step [OF _ cb_step.tick] cb_reach.step [OF _ cb_step.call]
      cb_reach.step [OF _ cb_step.run [OF surjective_pairing]])

lemma run_schedule_reach: "cb_reach w0 w \<Longrightarrow> cb_reach w0 (run_schedule as w)"
  by (induction as arbitrary: w) (simp_all add: run_schedule_def do_action_reach)

text \<open>What the abstract breaker may do: the moves of the contract, and rejections, which change nothing.\<close>

inductive spec_step :: "nat \<Rightarrow> nat \<Rightarrow> breaker_spec \<Rightarrow> cb_event \<Rightarrow> breaker_spec \<Rightarrow> bool" for thr mx where
  admit: "spec_allow mx e b = (True, b') \<Longrightarrow> spec_step thr mx b (Answer True) b'"
| reject: "spec_step thr mx b (Answer False) b"
| success: "spec_step thr mx b Success (spec_success mx b)"
| failure: "spec_step thr mx b Failure (spec_failure thr b)"
| internal: "spec_step thr mx b Tau b"

text \<open>The word a thread is about to swap in is the one its loop body computed from the word it loaded.\<close>

fun pc_ok :: "CircuitBreaker \<Rightarrow> cb_pc \<Rightarrow> bool" where
  "pc_ok cb (AllowCheck cur) \<longleftrightarrow> unpack_state_field cur = STATE_OPEN"
| "pc_ok cb (AllowClock cur since) \<longleftrightarrow> unpack_state_field cur = STATE_OPEN"
| "pc_ok cb (AllowCas cur new) \<longleftrightarrow> (\<exists>e. allow_decide cb e cur = Cas new True)"
| "pc_ok cb (SuccCas cur new clear) \<longleftrightarrow> success_decide cb cur = Cas new clear"
| "pc_ok cb (FailCas cur new) \<longleftrightarrow> failure_decide cb cur = Cas new ()"
| "pc_ok cb _ \<longleftrightarrow> True"

definition world_ok :: "cb_world \<Rightarrow> bool" where
  "world_ok w \<longleftrightarrow> cb_inv (w_cb w) \<and> (\<forall>i. pc_ok (w_cb w) (w_pc w i))"

lemma pc_ok_frame [simp]:
  "pc_ok (cb\<lparr>last_failure_us := t\<rparr>) = pc_ok cb" "pc_ok (cb\<lparr>cb_packed := q\<rparr>) = pc_ok cb"
proof -
  have "pc_ok (cb\<lparr>last_failure_us := t\<rparr>) pc = pc_ok cb pc" "pc_ok (cb\<lparr>cb_packed := q\<rparr>) pc = pc_ok cb pc" for pc
    by (cases pc; simp)+
  then show "pc_ok (cb\<lparr>last_failure_us := t\<rparr>) = pc_ok cb" "pc_ok (cb\<lparr>cb_packed := q\<rparr>) = pc_ok cb"
    by (simp_all add: fun_eq_iff)
qed

lemma world_ok_goto: "world_ok w \<Longrightarrow> pc_ok (w_cb w) pc \<Longrightarrow> world_ok (goto i pc w)"
  by (simp add: world_ok_def goto_def)

lemma world_ok_stamp: "world_ok w \<Longrightarrow> world_ok (stamp t w)"
  by (simp add: world_ok_def stamp_def cb_inv_def)

lemma world_ok_swap: "world_ok w \<Longrightarrow> word_ok (w_cb w) new \<Longrightarrow> world_ok (swap_word new w)"
  by (simp add: world_ok_def swap_word_def cb_inv_def)

lemma world_cb_simps [simp]:
  "w_cb (goto i pc w) = w_cb w" "w_cb (swap_word new w) = (w_cb w)\<lparr>cb_packed := new\<rparr>"
  "w_cb (stamp t w) = (w_cb w)\<lparr>last_failure_us := t\<rparr>"
  by (simp_all add: goto_def swap_word_def stamp_def)

lemma allow_Cas_True: "allow_decide cb e p = Cas new r \<Longrightarrow> r"
  by (auto simp: allow_decide_def Let_def split: if_splits)

abbreviation abs_world :: "cb_world \<Rightarrow> breaker_spec" where
  "abs_world w \<equiv> abs_breaker (cb_packed (w_cb w))"

abbreviation world_spec_step :: "cb_world \<Rightarrow> cb_event \<Rightarrow> cb_world \<Rightarrow> bool" where
  "world_spec_step w \<equiv> \<lambda>ev w'. spec_step (thr_of (w_cb w)) (max_of (w_cb w)) (abs_world w) ev (abs_world w')"

lemma start_pc_ok [simp]: "pc_ok cb (start_pc op)"
  by (cases op) simp_all

lemma spec_stepI:
  "spec_allow mx e b = (r, b) \<Longrightarrow> spec_step thr mx b (Answer r) b"
  "spec_success mx b = b' \<Longrightarrow> spec_step thr mx b Success b'"
  "spec_failure thr b = b' \<Longrightarrow> spec_step thr mx b Failure b'"
  by (cases r; auto intro: spec_step.intros) (auto intro: spec_step.intros)

lemma thread_step_ok:
  assumes "world_ok w" "thread_step i ok w = (ev, w')"
  shows "world_ok w' \<and> world_spec_step w ev w'"
proof -
  let ?cb = "w_cb w" and ?p = "cb_packed (w_cb w)"
  have cfg: "config_ok ?cb" "word_ok ?cb ?p" and pc: "pc_ok ?cb (w_pc w i)"
    using assms(1) by (simp_all add: world_ok_def cb_inv_def)
  note ok = world_ok_goto [OF assms(1)] world_ok_goto [OF world_ok_swap [OF assms(1)]]
    world_ok_goto [OF world_ok_stamp [OF assms(1)]]
  note steps = spec_step.intros
  show ?thesis
  proof (cases "w_pc w i")
    case AllowLoad
    show ?thesis
    proof (cases "unpack_state_field ?p = STATE_OPEN")
      case True
      with AllowLoad assms(2) show ?thesis
        by (auto simp: thread_step_def intro!: ok steps)
    next
      case False
      show ?thesis
      proof (cases "allow_decide ?cb False ?p")
        case (Return r)
        with False AllowLoad assms(2) allow_decide_abs [OF cfg, of False] show ?thesis
          by (auto simp: thread_step_def intro!: ok spec_stepI)
      next
        case (Cas new r)
        moreover have "r" using Cas by (rule allow_Cas_True)
        ultimately show ?thesis using False AllowLoad assms(2)
          by (auto simp: thread_step_def intro!: ok steps)
      qed
    qed
  next
    case (AllowCheck cur)
    then have "unpack_state_field cur = STATE_OPEN" using pc by simp
    with AllowCheck assms(2) show ?thesis
      by (cases "last_failure_us ?cb = 0")
        (auto simp: thread_step_def allow_decide_def packed_simps Let_def intro!: ok steps)
  next
    case (AllowClock cur since)
    then have cur: "unpack_state_field cur = STATE_OPEN" using pc by simp
    show ?thesis
    proof (cases "should_attempt_reset (?cb\<lparr>last_failure_us := since\<rparr>) (w_now w)")
      case True
      with AllowClock assms(2) cur show ?thesis
        by (auto simp: thread_step_def allow_decide_def packed_simps Let_def intro!: ok steps exI [of _ True])
    next
      case False
      with AllowClock assms(2) cur show ?thesis
        by (auto simp: thread_step_def allow_decide_def packed_simps Let_def intro!: ok steps)
    qed
  next
    case (AllowCas cur new)
    then obtain e where e: "allow_decide ?cb e cur = Cas new True" using pc by auto
    show ?thesis
    proof (cases "ok \<and> ?p = cur")
      case True
      with AllowCas assms(2) e allow_decide_abs [OF cfg, of e] word_ok_swaps(1) [OF cfg, of e new True]
      show ?thesis
        by (auto simp: thread_step_def Let_def intro!: ok intro: spec_step.admit)
    qed (use AllowCas assms(2) in \<open>auto simp: thread_step_def Let_def intro!: ok steps\<close>)
  next
    case SuccLoad
    with assms(2) success_decide_abs [OF cfg] show ?thesis
      by (cases "success_decide ?cb ?p")
        (auto simp: thread_step_def Let_def intro!: ok steps(5) spec_stepI)
  next
    case (SuccCas cur new clear)
    show ?thesis
    proof (cases "ok \<and> ?p = cur")
      case True
      with SuccCas assms(2) pc success_decide_abs [OF cfg] word_ok_swaps(2) [OF cfg, of new clear]
      show ?thesis
        by (auto simp: thread_step_def Let_def intro!: ok spec_stepI)
    qed (use SuccCas assms(2) in \<open>auto simp: thread_step_def Let_def intro!: ok steps\<close>)
  next
    case FailLoad
    with assms(2) failure_decide_abs [OF cfg] show ?thesis
      by (cases "failure_decide ?cb ?p")
        (auto simp: thread_step_def Let_def intro!: ok steps(5) spec_stepI)
  next
    case (FailCas cur new)
    show ?thesis
    proof (cases "ok \<and> ?p = cur")
      case True
      with FailCas assms(2) pc failure_decide_abs [OF cfg] word_ok_swaps(3) [OF cfg, of new "()"]
      show ?thesis
        by (auto simp: thread_step_def Let_def intro!: ok spec_stepI)
    qed (use FailCas assms(2) in \<open>auto simp: thread_step_def Let_def intro!: ok steps\<close>)
  qed (use assms in \<open>auto simp: thread_step_def Let_def intro!: ok steps\<close>)
qed

lemma thread_step_config:
  "thread_step i ok w = (ev, w') \<Longrightarrow> failure_threshold (w_cb w') = failure_threshold (w_cb w) \<and>
     half_open_max_requests (w_cb w') = half_open_max_requests (w_cb w)"
  by (auto simp: thread_step_def Let_def split: cb_pc.splits if_splits decision.splits)

lemma cb_step_config:
  "cb_step w ev w' \<Longrightarrow> failure_threshold (w_cb w') = failure_threshold (w_cb w) \<and>
     half_open_max_requests (w_cb w') = half_open_max_requests (w_cb w)"
  by (auto elim!: cb_stepE dest: thread_step_config)

lemma cb_step_ok: "world_ok w \<Longrightarrow> cb_step w ev w' \<Longrightarrow> world_ok w' \<and> world_spec_step w ev w'"
  by (auto elim!: cb_stepE dest: thread_step_ok intro: spec_step.internal world_ok_goto)
    (simp add: world_ok_def)

lemma cb_init_ok: "unat thr \<le> 65535 \<Longrightarrow> world_ok (cb_init thr timeout now)"
  by (simp add: world_ok_def cb_init_def cb_new_inv)

lemma cb_reach_ok:
  assumes "cb_reach (cb_init thr timeout now) w" "unat thr \<le> 65535"
  shows "world_ok w \<and> failure_threshold (w_cb w) = thr \<and> half_open_max_requests (w_cb w) = 3"
  using assms(1)
proof (induction rule: cb_reach.induct)
  case start
  then show ?case using cb_init_ok [OF assms(2)] by (simp add: cb_init_def cb_new_def)
next
  case (step w ev w')
  then show ?case using cb_step_ok cb_step_config by metis
qed

text \<open>
  C3: Lock-freedom is safe: in every state that any interleaving of any number of threads
  reaches, spurious failures of the weak swap included, every atomic action moves the packed
  breaker as the abstract breaker with a limit of three probes may move, and keeps the invariant.
\<close>

theorem interleavings_refine:
  assumes "cb_reach (cb_init thr timeout now) w" "unat thr \<le> 65535" "cb_step w ev w'"
  shows "spec_step (unat thr) 3 (abs_world w) ev (abs_world w') \<and> cb_inv (w_cb w')"
  using cb_reach_ok [OF assms(1,2)] cb_step_ok [OF _ assms(3), of] by (auto simp: world_ok_def)

theorem interleavings_refine_witness:
  "spec_step 5 3 (abs_world (cb_init 5 30 0)) Tau (abs_world (goto 0 AllowLoad (cb_init 5 30 0)))"
proof -
  have "cb_step (cb_init 5 30 0) Tau (goto 0 (start_pc OpAllow) (cb_init 5 30 0))"
    by (rule cb_step.call) (simp add: cb_init_def)
  from interleavings_refine [OF cb_reach.start _ this] show ?thesis by simp
qed

subsection \<open>Half-open periods\<close>

text \<open>
  The events of a run, in any interleaving, from the step that turns the breaker half open on, for
  as long as it stays half open.
\<close>

inductive half_open_period :: "cb_world \<Rightarrow> cb_event list \<Rightarrow> cb_world \<Rightarrow> bool" for w where
  enter: "cb_state (w_cb w) \<noteq> HalfOpen \<Longrightarrow> cb_step w ev w' \<Longrightarrow> cb_state (w_cb w') = HalfOpen \<Longrightarrow>
    half_open_period w [ev] w'"
| stay: "half_open_period w evs w' \<Longrightarrow> cb_step w' ev w'' \<Longrightarrow> cb_state (w_cb w'') = HalfOpen \<Longrightarrow>
    half_open_period w (evs @ [ev]) w''"

lemma half_open_abs:
  "cb_inv cb \<Longrightarrow> cb_state cb = HalfOpen \<longleftrightarrow> (\<exists>u r. abs_breaker (cb_packed cb) = SHalfOpen u r)"
  by (auto simp: cb_inv_def word_ok_def cb_state_def state_from_u64_def abs_breaker_def packed_simps
      split: if_splits)

lemma spec_step_enters:
  "spec_step thr mx b ev (SHalfOpen u r) \<Longrightarrow> \<forall>u r. b \<noteq> SHalfOpen u r \<Longrightarrow> ev = Answer True \<and> u = 0 \<and> r = 1"
  by (cases b) (auto elim!: spec_step.cases split: if_splits)

lemma spec_step_stays:
  "spec_step thr mx (SHalfOpen u r) ev (SHalfOpen u' r') \<Longrightarrow>
     r' = r + count_list [ev] (Answer True) \<and> u' = u + count_list [ev] Success"
  by (auto elim!: spec_step.cases split: if_splits)

text \<open>The counters of a half-open word are the admissions and the successes of the period.\<close>

lemma half_open_period_counts:
  assumes "world_ok w" "half_open_period w evs w'"
  shows "world_ok w' \<and> thr_of (w_cb w') = thr_of (w_cb w) \<and> max_of (w_cb w') = max_of (w_cb w) \<and>
    abs_world w' = SHalfOpen (count_list evs Success) (count_list evs (Answer True))"
  using assms(2)
proof (induction rule: half_open_period.induct)
  case (enter ev w')
  have ok: "world_ok w'" "world_spec_step w ev w'" using cb_step_ok [OF assms(1) enter(2)] by simp_all
  obtain u r where ur: "abs_world w' = SHalfOpen u r"
    using half_open_abs [of "w_cb w'"] ok(1) enter(3) by (auto simp: world_ok_def)
  have "\<forall>u r. abs_world w \<noteq> SHalfOpen u r"
    using half_open_abs [of "w_cb w"] assms(1) enter(1) by (auto simp: world_ok_def)
  with ok(2) ur have "ev = Answer True \<and> u = 0 \<and> r = 1" using spec_step_enters by metis
  with ok(1) ur cb_step_config [OF enter(2)] show ?case by simp
next
  case (stay evs w' ev w'')
  then have ok: "world_ok w''" "world_spec_step w' ev w''" using cb_step_ok [OF _ stay(2)] by simp_all
  obtain u r where ur: "abs_world w'' = SHalfOpen u r"
    using half_open_abs [of "w_cb w''"] ok(1) stay(3) by (auto simp: world_ok_def)
  with ok(2) stay.IH have "r = count_list evs (Answer True) + count_list [ev] (Answer True) \<and>
      u = count_list evs Success + count_list [ev] Success"
    using spec_step_stays by metis
  with ok(1) ur stay.IH cb_step_config [OF stay(2)] show ?case by simp
qed

text \<open>
  C19: At most three probes: take any interleaving of a breaker whose failure threshold is at most
  65535, and any stretch of it in which the breaker turns half open and stays half open. The calls
  of \<open>allow_request\<close> that are answered with true in this stretch are at least one and at most
  three, the one that turned the breaker half open included, and fewer than three successes are
  recorded in it.
\<close>

theorem half_open_probe_bound:
  assumes "cb_reach (cb_init thr timeout now) w" "unat thr \<le> 65535" "half_open_period w evs w'"
  shows "1 \<le> count_list evs (Answer True) \<and> count_list evs (Answer True) \<le> 3 \<and>
    count_list evs Success < 3"
proof -
  have w: "world_ok w" "max_of (w_cb w) = 3" using cb_reach_ok [OF assms(1,2)] by simp_all
  have counts: "world_ok w'" "max_of (w_cb w') = 3"
    "abs_world w' = SHalfOpen (count_list evs Success) (count_list evs (Answer True))"
    using half_open_period_counts [OF w(1) assms(3)] w(2) by simp_all
  have "spec_inv (thr_of (w_cb w')) (max_of (w_cb w')) (abs_world w')"
    using counts(1) by (simp add: world_ok_def cb_inv_def word_ok_def)
  then show ?thesis unfolding counts(2,3) by simp
qed

subsection \<open>Exhibited interleavings\<close>

lemmas cb_eval = thread_step_def goto_def swap_word_def stamp_def allow_decide_def
  success_decide_def failure_decide_def failure_stamp_def should_attempt_reset_def cb_state_def
  state_from_u64_def packed_simps Let_def

abbreviation (input) w5 :: "u64 \<Rightarrow> u64 \<Rightarrow> instant \<Rightarrow> (nat \<Rightarrow> cb_pc) \<Rightarrow> cb_world" where
  "w5 p t now pcs \<equiv>
     \<lparr>w_cb = \<lparr>cb_packed = p, last_failure_us = t, created_at = 0, failure_threshold = 5,
        cb_timeout = 30000000000, half_open_max_requests = 3\<rparr>, w_now = now, w_pc = pcs\<rparr>"

definition failure_call :: "nat \<Rightarrow> cb_action list" where
  "failure_call i = [Call i OpFailure, Run i True, Run i True, Run i True, Run i True]"

definition success_call :: "nat \<Rightarrow> cb_action list" where
  "success_call i = [Call i OpSuccess, Run i True, Run i True]"

lemma fun_upd_Idle: "(f(i := x))(i := Idle) = f(i := Idle)" "(\<lambda>_. Idle)(i := Idle) = (\<lambda>_. Idle)"
  by auto

lemma run_schedule_append: "run_schedule (as @ bs) w = run_schedule bs (run_schedule as w)"
  by (simp add: run_schedule_def)

lemma small_words: "\<not> (5 :: u64) \<le> 1" "\<not> (3 :: u64) \<le> 1"
  by (simp_all add: word_le_nat_alt)

lemma failures_first:
  "run_schedule (failure_call 0) (w5 (pack_state STATE_CLOSED 0 0 0) 0 0 (\<lambda>_. Idle)) =
     w5 (pack_state STATE_CLOSED 1 0 0) 1 0 (\<lambda>_. Idle)"
  "run_schedule (failure_call 0) (w5 (pack_state STATE_CLOSED 1 0 0) 1 0 (\<lambda>_. Idle)) =
     w5 (pack_state STATE_CLOSED 2 0 0) 1 0 (\<lambda>_. Idle)"
  "run_schedule (failure_call 0) (w5 (pack_state STATE_CLOSED 2 0 0) 1 0 (\<lambda>_. Idle)) =
     w5 (pack_state STATE_CLOSED 3 0 0) 1 0 (\<lambda>_. Idle)"
  "run_schedule (failure_call 0) (w5 (pack_state STATE_CLOSED 3 0 0) 1 0 (\<lambda>_. Idle)) =
     w5 (pack_state STATE_CLOSED 4 0 0) 1 0 (\<lambda>_. Idle)"
  "run_schedule (failure_call 0) (w5 (pack_state STATE_CLOSED 4 0 0) 1 0 (\<lambda>_. Idle)) =
     w5 (pack_state STATE_OPEN 5 0 0) 1 0 (\<lambda>_. Idle)"
  by (simp_all add: run_schedule_def failure_call_def success_call_def cb_eval fun_upd_Idle small_words)

lemma probes_admitted:
  "run_schedule ([Tick 30000000000, Call 0 OpAllow, Run 0 True, Run 0 True, Run 0 True, Run 0 True,
       Call 1 OpAllow, Run 1 True, Run 1 True, Call 2 OpAllow, Run 2 True, Run 2 True]) (w5 (pack_state STATE_OPEN 5 0 0) 1 0 (\<lambda>_. Idle)) =
     w5 (pack_state STATE_HALFOPEN 0 0 3) 1 30000000000 (\<lambda>_. Idle)"
  by (simp_all add: run_schedule_def failure_call_def success_call_def cb_eval fun_upd_Idle small_words)

lemma probes_succeed:
  "run_schedule (success_call 0) (w5 (pack_state STATE_HALFOPEN 0 0 3) 1 30000000000 (\<lambda>_. Idle)) =
     w5 (pack_state STATE_HALFOPEN 0 1 3) 1 30000000000 (\<lambda>_. Idle)"
  "run_schedule (success_call 1) (w5 (pack_state STATE_HALFOPEN 0 1 3) 1 30000000000 (\<lambda>_. Idle)) =
     w5 (pack_state STATE_HALFOPEN 0 2 3) 1 30000000000 (\<lambda>_. Idle)"
  "run_schedule (success_call 2) (w5 (pack_state STATE_HALFOPEN 0 2 3) 1 30000000000 (\<lambda>_. Idle)) =
     w5 (pack_state STATE_CLOSED 0 0 0) 1 30000000000 ((\<lambda>_. Idle)(2 := SuccClear))"
  by (simp_all add: run_schedule_def failure_call_def success_call_def cb_eval fun_upd_Idle small_words)

lemma failures_second:
  "run_schedule (failure_call 3) (w5 (pack_state STATE_CLOSED 0 0 0) 1 30000000000 ((\<lambda>_. Idle)(2 := SuccClear))) =
     w5 (pack_state STATE_CLOSED 1 0 0) 30000001 30000000000 ((\<lambda>_. Idle)(2 := SuccClear))"
  "run_schedule (failure_call 3) (w5 (pack_state STATE_CLOSED 1 0 0) 30000001 30000000000 ((\<lambda>_. Idle)(2 := SuccClear))) =
     w5 (pack_state STATE_CLOSED 2 0 0) 30000001 30000000000 ((\<lambda>_. Idle)(2 := SuccClear))"
  "run_schedule (failure_call 3) (w5 (pack_state STATE_CLOSED 2 0 0) 30000001 30000000000 ((\<lambda>_. Idle)(2 := SuccClear))) =
     w5 (pack_state STATE_CLOSED 3 0 0) 30000001 30000000000 ((\<lambda>_. Idle)(2 := SuccClear))"
  "run_schedule (failure_call 3) (w5 (pack_state STATE_CLOSED 3 0 0) 30000001 30000000000 ((\<lambda>_. Idle)(2 := SuccClear))) =
     w5 (pack_state STATE_CLOSED 4 0 0) 30000001 30000000000 ((\<lambda>_. Idle)(2 := SuccClear))"
  "run_schedule (failure_call 3) (w5 (pack_state STATE_CLOSED 4 0 0) 30000001 30000000000 ((\<lambda>_. Idle)(2 := SuccClear))) =
     w5 (pack_state STATE_OPEN 5 0 0) 30000001 30000000000 ((\<lambda>_. Idle)(2 := SuccClear))"
  by (simp_all add: run_schedule_def failure_call_def success_call_def cb_eval fun_upd_idem small_words)

lemma clear_last:
  "run_schedule [Run 2 True] (w5 (pack_state STATE_OPEN 5 0 0) 30000001 30000000000 ((\<lambda>_. Idle)(2 := SuccClear))) =
     w5 (pack_state STATE_OPEN 5 0 0) 0 30000000000 (\<lambda>_. Idle)"
  by (simp_all add: run_schedule_def failure_call_def success_call_def cb_eval fun_upd_Idle small_words)

text \<open>
  The schedule: five failures open the breaker; after the timeout three probes are admitted and
  succeed; the third success swaps in the closed state, and before its thread clears
  \<open>last_failure_us\<close> five failures of requests still in flight open the breaker again.
\<close>

definition probes_schedule :: "cb_action list" where
  "probes_schedule =
     concat (replicate 5 (failure_call 0))
     @ [Tick 30000000000, Call 0 OpAllow, Run 0 True, Run 0 True, Run 0 True, Run 0 True,
        Call 1 OpAllow, Run 1 True, Run 1 True, Call 2 OpAllow, Run 2 True, Run 2 True]"

definition lost_stamp_schedule :: "cb_action list" where
  "lost_stamp_schedule =
     probes_schedule @ success_call 0 @ success_call 1 @ success_call 2
     @ concat (replicate 5 (failure_call 3))
     @ [Run 2 True]"

lemma five_times: "concat (replicate 5 xs) = xs @ xs @ xs @ xs @ xs"
  by (simp add: numeral_eq_Suc)

lemma probes_run:
  "run_schedule probes_schedule (cb_init 5 30000000000 0) =
     w5 (pack_state STATE_HALFOPEN 0 0 3) 1 30000000000 (\<lambda>_. Idle)"
proof -
  have "cb_init 5 30000000000 0 = w5 (pack_state STATE_CLOSED 0 0 0) 0 0 (\<lambda>_. Idle)"
    by (simp add: cb_init_def cb_new_def)
  then show ?thesis
    by (simp only: probes_schedule_def five_times run_schedule_append failures_first probes_admitted)
qed

lemma lost_stamp_run:
  "run_schedule lost_stamp_schedule (cb_init 5 30000000000 0) =
     w5 (pack_state STATE_OPEN 5 0 0) 0 30000000000 (\<lambda>_. Idle)"
  by (simp only: lost_stamp_schedule_def run_schedule_append probes_run five_times
      probes_succeed failures_second clear_last)

lemma open_without_stamp_rejects:
  "unpack_state_field (cb_packed cb) = STATE_OPEN \<Longrightarrow> last_failure_us cb = 0 \<Longrightarrow>
     allow_request now cb = (False, cb)"
  by (simp add: allow_request_def allow_decide_def should_attempt_reset_def packed_simps)

text \<open>
  C22: A race leaves the breaker open for good. With the default configuration there is an
  interleaving after which every thread has returned, the breaker is open and its failure time
  has been erased; from then on every request at every later time is rejected and the state
  never changes, although the contract promises a probe after the timeout.
\<close>

theorem stuck_open_reachable:
  "\<exists>w. cb_reach (cb_init 5 30000000000 0) w \<and> (\<forall>i. w_pc w i = Idle) \<and> cb_state (w_cb w) = Open \<and>
     (\<forall>now. allow_request now (w_cb w) = (False, w_cb w))"
proof -
  let ?w = "run_schedule lost_stamp_schedule (cb_init 5 30000000000 0)"
  have "cb_reach (cb_init 5 30000000000 0) ?w"
    by (rule run_schedule_reach) (rule cb_reach.start)
  moreover have "w_pc ?w i = Idle" for i by (simp add: lost_stamp_run)
  moreover have "cb_state (w_cb ?w) = Open"
    by (simp add: lost_stamp_run cb_state_def state_from_u64_def packed_simps)
  moreover have "allow_request now (w_cb ?w) = (False, w_cb ?w)" for now
    by (rule open_without_stamp_rejects) (simp_all add: lost_stamp_run packed_simps)
  ultimately show ?thesis by blast
qed

text \<open>Two of the probes of that schedule, as the events of a half-open period.\<close>

abbreviation (input) probing :: "u64 \<Rightarrow> (nat \<Rightarrow> cb_pc) \<Rightarrow> cb_world" where
  "probing p pcs \<equiv> w5 p 1 30000000000 pcs"

abbreviation (input) probe_word :: "u64 \<Rightarrow> u64" where
  "probe_word n \<equiv> pack_state STATE_HALFOPEN 0 0 n"

abbreviation (input) probe_starts :: "nat \<Rightarrow> cb_pc" where
  "probe_starts \<equiv> (\<lambda>_. Idle)(0 := AllowCas (pack_state STATE_OPEN 5 0 0) (probe_word 1))"

lemma probe_starts_reached:
  "cb_reach (cb_init 5 30000000000 0) (probing (pack_state STATE_OPEN 5 0 0) probe_starts)"
proof -
  have "run_schedule (concat (replicate 5 (failure_call 0)) @
      [Tick 30000000000, Call 0 OpAllow, Run 0 True, Run 0 True, Run 0 True]) (cb_init 5 30000000000 0) =
    run_schedule [Tick 30000000000, Call 0 OpAllow, Run 0 True, Run 0 True, Run 0 True]
      (w5 (pack_state STATE_OPEN 5 0 0) 1 0 (\<lambda>_. Idle))"
    by (simp only: five_times run_schedule_append failures_first cb_init_def cb_new_def)
  also have "\<dots> = probing (pack_state STATE_OPEN 5 0 0) probe_starts"
    by (simp add: run_schedule_def cb_eval)
  finally show ?thesis using run_schedule_reach [OF cb_reach.start] by metis
qed

lemma probe_steps:
  "cb_step (probing (pack_state STATE_OPEN 5 0 0) probe_starts) (Answer True) (probing (probe_word 1) (\<lambda>_. Idle))"
  "cb_step (probing (probe_word 1) (\<lambda>_. Idle)) Tau (probing (probe_word 1) ((\<lambda>_. Idle)(1 := AllowLoad)))"
  "cb_step (probing (probe_word 1) ((\<lambda>_. Idle)(1 := AllowLoad))) Tau
     (probing (probe_word 1) ((\<lambda>_. Idle)(1 := AllowCas (probe_word 1) (probe_word 2))))"
  "cb_step (probing (probe_word 1) ((\<lambda>_. Idle)(1 := AllowCas (probe_word 1) (probe_word 2)))) (Answer True)
     (probing (probe_word 2) (\<lambda>_. Idle))"
proof -
  show "cb_step (probing (pack_state STATE_OPEN 5 0 0) probe_starts) (Answer True) (probing (probe_word 1) (\<lambda>_. Idle))"
    by (rule cb_step.run [of 0 True]) (simp add: cb_eval fun_upd_Idle)
  show "cb_step (probing (probe_word 1) (\<lambda>_. Idle)) Tau (probing (probe_word 1) ((\<lambda>_. Idle)(1 := AllowLoad)))"
    using cb_step.call [of "probing (probe_word 1) (\<lambda>_. Idle)" 1 OpAllow] by (simp add: goto_def)
  show "cb_step (probing (probe_word 1) ((\<lambda>_. Idle)(1 := AllowLoad))) Tau
     (probing (probe_word 1) ((\<lambda>_. Idle)(1 := AllowCas (probe_word 1) (probe_word 2))))"
    by (rule cb_step.run [of 1 True]) (simp add: cb_eval)
  show "cb_step (probing (probe_word 1) ((\<lambda>_. Idle)(1 := AllowCas (probe_word 1) (probe_word 2)))) (Answer True)
     (probing (probe_word 2) (\<lambda>_. Idle))"
    by (rule cb_step.run [of 1 True]) (simp add: cb_eval fun_upd_Idle)
qed

lemma two_probes:
  "half_open_period (probing (pack_state STATE_OPEN 5 0 0) probe_starts) [Answer True, Tau, Tau, Answer True]
     (probing (probe_word 2) (\<lambda>_. Idle))"
proof -
  let ?w = "probing (pack_state STATE_OPEN 5 0 0) probe_starts"
  note st = cb_state_def state_from_u64_def packed_simps
  have "half_open_period ?w [Answer True] (probing (probe_word 1) (\<lambda>_. Idle))"
    by (rule half_open_period.enter [OF _ probe_steps(1)]) (simp_all add: st)
  then have "half_open_period ?w ([Answer True] @ [Tau]) (probing (probe_word 1) ((\<lambda>_. Idle)(1 := AllowLoad)))"
    by (rule half_open_period.stay [OF _ probe_steps(2)]) (simp add: st)
  then have "half_open_period ?w (([Answer True] @ [Tau]) @ [Tau])
      (probing (probe_word 1) ((\<lambda>_. Idle)(1 := AllowCas (probe_word 1) (probe_word 2))))"
    by (rule half_open_period.stay [OF _ probe_steps(3)]) (simp add: st)
  then have "half_open_period ?w ((([Answer True] @ [Tau]) @ [Tau]) @ [Answer True]) (probing (probe_word 2) (\<lambda>_. Idle))"
    by (rule half_open_period.stay [OF _ probe_steps(4)]) (simp add: st)
  then show ?thesis by simp
qed

theorem half_open_probe_bound_witness:
  "half_open_period (probing (pack_state STATE_OPEN 5 0 0) probe_starts) [Answer True, Tau, Tau, Answer True]
     (probing (probe_word 2) (\<lambda>_. Idle)) \<and>
   count_list [Answer True, Tau, Tau, Answer True] (Answer True) \<le> 3"
  using half_open_probe_bound [OF probe_starts_reached _ two_probes] two_probes by simp

end
