(* ===== verification/Breaker_Manager.thy ===== *)
theory Breaker_Manager
  imports Circuit_Breaker
begin

text \<open>
  Behaviour of the circuit breaker over whole histories of calls: when a run of failures opens
  it, when an open breaker admits the first probe, and what its per-backend manager
  (\<open>CircuitBreakerManager\<close> of \<open>control/src/proxy/circuit_breaker.rs\<close>) keeps over every sequence of
  calls: the breakers' invariant, the separation of the backends, and a state gauge that always
  reports the breaker's state.
\<close>

section \<open>Runs of failures\<close>

text \<open>The failures recorded at the times \<open>ts\<close>, in this order.\<close>

definition record_failures :: "instant list \<Rightarrow> CircuitBreaker \<Rightarrow> CircuitBreaker" where
  "record_failures ts cb = fold record_failure ts cb"

lemma cb_state_abs:
  "word_ok cb p \<Longrightarrow> state_from_u64 (unpack_state_field p) =
     (case abs_breaker p of SClosed _ \<Rightarrow> Closed | SOpen _ \<Rightarrow> Open | SHalfOpen _ _ \<Rightarrow> HalfOpen)"
  by (erule word_ok_cases) (simp_all add: state_from_u64_def packed_simps)

lemma record_failure_config [simp]:
  "failure_threshold (record_failure t cb) = failure_threshold cb"
  "half_open_max_requests (record_failure t cb) = half_open_max_requests cb"
  "created_at (record_failure t cb) = created_at cb" "cb_timeout (record_failure t cb) = cb_timeout cb"
  by (auto simp: record_failure_def Let_def split: decision.split)

lemma last_failure_record_failure [simp]:
  "last_failure_us (record_failure t cb) = failure_stamp cb t"
  by (auto simp: record_failure_def Let_def split: decision.split)

lemma record_failures_abs:
  "cb_inv cb \<Longrightarrow> cb_inv (record_failures ts cb) \<and>
     abs_breaker (cb_packed (record_failures ts cb)) =
       (spec_failure (thr_of cb) ^^ length ts) (abs_breaker (cb_packed cb))"
proof (induction ts arbitrary: cb)
  case (Cons t ts)
  have "spec_failure (thr_of cb) (abs_breaker (cb_packed cb)) = abs_breaker (cb_packed (record_failure t cb))"
    using failure_decide_abs [of cb "cb_packed cb"] Cons.prems
    by (auto simp: record_failure_def Let_def cb_inv_def split: decision.splits)
  then show ?case
    using Cons.IH [of "record_failure t cb"] record_failure_inv [OF Cons.prems, of t]
    by (simp add: record_failures_def funpow_swap1)
qed (simp add: record_failures_def)

lemma spec_failures:
  "(spec_failure thr ^^ n) (SClosed 0) = (if n < max 1 thr then SClosed n else SOpen (max 1 thr))"
  by (induction n) (auto simp: max_def)

text \<open>
  C20: A new breaker with a failure threshold of at most 65535 opens at exactly that number of
  consecutive failures, or at the first one if the threshold is 0: after \<open>n\<close> recorded failures
  it is closed and has counted \<open>n\<close> if \<open>n\<close> is below the threshold, and open from then on, whatever
  the times of the failures. (For larger thresholds see \<open>large_threshold_never_opens\<close> below.)
\<close>

theorem opens_at_threshold:
  assumes "unat thr \<le> 65535"
  shows "cb_state (record_failures ts (cb_new thr timeout t0)) =
      (if length ts < max 1 (unat thr) then Closed else Open) \<and>
    (length ts < unat thr \<longrightarrow>
      unat (failure_count (record_failures ts (cb_new thr timeout t0))) = length ts)"
proof -
  let ?cb = "record_failures ts (cb_new thr timeout t0)"
  have abs: "cb_inv ?cb" "abs_breaker (cb_packed ?cb) =
      (if length ts < max 1 (unat thr) then SClosed (length ts) else SOpen (max 1 (unat thr)))"
    using record_failures_abs [OF cb_new_inv [OF assms], of ts timeout t0]
    by (simp_all add: cb_new_def packed_simps spec_failures)
  then have ok: "word_ok ?cb (cb_packed ?cb)" by (simp add: cb_inv_def)
  have "unat (ucast (unpack_failures p) :: u32) = unat (unpack_failures p)" for p
    using unpack_bounds(1) [of p] by (simp add: unsigned_ucast_eq take_bit_nat_eq_self)
  moreover have "unat (unpack_failures (cb_packed ?cb)) = length ts" if "length ts < unat thr"
    using that abs(2) by (auto simp: abs_breaker_def Let_def split: if_splits)
  ultimately show ?thesis using abs(2) cb_state_abs [OF ok] by (simp add: cb_state_def failure_count_def)
qed

theorem opens_at_threshold_witness:
  "cb_state (record_failures [1, 2, 3, 4] (cb_new 5 30000000000 0)) = Closed \<and>
   cb_state (record_failures [1, 2, 3, 4, 5] (cb_new 5 30000000000 0)) = Open"
  using opens_at_threshold [of 5 "[1, 2, 3, 4]" 30000000000 0]
    opens_at_threshold [of 5 "[1, 2, 3, 4, 5]" 30000000000 0] by simp

text \<open>
  The threshold is a 32-bit number but the failures are counted in 16 bits: with a threshold
  above 65536 the count wraps and the breaker stays closed however many requests fail.
\<close>

theorem large_threshold_never_opens:
  assumes "65536 < unat thr"
  shows "cb_state (record_failures ts (cb_new thr timeout t0)) = Closed"
proof -
  have step: "unpack_state_field (cb_packed (record_failure t cb)) = STATE_CLOSED"
    if "unpack_state_field (cb_packed cb) = STATE_CLOSED" "failure_threshold cb = thr" for t cb
  proof -
    have "\<not> ucast thr \<le> unpack_failures (cb_packed cb) + 1"
      using unpack_bounds(1) [of "cb_packed cb"] assms by (simp add: word_le_nat_alt)
    with that show ?thesis by (simp add: record_failure_def failure_decide_def packed_simps Let_def)
  qed
  have "unpack_state_field (cb_packed (record_failures ts cb)) = STATE_CLOSED"
    if "unpack_state_field (cb_packed cb) = STATE_CLOSED" "failure_threshold cb = thr" for cb
    using that by (induction ts arbitrary: cb) (simp_all add: record_failures_def step)
  from this [of "cb_new thr timeout t0"] show ?thesis
    by (simp add: cb_new_def cb_state_def state_from_u64_def packed_simps)
qed

theorem large_threshold_never_opens_witness:
  "cb_state (record_failures [0..<200000] (cb_new 100000 30000000000 0)) = Closed"
  by (rule large_threshold_never_opens) simp

section \<open>The timeout\<close>

text \<open>
  An open breaker admits its first probe exactly once the timeout has passed since the
  last recorded failure, whose time is kept in whole microseconds since the breaker's creation;
  before that every request is rejected and the breaker does not change.
\<close>

theorem open_until_timeout:
  assumes opened: "cb_state (record_failure t cb) = Open"
    and range: "as_micros (t - created_at cb) + 1 < 2 ^ 64" and timeout: "0 < cb_timeout cb"
  shows "allow_request now (record_failure t cb) =
    (if created_at cb + as_micros (t - created_at cb) * 1000 + cb_timeout cb \<le> now
     then (True, (record_failure t cb)\<lparr>cb_packed := pack_state STATE_HALFOPEN 0 0 1\<rparr>)
     else (False, record_failure t cb))"
proof -
  let ?us = "as_micros (t - created_at cb)"
  have stamp: "unat (failure_stamp cb t) = ?us + 1" "unat (failure_stamp cb t - 1) = ?us"
    using range by (simp_all add: failure_stamp_def unat_word_ariths unat_of_nat)
  have "unpack_state_field (cb_packed (record_failure t cb)) = STATE_OPEN"
    using opened by (simp add: cb_state_def state_from_u64_def split: if_splits)
  moreover have "should_attempt_reset (record_failure t cb) now \<longleftrightarrow>
      created_at cb + ?us * 1000 + cb_timeout cb \<le> now"
  proof -
    have "d < now - c \<and> T \<le> now - c - d \<longleftrightarrow> c + d + T \<le> now" if "0 < T" for c d T :: nat
      using that by arith
    from this [OF timeout, of "?us * 1000" "created_at cb"] stamp show ?thesis
      by (auto simp: should_attempt_reset_def Let_def simp del: diff_diff_left)
  qed
  ultimately show ?thesis by (simp add: allow_request_def allow_decide_def packed_simps Let_def)
qed

theorem open_until_timeout_witness:
  "fst (allow_request 30000005000 (record_failure 5200 (cb_new 1 30000000000 0))) \<and>
   \<not> fst (allow_request 30000004999 (record_failure 5200 (cb_new 1 30000000000 0)))"
proof -
  have "cb_state (record_failure 5200 (cb_new 1 30000000000 0)) = Open"
    by (simp add: record_failure_def failure_decide_def cb_new_def cb_state_def state_from_u64_def
        packed_simps Let_def unpack_pack)
  from open_until_timeout [OF this] show ?thesis by (simp add: cb_new_def)
qed

text \<open>
  Once the probes of a half-open breaker are used up, only a recorded result can change it:
  requests are rejected at every later time, however long it lasts, and the breaker stays
  half-open. A probe whose result is never recorded therefore blocks a slot for good.
\<close>

theorem half_open_exhausted_stays:
  assumes "cb_state cb = HalfOpen" "half_open_max_requests cb \<le> ucast (unpack_half_open_reqs (cb_packed cb))"
  shows "fold (\<lambda>now cb. snd (allow_request now cb)) ts cb = cb \<and> \<not> fst (allow_request now cb)"
proof -
  let ?r = "unpack_half_open_reqs (cb_packed cb)"
  have "unpack_state_field (cb_packed cb) = STATE_HALFOPEN"
    using assms(1) by (simp add: cb_state_def state_from_u64_def split: if_splits)
  moreover have "\<not> ?r < ucast (half_open_max_requests cb)"
    using assms(2) unpack_bounds(3) [of "cb_packed cb"]
    by (simp add: word_less_nat_alt word_le_nat_alt unsigned_ucast_eq take_bit_nat_eq_self)
  ultimately have *: "allow_request t cb = (False, cb)" for t
    by (simp add: allow_request_def allow_decide_def packed_simps Let_def)
  have "fold (\<lambda>now cb. snd (allow_request now cb)) ts cb = cb" by (induction ts) (simp_all add: *)
  with * show ?thesis by simp
qed

theorem half_open_exhausted_stays_witness:
  "\<not> fst (allow_request 86400000000000
     ((cb_new 5 30000000000 0)\<lparr>cb_packed := pack_state STATE_HALFOPEN 0 0 3, last_failure_us := 1\<rparr>))"
proof -
  let ?cb = "(cb_new 5 30000000000 0)\<lparr>cb_packed := pack_state STATE_HALFOPEN 0 0 3, last_failure_us := 1\<rparr>"
  have "cb_state ?cb = HalfOpen" by (simp add: cb_state_def state_from_u64_def packed_simps)
  moreover have "half_open_max_requests ?cb \<le> ucast (unpack_half_open_reqs (cb_packed ?cb))"
    by (simp add: unpack_pack cb_new_def)
  ultimately show ?thesis using half_open_exhausted_stays by blast
qed

section \<open>The manager\<close>

datatype cbm_op = CbmAllow string | CbmSuccess string | CbmFailure string | CbmRemove string

text \<open>A call of the manager at the time \<open>now\<close>.\<close>

fun cbm_call :: "instant \<times> cbm_op \<Rightarrow> CircuitBreakerManager \<Rightarrow> CircuitBreakerManager" where
  "cbm_call (now, CbmAllow b) m = snd (cbm_allow_request now b m)"
| "cbm_call (now, CbmSuccess b) m = cbm_record_success now b m"
| "cbm_call (now, CbmFailure b) m = cbm_record_failure now b m"
| "cbm_call (now, CbmRemove b) m = remove_backend b m"

fun op_backend :: "cbm_op \<Rightarrow> string" where
  "op_backend (CbmAllow b) = b"
| "op_backend (CbmSuccess b) = b"
| "op_backend (CbmFailure b) = b"
| "op_backend (CbmRemove b) = b"

text \<open>What a call does to the breaker of its backend, if it keeps one.\<close>

fun op_breaker :: "instant \<times> cbm_op \<Rightarrow> CircuitBreaker \<Rightarrow> CircuitBreaker option" where
  "op_breaker (now, CbmAllow b) cb = Some (snd (allow_request now cb))"
| "op_breaker (now, CbmSuccess b) cb = Some (record_success cb)"
| "op_breaker (now, CbmFailure b) cb = Some (record_failure now cb)"
| "op_breaker (now, CbmRemove b) cb = None"

definition breaker_at :: "instant \<Rightarrow> string \<Rightarrow> CircuitBreakerManager \<Rightarrow> CircuitBreaker" where
  "breaker_at now b m = fst (get_breaker now b m)"

lemma breaker_at_eq:
  "breaker_at now b m =
     (case map_of (breakers m) b of Some cb \<Rightarrow> cb
      | None \<Rightarrow> cb_new (default_failure_threshold m) (default_timeout m) now)"
  by (simp add: breaker_at_def get_breaker_def Let_def split: option.split)

lemma breakers_log_put [simp]:
  "breakers (log_metrics es m) = breakers m" "cb_metrics (log_metrics es m) = cb_metrics m @ es"
  "breakers (put_breaker b cb m) = AList.update b cb (breakers m)"
  "cb_metrics (put_breaker b cb m) = cb_metrics m"
  by (simp_all add: log_metrics_def put_breaker_def)

lemma get_breaker_frame [simp]:
  "cb_metrics (snd (get_breaker now b m)) = cb_metrics m"
  "map_of (AList.update b cb (breakers (snd (get_breaker now b m)))) = (map_of (breakers m))(b \<mapsto> cb)"
  "distinct (map fst (breakers m)) \<Longrightarrow>
     distinct (map fst (AList.update b cb (breakers (snd (get_breaker now b m)))))"
  by (auto simp: get_breaker_def Let_def update_conv' distinct_update split: option.split)

lemmas cbm_defs = cbm_allow_request_def cbm_record_success_def cbm_record_failure_def
  remove_backend_def Let_def case_prod_beta

lemma cbm_call_breakers:
  "map_of (breakers (cbm_call (now, op) m)) =
     (map_of (breakers m))(op_backend op := op_breaker (now, op) (breaker_at now (op_backend op) m))"
  by (cases op) (simp_all add: cbm_defs breaker_at_def AList.delete_conv')

lemma cbm_call_distinct:
  "distinct (map fst (breakers m)) \<Longrightarrow> distinct (map fst (breakers (cbm_call (now, op) m)))"
  by (cases op) (simp_all add: cbm_defs distinct_delete)

lemma cbm_call_defaults [simp]:
  "default_failure_threshold (cbm_call c m) = default_failure_threshold m"
  "default_timeout (cbm_call c m) = default_timeout m"
  by (cases "(c, m)" rule: cbm_call.cases;
      simp add: cbm_defs log_metrics_def put_breaker_def get_breaker_def split: option.split)+

definition cbm_run :: "(instant \<times> cbm_op) list \<Rightarrow> CircuitBreakerManager \<Rightarrow> CircuitBreakerManager" where
  "cbm_run calls m = fold cbm_call calls m"

lemma cbm_run_defaults [simp]:
  "default_failure_threshold (cbm_run cs m) = default_failure_threshold m"
  "default_timeout (cbm_run cs m) = default_timeout m"
  by (induction cs arbitrary: m) (simp_all add: cbm_run_def)

lemma cbm_run_cong:
  assumes "map_of (breakers m) b = map_of (breakers m') b"
    "default_failure_threshold m = default_failure_threshold m'" "default_timeout m = default_timeout m'"
  shows "map_of (breakers (cbm_run cs m)) b =
    map_of (breakers (cbm_run (filter (\<lambda>(_, op). op_backend op = b) cs) m')) b"
  using assms
proof (induction cs arbitrary: m m')
  case (Cons c cs)
  obtain now op where c: "c = (now, op)" by (cases c)
  show ?case
  proof (cases "op_backend op = b")
    case True
    then have "map_of (breakers (cbm_call c m)) b = map_of (breakers (cbm_call c m')) b"
      using Cons.prems by (simp add: c cbm_call_breakers breaker_at_eq cong: option.case_cong)
    then show ?thesis using Cons.IH [of "cbm_call c m" "cbm_call c m'"] Cons.prems True
      by (simp add: cbm_run_def c)
  next
    case False
    then have "map_of (breakers (cbm_call c m)) b = map_of (breakers m') b"
      using Cons.prems by (simp add: c cbm_call_breakers)
    then show ?thesis using Cons.IH [of "cbm_call c m" m'] Cons.prems False
      by (simp add: cbm_run_def c)
  qed
qed (simp add: cbm_run_def)

text \<open>
  C21: The backends are separate: after any history of calls, the breaker of a backend is the one
  that the calls for this backend alone produce. A failing backend never affects the breaker of
  another one.
\<close>

theorem manager_isolates_backends:
  "map_of (breakers (cbm_run calls m)) b =
   map_of (breakers (cbm_run (filter (\<lambda>(_, op). op_backend op = b) calls) m)) b"
  by (rule cbm_run_cong) simp_all

text \<open>The last value set on a backend's state gauge.\<close>

fun gauge_update :: "string \<Rightarrow> cb_metric \<Rightarrow> u64 option \<Rightarrow> u64 option" where
  "gauge_update b (CbStateGauge b' v) g = (if b' = b then Some v else g)"
| "gauge_update b _ g = g"

definition state_gauge :: "string \<Rightarrow> CircuitBreakerManager \<Rightarrow> u64 option" where
  "state_gauge b m = fold (gauge_update b) (cb_metrics m) None"

definition cbm_inv :: "CircuitBreakerManager \<Rightarrow> bool" where
  "cbm_inv m \<longleftrightarrow> unat (default_failure_threshold m) \<le> 65535 \<and> distinct (map fst (breakers m)) \<and>
     (\<forall>b cb. map_of (breakers m) b = Some cb \<longrightarrow>
        cb_inv cb \<and> state_gauge b m = Some (state_to_u64 (cb_state cb)))"

lemma gauge_transition [simp]: "fold (gauge_update b) (transition_metrics b' s s') g = g"
  by (simp add: transition_metrics_def)

lemma cbm_call_gauge:
  "state_gauge b (cbm_call (now, op) m) =
     (if op_backend op = b then
        (case op_breaker (now, op) (breaker_at now b m) of
           Some cb \<Rightarrow> Some (state_to_u64 (cb_state cb)) | None \<Rightarrow> state_gauge b m)
      else state_gauge b m)"
  by (cases op) (simp_all add: cbm_defs breaker_at_def state_gauge_def)

lemma op_breaker_inv [inv_intros]: "cb_inv cb \<Longrightarrow> op_breaker c cb = Some cb' \<Longrightarrow> cb_inv cb'"
  by (cases "(c, cb)" rule: op_breaker.cases) (auto intro: inv_intros)

lemma breaker_at_inv: "cbm_inv m \<Longrightarrow> cb_inv (breaker_at now b m)"
  by (auto simp: cbm_inv_def breaker_at_eq intro: cb_new_inv split: option.split)

lemma cbm_call_inv: "cbm_inv m \<Longrightarrow> cbm_inv (cbm_call c m)"
  using breaker_at_inv [of m]
  by (cases c) (auto simp: cbm_inv_def cbm_call_breakers cbm_call_gauge cbm_call_distinct
      intro: op_breaker_inv)

text \<open>
  After any history of calls from an empty manager each backend has one breaker, every
  breaker satisfies its invariant, and the state gauge of a backend shows the state its breaker
  is in.
\<close>

theorem manager_gauge_truthful:
  assumes "unat thr \<le> 65535"
  shows "cbm_inv (cbm_run calls (cbm_new thr timeout)) \<and>
    (get_state b (cbm_run calls (cbm_new thr timeout)) = Some s \<longrightarrow>
      state_gauge b (cbm_run calls (cbm_new thr timeout)) = Some (state_to_u64 s))"
proof -
  have "cbm_inv (cbm_run calls m)" if "cbm_inv m" for m
    using that by (induction calls arbitrary: m) (simp_all add: cbm_run_def cbm_call_inv)
  moreover have "cbm_inv (cbm_new thr timeout)" using assms by (simp add: cbm_inv_def cbm_new_def)
  ultimately have "cbm_inv (cbm_run calls (cbm_new thr timeout))" by blast
  then show ?thesis by (auto simp: cbm_inv_def get_state_def)
qed

theorem manager_gauge_truthful_witness:
  "state_gauge ''b1'' (cbm_run [(0, CbmFailure ''b1''), (5, CbmAllow ''b2'')] (cbm_new 1 30000000000)) = Some 1"
proof -
  let ?m = "cbm_run [(0, CbmFailure ''b1''), (5, CbmAllow ''b2'')] (cbm_new 1 30000000000)"
  have "get_state ''b1'' ?m = Some Open"
    by (simp add: cbm_run_def get_state_def cbm_call_breakers breaker_at_eq cbm_new_def record_failure_def
        failure_decide_def cb_new_def cb_state_def state_from_u64_def packed_simps Let_def unpack_pack
        del: cbm_call.simps)
  with manager_gauge_truthful [of 1 _ 30000000000 "''b1''" Open] show ?thesis
    by (simp add: STATE_OPEN_def)
qed

end
