(* ===== verification/Rate_Limiter.thy ===== *)
theory Rate_Limiter
  imports Agent_Types "HOL-Library.AList"
begin

text \<open>
  The token bucket rate limiter of \<open>control/src/proxy/rate_limiter.rs\<close>: the packed word with its
  16.16 fixed-point tokens and its 32-bit millisecond stamp, \<open>TokenBucket\<close> with its
  compare-and-swap loop, and the per-route \<open>RateLimiter\<close>. The bucket is related to an abstract
  one that counts in unbounded numbers, the number of admitted requests is bounded over every
  window of a history of calls, and the interleavings of concurrent calls are modelled as in the
  circuit breaker's theory.
\<close>

section \<open>The packed word\<close>

definition FIXED_SHIFT :: nat where "FIXED_SHIFT = 16"
definition FIXED_ONE :: u64 where "FIXED_ONE = push_bit FIXED_SHIFT 1"

definition float_to_fixed :: "f64 \<Rightarrow> u64" where
  "float_to_fixed f = f64_to_u64 (f64_mul f (f64_of_nat (unat FIXED_ONE)))"

definition fixed_to_float :: "u64 \<Rightarrow> f64" where
  "fixed_to_float fixed = f64_div (f64_of_nat (unat fixed)) (of_nat (unat FIXED_ONE))"

definition pack_bucket :: "u64 \<Rightarrow> u64 \<Rightarrow> u64" where
  "pack_bucket tokens_fixed refill_offset_ms =
     push_bit 32 tokens_fixed OR (refill_offset_ms AND 0xFFFFFFFF)"

definition unpack_tokens :: "u64 \<Rightarrow> u64" where
  "unpack_tokens packed = drop_bit 32 packed"

definition unpack_refill_offset :: "u64 \<Rightarrow> u64" where
  "unpack_refill_offset packed = packed AND 0xFFFFFFFF"

section \<open>One bucket\<close>

record TokenBucket =
  tb_packed :: u64
  capacity_fixed :: u64
  refill_rate_per_ms_fixed :: u64
  tb_created_at :: instant
  capacity_f64 :: f64

definition tb_new :: "f64 \<Rightarrow> u64 \<Rightarrow> instant \<Rightarrow> TokenBucket" where
  "tb_new rate burst now =
     (let clamped_burst = min burst 65535;
          capacity = f64_of_nat (unat clamped_burst);
          cap_fixed = float_to_fixed capacity;
          rate_fixed = float_to_fixed (f64_div rate 1000)
      in \<lparr>tb_packed = pack_bucket cap_fixed 0, capacity_fixed = cap_fixed,
          refill_rate_per_ms_fixed = rate_fixed, tb_created_at = now, capacity_f64 = capacity\<rparr>)"

text \<open>The milliseconds since the bucket's creation, cut to 32 bits.\<close>

definition now_ms_of :: "TokenBucket \<Rightarrow> instant \<Rightarrow> u64" where
  "now_ms_of b now = ucast (of_nat (as_millis (now - tb_created_at b)) :: u32)"

definition refilled :: "TokenBucket \<Rightarrow> u64 \<Rightarrow> u64 \<Rightarrow> u64" where
  "refilled b now_ms current =
     (let old_tokens = unpack_tokens current;
          old_refill_ms = unpack_refill_offset current;
          elapsed_ms = ucast ((ucast now_ms :: u32) - ucast old_refill_ms) :: u64;
          tokens_to_add = elapsed_ms * refill_rate_per_ms_fixed b
      in min (old_tokens + tokens_to_add) (capacity_fixed b))"

text \<open>
  One iteration of the loop of \<open>try_acquire_n\<close> on the word it loaded: \<open>Take\<close> swaps the new word
  in and admits the request, or starts over when the swap fails; \<open>Refuse\<close> tries the swap once
  and rejects the request either way.
\<close>

datatype attempt = Take u64 | Refuse u64

definition acquire_attempt :: "TokenBucket \<Rightarrow> u64 \<Rightarrow> u64 \<Rightarrow> u64 \<Rightarrow> attempt" where
  "acquire_attempt b n_fixed now_ms current =
     (let new_tokens = refilled b now_ms current
      in if new_tokens \<ge> n_fixed then Take (pack_bucket (new_tokens - n_fixed) now_ms)
         else Refuse (pack_bucket new_tokens now_ms))"

definition try_acquire_n :: "f64 \<Rightarrow> instant \<Rightarrow> TokenBucket \<Rightarrow> bool \<times> TokenBucket" where
  "try_acquire_n n now b =
     (if f64_le n (Fin 0) then (True, b)
      else case acquire_attempt b (float_to_fixed n) (now_ms_of b now) (tb_packed b) of
             Take new_packed \<Rightarrow> (True, b\<lparr>tb_packed := new_packed\<rparr>)
           | Refuse new_packed \<Rightarrow> (False, b\<lparr>tb_packed := new_packed\<rparr>))"

definition try_acquire :: "instant \<Rightarrow> TokenBucket \<Rightarrow> bool \<times> TokenBucket" where
  "try_acquire now b = try_acquire_n (Fin 1) now b"

definition tb_available_tokens :: "instant \<Rightarrow> TokenBucket \<Rightarrow> f64" where
  "tb_available_tokens now b =
     f64_min (fixed_to_float (refilled b (now_ms_of b now) (tb_packed b))) (capacity_f64 b)"

definition capacity :: "TokenBucket \<Rightarrow> f64" where
  "capacity b = capacity_f64 b"

definition refill_rate :: "TokenBucket \<Rightarrow> f64" where
  "refill_rate b = f64_mul (fixed_to_float (refill_rate_per_ms_fixed b)) (Fin 1000)"

section \<open>The per-route limiter\<close>

datatype rl_metric = RlRequests string string | RlTokens string int

record RateLimiter =
  buckets :: "(string \<times> TokenBucket) list"
  rl_metrics :: "rl_metric list"

definition rl_new :: RateLimiter where
  "rl_new = \<lparr>buckets = [], rl_metrics = []\<rparr>"

definition configure_route :: "string \<Rightarrow> f64 \<Rightarrow> u64 \<Rightarrow> instant \<Rightarrow> RateLimiter \<Rightarrow> RateLimiter" where
  "configure_route route rate burst now l =
     l\<lparr>buckets := AList.update route (tb_new rate burst now) (buckets l)\<rparr>"

text \<open>The clock is read by \<open>try_acquire\<close> and once more for the gauge.\<close>

definition check_rate_limit :: "instant \<Rightarrow> instant \<Rightarrow> string \<Rightarrow> RateLimiter \<Rightarrow> bool \<times> RateLimiter" where
  "check_rate_limit now later route l =
     (case map_of (buckets l) route of
        Some bucket \<Rightarrow>
          let (allowed, bucket') = try_acquire now bucket;
              tokens = tb_available_tokens later bucket'
          in (allowed,
              l\<lparr>buckets := AList.update route bucket' (buckets l),
                rl_metrics := rl_metrics l @
                  [RlRequests route (if allowed then ''allowed'' else ''rejected''),
                   RlTokens route (f64_to_i64 tokens)]\<rparr>)
      | None \<Rightarrow> (True, l\<lparr>rl_metrics := rl_metrics l @ [RlRequests route ''allowed'']\<rparr>))"

definition remove_route :: "string \<Rightarrow> RateLimiter \<Rightarrow> RateLimiter" where
  "remove_route route l = l\<lparr>buckets := AList.delete route (buckets l)\<rparr>"

definition rl_available_tokens :: "instant \<Rightarrow> string \<Rightarrow> RateLimiter \<Rightarrow> f64 option" where
  "rl_available_tokens now route l = map_option (tb_available_tokens now) (map_of (buckets l) route)"

definition rl_snapshot_all :: "instant \<Rightarrow> RateLimiter \<Rightarrow> RateLimiterSnapshot list" where
  "rl_snapshot_all now l =
     map (\<lambda>(route, b). \<lparr>rls_route = route, rls_tokens_available = tb_available_tokens now b,
       rls_capacity = capacity b, rls_refill_rate = refill_rate b\<rparr>) (buckets l)"

definition exhausted_count :: "instant \<Rightarrow> RateLimiter \<Rightarrow> nat" where
  "exhausted_count now l =
     length (filter (\<lambda>(_, b). f64_le (tb_available_tokens now b) (Fin 0)) (buckets l))"

section \<open>Packing and fixed point\<close>

lemma mask32: "(0xFFFFFFFF :: u64) = mask 32"
  by (simp add: mask_eq_exp_minus_1)

lemma unpack_pack_bucket [packed_simps]:
  "unpack_tokens (pack_bucket t r) = take_bit 32 t"
  "unpack_refill_offset (pack_bucket t r) = take_bit 32 r"
  unfolding unpack_tokens_def unpack_refill_offset_def pack_bucket_def mask32
  by (rule bit_word_eqI, auto simp: bit_simps)+

lemma take_bit32_id: "unat (w :: u64) < 2 ^ 32 \<Longrightarrow> take_bit 32 w = w"
  by (simp add: word_eq_iff_unsigned [where ?'a = nat] unsigned_take_bit_eq take_bit_nat_eq_self)

lemma ucast_down_up [simp]: "(ucast (ucast (w :: u32) :: u64) :: u32) = w"
  by (rule bit_word_eqI) (auto simp: bit_simps)

lemma FIXED_ONE_unat [simp]: "unat FIXED_ONE = 65536"
  by (simp add: FIXED_ONE_def FIXED_SHIFT_def)

lemma fixed_one_f64 [simp]: "f64_of_nat 65536 = Fin 65536"
  by (simp add: f64_of_nat_exact)

text \<open>Whole tokens are converted exactly.\<close>

lemma float_to_fixed_nat:
  assumes "n \<le> 65535" shows "float_to_fixed (Fin (of_nat n)) = of_nat (n * 65536)"
proof -
  have n: "n * 65536 < 2 ^ 53" using assms by simp
  have "f64_mul (Fin (of_nat n)) (f64_of_nat 65536) = f64_of_nat (n * 65536)"
    unfolding fixed_one_f64 by (simp add: f64_of_nat_def)
  also have "\<dots> = Fin (of_nat (n * 65536))" by (rule f64_of_nat_exact [OF n])
  finally have "f64_mul (Fin (of_nat n)) (f64_of_nat 65536) = Fin (of_nat (n * 65536))" .
  moreover have "(of_nat (n * 65536) :: rat) < 2 ^ 64"
    by (rule less_trans [OF of_nat_bound [OF n]]) simp
  moreover have "\<lfloor>of_nat (n * 65536) :: rat\<rfloor> = int (n * 65536)" by (rule floor_of_nat)
  ultimately show ?thesis
    by (simp add: float_to_fixed_def del: of_nat_mult)
qed

lemma float_to_fixed_one [simp]: "float_to_fixed (Fin 1) = 65536"
  using float_to_fixed_nat [of 1] by simp

lemma tb_new_capacity:
  "unat (capacity_fixed (tb_new rate burst now)) = min (unat burst) 65535 * 65536"
proof -
  let ?n = "unat (min burst 65535)"
  have n: "?n = min (unat burst) 65535" by (simp add: min_def word_le_nat_alt)
  then have "f64_of_nat ?n = Fin (of_nat ?n)" by (intro f64_of_nat_exact) simp
  then have "capacity_fixed (tb_new rate burst now) = of_nat (?n * 65536)"
    using n by (simp add: tb_new_def Let_def float_to_fixed_nat)
  moreover have "?n * 65536 < 2 ^ 64" using n by simp
  ultimately show ?thesis using n by (simp add: unat_of_nat del: of_nat_mult)
qed

section \<open>The abstract bucket\<close>

text \<open>
  The contract in unbounded numbers: a bucket holds \<open>tok\<close> tokens as of the millisecond \<open>last\<close>;
  a call at \<open>now\<close> first adds the rate for every millisecond passed, up to the capacity, and
  then takes its tokens if they are there.
\<close>

definition spec_refill :: "nat \<Rightarrow> nat \<Rightarrow> nat \<times> nat \<Rightarrow> nat \<Rightarrow> nat" where
  "spec_refill cap rate s now = min (fst s + (now - snd s) * rate) cap"

definition spec_acquire :: "nat \<Rightarrow> nat \<Rightarrow> nat \<Rightarrow> nat \<Rightarrow> nat \<times> nat \<Rightarrow> bool \<times> nat \<times> nat" where
  "spec_acquire cap rate n now s =
     (let t = spec_refill cap rate s now in if n \<le> t then (True, t - n, now) else (False, t, now))"

text \<open>
  The relation of a bucket with its abstract state; \<open>last\<close> counts the milliseconds since the
  bucket's creation, of which the word keeps the lower 32 bits. The rate fits 32 bits: less than
  65,536,000 tokens a second.
\<close>

definition tb_rel :: "TokenBucket \<Rightarrow> nat \<times> nat \<Rightarrow> bool" where
  "tb_rel b s \<longleftrightarrow>
     unat (unpack_tokens (tb_packed b)) = fst s \<and>
     unat (unpack_refill_offset (tb_packed b)) = snd s mod 2 ^ 32 \<and>
     fst s \<le> unat (capacity_fixed b) \<and> unat (capacity_fixed b) < 2 ^ 32 \<and>
     unat (refill_rate_per_ms_fixed b) < 2 ^ 32"

abbreviation cap_of :: "TokenBucket \<Rightarrow> nat" where
  "cap_of b \<equiv> unat (capacity_fixed b)"

abbreviation rate_of :: "TokenBucket \<Rightarrow> nat" where
  "rate_of b \<equiv> unat (refill_rate_per_ms_fixed b)"

abbreviation ms_of :: "TokenBucket \<Rightarrow> instant \<Rightarrow> nat" where
  "ms_of b now \<equiv> as_millis (now - tb_created_at b)"

lemma tb_new_rel:
  assumes "unat (refill_rate_per_ms_fixed (tb_new rate burst now)) < 2 ^ 32"
  shows "tb_rel (tb_new rate burst now) (min (unat burst) 65535 * 65536, 0)"
proof -
  have "cap_of (tb_new rate burst now) < 2 ^ 32" by (simp add: tb_new_capacity)
  then have "unpack_tokens (tb_packed (tb_new rate burst now)) = capacity_fixed (tb_new rate burst now)"
    "unpack_refill_offset (tb_packed (tb_new rate burst now)) = 0"
    by (simp_all add: tb_new_def Let_def packed_simps take_bit32_id)
  then show ?thesis using assms by (simp add: tb_rel_def tb_new_capacity)
qed

lemma refilled_abs:
  assumes rel: "tb_rel b s" and m: "snd s \<le> m" "m - snd s < 2 ^ 32"
  shows "unat (refilled b (ucast (of_nat m :: u32)) (tb_packed b)) = spec_refill (cap_of b) (rate_of b) s m"
proof -
  let ?d = "m - snd s" and ?old = "unpack_refill_offset (tb_packed b)"
  have "unat ?old < 2 ^ 32" using rel by (simp add: tb_rel_def)
  then have "(ucast ?old :: u32) = of_nat (snd s)"
    using rel by (simp add: tb_rel_def word_eq_iff_unsigned [where ?'a = nat] unsigned_ucast_eq
        take_bit_nat_eq_self unat_of_nat)
  then have diff: "(ucast (ucast (of_nat m :: u32) :: u64) :: u32) - ucast ?old = of_nat ?d"
    using m by (simp add: of_nat_diff)
  have el: "unat (ucast ((ucast (ucast (of_nat m :: u32) :: u64) :: u32) - ucast ?old) :: u64) = ?d"
    unfolding diff unat_ucast_u32 unat_of_nat using m by simp
  have le: "?d * rate_of b \<le> (2 ^ 32 - 1) * (2 ^ 32 - 1)"
    using m rel by (intro mult_mono) (auto simp: tb_rel_def)
  then have add: "unat (ucast ((ucast (ucast (of_nat m :: u32) :: u64) :: u32) - ucast ?old)
      * refill_rate_per_ms_fixed b) = ?d * rate_of b"
    unfolding unat_word_ariths(2) el by (subst mod_less) simp_all
  have "fst s + ?d * rate_of b < 2 ^ 64" using le rel by (simp add: tb_rel_def)
  then have sum: "unat (unpack_tokens (tb_packed b) + ucast ((ucast (ucast (of_nat m :: u32) :: u64) :: u32)
      - ucast ?old) * refill_rate_per_ms_fixed b) = fst s + ?d * rate_of b"
    using rel add by (simp add: unat_word_ariths(1) tb_rel_def)
  show ?thesis
    unfolding refilled_def Let_def spec_refill_def min_def word_le_nat_alt if_distrib [of unat] sum ..
qed

lemma tb_rel_swap:
  assumes "tb_rel b s" "unat t \<le> cap_of b"
  shows "tb_rel (b\<lparr>tb_packed := pack_bucket t (ucast (of_nat m :: u32))\<rparr>) (unat t, m)"
proof -
  have "unat t < 2 ^ 32" using assms by (simp add: tb_rel_def)
  moreover have "unat (ucast (of_nat m :: u32) :: u64) = m mod 2 ^ 32" by (simp add: unat_of_nat)
  moreover have "m mod 2 ^ 32 < 2 ^ 32" by simp
  ultimately show ?thesis using assms by (simp add: tb_rel_def packed_simps take_bit32_id)
qed

lemma try_acquire_n_abs:
  assumes rel: "tb_rel b s" and time: "snd s \<le> ms_of b now" "ms_of b now - snd s < 2 ^ 32"
    and pos: "\<not> f64_le n (Fin 0)"
  shows "fst (try_acquire_n n now b) =
      fst (spec_acquire (cap_of b) (rate_of b) (unat (float_to_fixed n)) (ms_of b now) s) \<and>
    tb_rel (snd (try_acquire_n n now b))
      (snd (spec_acquire (cap_of b) (rate_of b) (unat (float_to_fixed n)) (ms_of b now) s))"
proof -
  let ?n = "float_to_fixed n" and ?t = "refilled b (now_ms_of b now) (tb_packed b)"
  have t: "unat ?t = spec_refill (cap_of b) (rate_of b) s (ms_of b now)"
    using refilled_abs [OF rel time] by (simp add: now_ms_of_def)
  then have le: "unat ?t \<le> cap_of b" by (simp add: spec_refill_def)
  have "unat (?t - ?n) = unat ?t - unat ?n" if "?n \<le> ?t" using that by (rule unat_sub)
  moreover have "tb_rel (b\<lparr>tb_packed := pack_bucket (?t - ?n) (now_ms_of b now)\<rparr>) (unat (?t - ?n), ms_of b now)"
    if "?n \<le> ?t"
    using that le tb_rel_swap [OF rel, of "?t - ?n" "ms_of b now"] by (simp add: unat_sub now_ms_of_def)
  moreover have "tb_rel (b\<lparr>tb_packed := pack_bucket ?t (now_ms_of b now)\<rparr>) (unat ?t, ms_of b now)"
    unfolding now_ms_of_def by (rule tb_rel_swap [OF rel le [unfolded now_ms_of_def]])
  ultimately show ?thesis
    using pos t by (simp add: try_acquire_n_def acquire_attempt_def spec_acquire_def Let_def word_le_nat_alt)
qed

section \<open>Histories of calls\<close>

text \<open>The answers of \<open>try_acquire\<close> called at the given times, and the bucket after them.\<close>

fun try_acquires :: "instant list \<Rightarrow> TokenBucket \<Rightarrow> bool list \<times> TokenBucket" where
  "try_acquires [] b = ([], b)"
| "try_acquires (t # ts) b =
     (let (a, b') = try_acquire t b; (as, b'') = try_acquires ts b' in (a # as, b''))"

text \<open>Calls in the order of the clock, each less than \<open>2 ^ 32\<close> ms after the one before.\<close>

fun timely :: "instant \<Rightarrow> nat \<Rightarrow> instant list \<Rightarrow> bool" where
  "timely c last_ms [] = True"
| "timely c last_ms (t # ts) =
     (last_ms \<le> as_millis (t - c) \<and> as_millis (t - c) - last_ms < 2 ^ 32 \<and> timely c (as_millis (t - c)) ts)"

fun end_ms :: "instant \<Rightarrow> nat \<Rightarrow> instant list \<Rightarrow> nat" where
  "end_ms c last_ms [] = last_ms"
| "end_ms c last_ms (t # ts) = end_ms c (as_millis (t - c)) ts"

definition admissions :: "bool list \<Rightarrow> nat" where
  "admissions as = length (filter id as)"

lemma timely_end: "timely c l ts \<Longrightarrow> l \<le> end_ms c l ts"
  by (induction ts arbitrary: l) (auto intro: le_trans)

lemma timely_append: "timely c l (us @ vs) \<longleftrightarrow> timely c l us \<and> timely c (end_ms c l us) vs"
  by (induction us arbitrary: l) auto

lemma end_ms_append: "end_ms c l (us @ vs) = end_ms c (end_ms c l us) vs"
  by (induction us arbitrary: l) auto

lemma try_acquires_append:
  "try_acquires (us @ vs) b =
     (let (as, b') = try_acquires us b; (bs, b'') = try_acquires vs b' in (as @ bs, b''))"
  by (induction us arbitrary: b) (auto simp: Let_def split: prod.splits)

lemma try_acquires_length [simp]: "length (fst (try_acquires ts b)) = length ts"
  by (induction ts arbitrary: b) (simp_all add: case_prod_beta)

lemma try_acquire_config [simp]:
  "capacity_fixed (snd (try_acquire t b)) = capacity_fixed b"
  "refill_rate_per_ms_fixed (snd (try_acquire t b)) = refill_rate_per_ms_fixed b"
  "tb_created_at (snd (try_acquire t b)) = tb_created_at b"
  by (auto simp: try_acquire_def try_acquire_n_def split: attempt.split)

lemma spec_acquire_tokens:
  "spec_acquire cap rate n now s = (ok, s') \<Longrightarrow>
     snd s' = now \<and> fst s' + (if ok then n else 0) \<le> fst s + (now - snd s) * rate"
  by (auto simp: spec_acquire_def spec_refill_def Let_def split: if_splits)

text \<open>The tokens that leave a bucket were in it or have been added since.\<close>

lemma try_acquires_tokens:
  assumes "tb_rel b s" "timely (tb_created_at b) (snd s) ts"
  shows "\<exists>tok. tb_rel (snd (try_acquires ts b)) (tok, end_ms (tb_created_at b) (snd s) ts) \<and>
    65536 * admissions (fst (try_acquires ts b)) + tok \<le>
      fst s + (end_ms (tb_created_at b) (snd s) ts - snd s) * rate_of b \<and>
    rate_of (snd (try_acquires ts b)) = rate_of b \<and> cap_of (snd (try_acquires ts b)) = cap_of b \<and>
    tb_created_at (snd (try_acquires ts b)) = tb_created_at b"
  using assms
proof (induction ts arbitrary: b s)
  case Nil
  then show ?case by (intro exI [of _ "fst s"]) (simp add: admissions_def)
next
  case (Cons t ts)
  let ?c = "tb_created_at b" and ?m = "ms_of b t"
  obtain a b1 where a: "try_acquire t b = (a, b1)" by (cases "try_acquire t b")
  obtain ok s1 where s1: "spec_acquire (cap_of b) (rate_of b) 65536 ?m s = (ok, s1)" by (metis prod.exhaust)
  have time: "snd s \<le> ?m" "?m - snd s < 2 ^ 32" "timely ?c ?m ts" using Cons.prems by simp_all
  have ok: "ok = a" and rel: "tb_rel b1 s1"
    using try_acquire_n_abs [OF Cons.prems(1) time(1,2), of "Fin 1"] s1 a by (simp_all add: try_acquire_def)
  have tok: "snd s1 = ?m" "fst s1 + (if a then 65536 else 0) \<le> fst s + (?m - snd s) * rate_of b"
    using spec_acquire_tokens [OF s1] ok by simp_all
  have conf: "rate_of b1 = rate_of b" "cap_of b1 = cap_of b" "tb_created_at b1 = ?c"
    using try_acquire_config [of t b] a by simp_all
  let ?e = "end_ms ?c ?m ts"
  obtain tk where tk: "tb_rel (snd (try_acquires ts b1)) (tk, ?e)"
    "65536 * admissions (fst (try_acquires ts b1)) + tk \<le> fst s1 + (?e - ?m) * rate_of b"
    "rate_of (snd (try_acquires ts b1)) = rate_of b" "cap_of (snd (try_acquires ts b1)) = cap_of b"
    "tb_created_at (snd (try_acquires ts b1)) = ?c"
    using Cons.IH [OF rel] time tok conf by auto
  have "(?m - snd s) * rate_of b + (?e - ?m) * rate_of b = (?e - snd s) * rate_of b"
    using time timely_end [OF time(3)] by (simp flip: add_mult_distrib)
  then have "65536 * admissions (a # fst (try_acquires ts b1)) + tk \<le> fst s + (?e - snd s) * rate_of b"
    using tok(2) tk(2) by (cases a) (simp_all add: admissions_def)
  then show ?case using tk by (auto simp: a Let_def case_prod_beta)
qed

text \<open>The tokens admitted by the calls of a window of a history.\<close>

lemma window_tokens:
  assumes "tb_rel b s" "timely (tb_created_at b) (snd s) (us @ vs)"
  shows "65536 * admissions (drop (length us) (fst (try_acquires (us @ vs) b))) \<le>
    cap_of b + (end_ms (tb_created_at b) (snd s) (us @ vs) - end_ms (tb_created_at b) (snd s) us) * rate_of b"
proof -
  let ?c = "tb_created_at b" and ?b = "snd (try_acquires us b)"
  have time: "timely ?c (snd s) us" "timely ?c (end_ms ?c (snd s) us) vs"
    using assms(2) by (simp_all add: timely_append)
  obtain tok where tok: "tb_rel ?b (tok, end_ms ?c (snd s) us)" "rate_of ?b = rate_of b"
    "cap_of ?b = cap_of b" "tb_created_at ?b = ?c"
    using try_acquires_tokens [OF assms(1) time(1)] by blast
  have "drop (length us) (fst (try_acquires (us @ vs) b)) = fst (try_acquires vs ?b)"
    by (simp add: try_acquires_append case_prod_beta)
  then show ?thesis
    using try_acquires_tokens [OF tok(1), of vs] time(2) tok
    by (auto simp: end_ms_append tb_rel_def)
qed

section \<open>The configured rate\<close>

text \<open>
  The refill rate is computed in doubles; for a whole number of requests per second the rounding
  does not show: it is \<open>rate * 65536 / 1000\<close>, rounded down.
\<close>

lemma f64_positive_close:
  assumes "1 / 2 ^ 20 \<le> q" "q \<le> 2 ^ 33"
  shows "f64_round q = Fin (f64_nearest q)" "\<bar>f64_nearest q - q\<bar> \<le> q / 2 ^ 53"
proof -
  have "(2 :: rat) powi (-1022) \<le> 2 powi (-20)" by (rule power_int_increasing) simp_all
  also have "\<dots> \<le> \<bar>q\<bar>" using assms by (simp add: power_int_minus)
  finally show close: "\<bar>f64_nearest q - q\<bar> \<le> q / 2 ^ 53"
    using f64_nearest_relative [of q] assms by simp
  have "(2 :: rat) ^ 34 < 2 ^ 1024" by (rule power_strict_increasing) simp_all
  then show "f64_round q = Fin (f64_nearest q)"
    using close assms by (intro f64_round_fin) (simp add: abs_if split: if_splits)
qed

lemma f64_to_u64_between:
  "of_nat k \<le> q \<Longrightarrow> q < of_nat (Suc k) \<Longrightarrow> Suc k < 2 ^ 63 \<Longrightarrow> f64_to_u64 (Fin q) = of_nat k"
proof -
  assume q: "of_nat k \<le> q" "q < of_nat (Suc k)" and k: "Suc k < 2 ^ 63"
  have "q < 2 ^ 63" using q(2) of_nat_bound [OF k] by simp
  moreover have "\<lfloor>q\<rfloor> = int k" using q by (simp add: floor_eq_iff add.commute)
  ultimately show ?thesis using q(1) of_nat_0_le_iff [of k, where ?'a = rat] by auto
qed

lemma rate_fixed_fraction:
  assumes "r \<le> 65000000" "r * 8192 mod 125 \<noteq> 0"
  shows "float_to_fixed (f64_div (Fin (of_nat r)) 1000) = of_nat (r * 8192 div 125)"
proof -
  define k f where "k = r * 8192 div 125" and "f = r * 8192 mod 125"
  have split: "r * 8192 = 125 * k + f" by (simp add: k_def f_def)
  then have split': "of_nat r * 8192 = 125 * (of_nat k :: rat) + of_nat f"
    by (metis of_nat_add of_nat_mult of_nat_numeral)
  have f: "1 \<le> f" "f \<le> 124" using assms(2) mod_less_divisor [of 125 "r * 8192"] by (simp_all add: f_def)
  have fr: "(1 :: rat) \<le> of_nat f" "(of_nat f :: rat) \<le> 124" using f by simp_all
  have r: "(1 :: rat) \<le> of_nat r" "(of_nat r :: rat) \<le> 65000000"
    using assms by (cases r, simp_all)
  define q N where "q = (of_nat r / 1000 :: rat)" and "N = (of_nat k + of_nat f / 125 :: rat)"
  have N: "q * 65536 = N" "0 \<le> N" "N \<le> 2 ^ 32" using split' r by (simp_all add: q_def N_def)
  let ?v = "f64_nearest q" and ?w = "f64_nearest (f64_nearest q * 65536)"
  have v: "f64_round q = Fin ?v" "\<bar>?v - q\<bar> \<le> q / 2 ^ 53"
    using f64_positive_close [of q] r by (simp_all add: q_def)
  then have vN: "\<bar>?v * 65536 - N\<bar> \<le> 1 / 1000" using N by (simp add: abs_if split: if_splits)
  have "65 \<le> N" using r N(1) by (simp add: q_def)
  then have w: "f64_round (?v * 65536) = Fin ?w" "\<bar>?w - ?v * 65536\<bar> \<le> ?v * 65536 / 2 ^ 53"
    using f64_positive_close [of "?v * 65536"] vN N by (simp_all add: abs_if split: if_splits)
  have "\<bar>?w - N\<bar> \<le> 1 / 500" using w(2) vN N by (simp add: abs_if split: if_splits)
  then have "of_nat k \<le> ?w" "?w < of_nat (Suc k)" using fr by (simp_all add: N_def abs_if split: if_splits)
  moreover have "Suc k < 2 ^ 63" using assms(1) by (simp add: k_def)
  ultimately have k: "f64_to_u64 (Fin ?w) = of_nat k" by (rule f64_to_u64_between)
  have "f64_div (Fin (of_nat r)) 1000 = Fin ?v" unfolding v(1) [symmetric] by (simp add: q_def)
  then show ?thesis
    by (simp only: float_to_fixed_def FIXED_ONE_unat fixed_one_f64 f64_mul.simps w(1) k flip: k_def)
qed

lemma rate_fixed:
  assumes "r \<le> 65000000"
  shows "float_to_fixed (f64_div (Fin (of_nat r)) 1000) = of_nat (r * 8192 div 125)"
proof (cases "r * 8192 mod 125 = 0")
  case True
  then have "125 dvd r * 8192 * 28" by (simp only: dvd_mult2 mod_eq_0_iff_dvd)
  also have "r * 8192 * 28 = 125 * (1835 * r) + r" by simp
  finally have "125 dvd r" by (simp only: dvd_add_right_iff dvd_triv_left)
  then obtain m where m: "r = 125 * m" by (rule dvdE)
  let ?q = "of_nat m / 8 :: rat"
  have "f64_nearest ?q = ?q"
    by (rule f64_nearest_representable [of _ "int m" "-3"]) (use assms m in \<open>simp_all add: power_int_minus\<close>)
  moreover have "(of_nat m :: rat) < 2 ^ 53" using assms m by (intro of_nat_bound) simp
  moreover have "(2 :: rat) ^ 53 < 2 ^ 1024" by (rule power_strict_increasing) simp_all
  ultimately have "f64_round ?q = Fin ?q" by (subst f64_round_fin) simp_all
  moreover have "f64_round (?q * 65536) = Fin (of_nat (m * 8192))"
    using f64_of_nat_exact [of "m * 8192"] assms m by (simp add: f64_of_nat_def mult.commute)
  moreover have "f64_to_u64 (Fin (of_nat (m * 8192))) = of_nat (m * 8192)"
    using assms m by (intro f64_to_u64_between) simp_all
  ultimately show ?thesis by (simp add: m float_to_fixed_def mult.commute)
qed (use assms rate_fixed_fraction in blast)

lemma per_second:
  fixes a B T r :: nat
  assumes "65536 * a \<le> B * 65536 + T * (r * 8192 div 125)"
  shows "1000 * a \<le> 1000 * B + r * T"
proof -
  have "T * (125 * (r * 8192 div 125)) \<le> T * (r * 8192)" by (rule mult_le_mono2) simp
  then have "125 * (T * (r * 8192 div 125)) \<le> 8192 * (r * T)" by (simp only: mult.left_commute mult.commute)
  with assms show ?thesis by linarith
qed

text \<open>
  For any rate the two roundings raise the refill rate by at most one part in \<open>2 ^ 51\<close>; a rate
  below one request in a thousand seconds refills nothing.
\<close>

lemma f64_to_u64_le:
  "0 \<le> q \<Longrightarrow> q < 2 ^ 64 \<Longrightarrow> of_nat (unat (f64_to_u64 (Fin q))) \<le> q"
proof -
  assume q: "0 \<le> q" "q < 2 ^ 64"
  then have fl: "0 \<le> \<lfloor>q\<rfloor>" "\<lfloor>q\<rfloor> < 2 ^ 64" by (simp_all add: floor_less_iff)
  have "int (unat (of_int \<lfloor>q\<rfloor> :: u64)) = \<lfloor>q\<rfloor>" using fl by (simp add: uint_word_of_int)
  then have "(of_nat (unat (of_int \<lfloor>q\<rfloor> :: u64)) :: rat) = of_int \<lfloor>q\<rfloor>"
    by (metis of_int_of_nat_eq)
  moreover have "f64_to_u64 (Fin q) = of_int \<lfloor>q\<rfloor>" using q by simp
  ultimately show ?thesis by simp
qed

lemma small_rate_fixed:
  assumes "0 \<le> q" "q \<le> 1 / 1000"
  shows "unat (float_to_fixed (f64_div (Fin q) 1000)) = 0"
proof -
  let ?v = "f64_nearest (q / 1000)" and ?w = "f64_nearest (f64_nearest (q / 1000) * 65536)"
  have big: "(1 :: rat) < 2 ^ 1024" by simp
  have v: "0 \<le> ?v" "?v \<le> 2 powi (-19)"
    using assms f64_nearest_nonneg [of "q / 1000"] f64_nearest_le_power [of "q / 1000" "-19"]
    by (simp_all add: power_int_minus)
  then have w: "0 \<le> ?w" "?w \<le> 2 powi (-3)"
    using f64_nearest_nonneg [of "?v * 65536"] f64_nearest_le_power [of "?v * 65536" "-3"]
    by (simp_all add: power_int_minus)
  have fv: "f64_round (q / 1000) = Fin ?v"
    using v big by (intro f64_round_fin) (simp add: power_int_minus)
  have fw: "f64_round (?v * 65536) = Fin ?w"
    using w big by (intro f64_round_fin) (simp add: power_int_minus)
  have "\<lfloor>?w\<rfloor> = 0" using w by (simp add: floor_eq_iff power_int_minus)
  then have "f64_to_u64 (Fin ?w) = 0" using w by (simp add: power_int_minus)
  then show ?thesis by (simp add: float_to_fixed_def fv fw)
qed

lemma rate_fixed_le:
  assumes "0 \<le> q" "q \<le> 65000000"
  shows "of_nat (unat (float_to_fixed (f64_div (Fin q) 1000))) \<le> q * (1 + 1 / 2 ^ 51) * 65536 / 1000"
proof (cases "q \<le> 1 / 1000")
  case True
  then show ?thesis using assms small_rate_fixed [OF assms(1)] by simp
next
  case False
  let ?v = "f64_nearest (q / 1000)" and ?w = "f64_nearest (f64_nearest (q / 1000) * 65536)"
  have v: "f64_round (q / 1000) = Fin ?v" "\<bar>?v - q / 1000\<bar> \<le> q / 1000 / 2 ^ 53"
    using f64_positive_close [of "q / 1000"] assms False by simp_all
  then have vb: "1 / 2 ^ 20 \<le> ?v * 65536" "?v * 65536 \<le> 2 ^ 33"
    using assms False by (simp_all add: abs_if split: if_splits)
  then have w: "f64_round (?v * 65536) = Fin ?w" "\<bar>?w - ?v * 65536\<bar> \<le> ?v * 65536 / 2 ^ 53"
    using f64_positive_close [of "?v * 65536"] by simp_all
  have "?w \<le> q * (1 + 1 / 2 ^ 51) * 65536 / 1000" "0 \<le> ?w" "?w < 2 ^ 64"
    using v(2) w(2) vb assms False by (simp_all add: abs_if field_simps split: if_splits)
  moreover have "float_to_fixed (f64_div (Fin q) 1000) = f64_to_u64 (Fin ?w)"
    by (simp add: float_to_fixed_def v(1) w(1) del: f64_to_u64.simps)
  ultimately show ?thesis using f64_to_u64_le [of ?w] by (simp del: f64_to_u64.simps)
qed

lemma per_second_rat:
  fixes q c :: rat and a B T k :: nat
  assumes "65536 * a \<le> B * 65536 + T * k" "of_nat k \<le> q * c * 65536 / 1000"
  shows "1000 * of_nat a \<le> 1000 * of_nat B + q * c * of_nat T"
proof -
  have "of_nat (65536 * a) \<le> (of_nat (B * 65536 + T * k) :: rat)" using assms(1) by (simp only: of_nat_le_iff)
  also have "\<dots> \<le> of_nat B * 65536 + of_nat T * (q * c * 65536 / 1000)"
    using mult_left_mono [OF assms(2), of "of_nat T"] by simp
  finally show ?thesis by (simp add: field_simps)
qed

section \<open>Properties\<close>

text \<open>
  C10: A bucket is the abstract token bucket: at every call that comes less than 49.7 days after the
  last one, the request is admitted exactly when the refilled tokens, capped at the capacity,
  cover it, and the bucket then holds what the abstract one holds. The 32-bit stamp wraps
  without effect.
\<close>

theorem bucket_refines:
  assumes "tb_rel b s" "snd s \<le> ms_of b now" "ms_of b now - snd s < 2 ^ 32" "\<not> f64_le n (Fin 0)"
  shows "fst (try_acquire_n n now b) =
      fst (spec_acquire (cap_of b) (rate_of b) (unat (float_to_fixed n)) (ms_of b now) s) \<and>
    tb_rel (snd (try_acquire_n n now b))
      (snd (spec_acquire (cap_of b) (rate_of b) (unat (float_to_fixed n)) (ms_of b now) s))"
  using assms by (rule try_acquire_n_abs)

lemma tb_new_rate [simp]:
  "refill_rate_per_ms_fixed (tb_new rate burst now) = float_to_fixed (f64_div rate 1000)"
  "tb_created_at (tb_new rate burst now) = now"
  by (simp_all add: tb_new_def Let_def)

lemma tb_new_whole_rate:
  assumes "r \<le> 65000000"
  shows "rate_of (tb_new (Fin (of_nat r)) burst t0) = r * 8192 div 125"
    "tb_rel (tb_new (Fin (of_nat r)) burst t0) (min (unat burst) 65535 * 65536, 0)"
proof -
  show rate: "rate_of (tb_new (Fin (of_nat r)) burst t0) = r * 8192 div 125"
    unfolding tb_new_rate rate_fixed [OF assms] unat_of_nat using assms by simp
  have "r * 8192 div 125 < 2 ^ 32" using assms by simp
  then show "tb_rel (tb_new (Fin (of_nat r)) burst t0) (min (unat burst) 65535 * 65536, 0)"
    by (intro tb_new_rel) (simp only: rate)
qed

theorem bucket_refines_witness:
  "fst (try_acquire_n (Fin 1) 7000000 (tb_new (Fin 100) 2 0)) \<and>
   tb_rel (snd (try_acquire_n (Fin 1) 7000000 (tb_new (Fin 100) 2 0))) (65536, 7)"
proof -
  have "cap_of (tb_new (Fin 100) 2 0) = 131072" by (simp add: tb_new_capacity)
  with bucket_refines [OF tb_new_whole_rate(2) [of 100 2 0], of 7000000 "Fin 1"] show ?thesis
    by (simp add: spec_acquire_def spec_refill_def Let_def)
qed

lemma tb_new_any_rate:
  assumes "0 \<le> q" "q \<le> 65000000"
  shows "tb_rel (tb_new (Fin q) burst t0) (min (unat burst) 65535 * 65536, 0)"
proof -
  have "of_nat (rate_of (tb_new (Fin q) burst t0)) < (of_nat (2 ^ 32) :: rat)"
    using rate_fixed_le [OF assms] assms by simp
  then show ?thesis by (intro tb_new_rel) (simp only: of_nat_less_iff)
qed

text \<open>
  C2: The limit is enforced for calls one after the other: let a bucket be created for any finite
  rate \<open>q\<close> between 0 and 65,000,000 requests a second, fractions included, and any burst, and let
  it be called at times that do not run backwards and are less than 49.7 days apart, no call
  overlapping another. Then the calls of any window of this history admit at most the burst
  (capped at 65535) plus \<open>q\<close> requests for every second from the call before the window to its last
  call. The factor \<open>1 + 2 ^ -51\<close> is the most that the two roundings of the double
  \<open>rate / 1000 * 65536\<close> can add to the rate. Calls that overlap can read the clock before and swap
  after one another; \<open>stale_clock_overadmits\<close> below shows that the bound does not extend to them.
\<close>

theorem rate_limit_enforced:
  assumes "0 \<le> q" "q \<le> 65000000" "timely t0 0 (us @ vs)"
  shows "1000 * of_nat (admissions (drop (length us) (fst (try_acquires (us @ vs) (tb_new (Fin q) burst t0))))) \<le>
    1000 * of_nat (min (unat burst) 65535) +
    q * (1 + 1 / 2 ^ 51) * (of_nat (end_ms t0 0 (us @ vs) - end_ms t0 0 us) :: rat)"
proof (rule per_second_rat)
  let ?b = "tb_new (Fin q) burst t0"
  show "65536 * admissions (drop (length us) (fst (try_acquires (us @ vs) ?b))) \<le>
      min (unat burst) 65535 * 65536 + (end_ms t0 0 (us @ vs) - end_ms t0 0 us) * rate_of ?b"
    using window_tokens [OF tb_new_any_rate [OF assms(1,2), of burst t0], of us vs] assms(3)
    by (simp add: tb_new_capacity)
  show "of_nat (rate_of ?b) \<le> q * (1 + 1 / 2 ^ 51) * 65536 / 1000"
    using rate_fixed_le [OF assms(1,2)] by simp
qed

theorem rate_limit_enforced_witness:
  "1000 * of_nat (admissions (fst (try_acquires [0, 1000000, 2000000] (tb_new (Fin (5 / 2)) 2 0)))) \<le>
     1000 * of_nat (min (unat (2 :: u64)) 65535) + 5 / 2 * (1 + 1 / 2 ^ 51) * (2 :: rat)"
proof -
  have "timely 0 0 ([] @ [0, 1000000, 2000000])" by simp
  from rate_limit_enforced [of "5 / 2", OF _ _ this, of 2] show ?thesis by simp
qed

text \<open>For a whole number of requests a second the roundings add nothing.\<close>

theorem whole_rate_enforced:
  assumes "r \<le> 65000000" "timely t0 0 (us @ vs)"
  shows "1000 * admissions (drop (length us) (fst (try_acquires (us @ vs) (tb_new (Fin (of_nat r)) burst t0)))) \<le>
    1000 * min (unat burst) 65535 + r * (end_ms t0 0 (us @ vs) - end_ms t0 0 us)"
proof (rule per_second)
  show "65536 * admissions (drop (length us) (fst (try_acquires (us @ vs) (tb_new (Fin (of_nat r)) burst t0)))) \<le>
    min (unat burst) 65535 * 65536 + (end_ms t0 0 (us @ vs) - end_ms t0 0 us) * (r * 8192 div 125)"
    using window_tokens [OF tb_new_whole_rate(2) [OF assms(1), of burst t0], of us vs] assms(2)
    by (simp add: tb_new_capacity tb_new_whole_rate(1) [OF assms(1)] del: tb_new_rate(1))
qed

text \<open>
  No starvation: if the bucket has room for a token, then a request that comes after one token's
  refill time is admitted, whatever happened before.
\<close>

theorem refilled_bucket_admits:
  assumes "tb_rel b s" "snd s \<le> ms_of b now" "ms_of b now - snd s < 2 ^ 32"
    and "65536 \<le> cap_of b" "65536 \<le> (ms_of b now - snd s) * rate_of b"
  shows "fst (try_acquire now b)"
  using try_acquire_n_abs [OF assms(1-3), of "Fin 1"] assms(4,5)
  by (simp add: try_acquire_def spec_acquire_def spec_refill_def Let_def)

theorem refilled_bucket_admits_witness:
  "fst (try_acquire 1100000000 (snd (try_acquires [0, 0, 0] (tb_new (Fin 1) 1 0))))"
proof -
  let ?b = "tb_new (Fin 1) 1 0"
  have b: "tb_rel ?b (65536, 0)" "rate_of ?b = 65" using tb_new_whole_rate [of 1 1 0] by simp_all
  obtain tok where "tb_rel (snd (try_acquires [0, 0, 0] ?b)) (tok, 0)"
    "rate_of (snd (try_acquires [0, 0, 0] ?b)) = 65" "cap_of (snd (try_acquires [0, 0, 0] ?b)) = 65536"
    "tb_created_at (snd (try_acquires [0, 0, 0] ?b)) = 0"
    using try_acquires_tokens [OF b(1), of "[0, 0, 0]"] b(2) tb_new_capacity [of "Fin 1" 1 0]
    by (auto simp del: tb_new_rate(1))
  then show ?thesis by (intro refilled_bucket_admits) (auto simp del: try_acquires.simps)
qed

section \<open>Interleavings\<close>

text \<open>
  Concurrent calls of \<open>try_acquire\<close> on one bucket, by their atomic actions. A call first reads the
  clock, once; its loop then loads the word and tries to swap the new word in. A swap fails when
  the word has changed, and may fail without a reason (\<open>ok = False\<close>).
\<close>

datatype tb_pc = TbIdle | TbLoop u64 | TbSwap u64 u64

record tb_world =
  tw_bucket :: TokenBucket
  tw_clock :: instant
  tw_pc :: "nat \<Rightarrow> tb_pc"
  tw_admitted :: nat

definition tb_goto :: "nat \<Rightarrow> tb_pc \<Rightarrow> tb_world \<Rightarrow> tb_world" where
  "tb_goto i pc w = w\<lparr>tw_pc := (tw_pc w)(i := pc)\<rparr>"

definition tb_store :: "u64 \<Rightarrow> tb_world \<Rightarrow> tb_world" where
  "tb_store new w = w\<lparr>tw_bucket := (tw_bucket w)\<lparr>tb_packed := new\<rparr>\<rparr>"

definition tb_thread_step :: "nat \<Rightarrow> bool \<Rightarrow> tb_world \<Rightarrow> tb_world" where
  "tb_thread_step i ok w =
     (case tw_pc w i of
        TbIdle \<Rightarrow> tb_goto i (TbLoop (now_ms_of (tw_bucket w) (tw_clock w))) w
      | TbLoop now_ms \<Rightarrow> tb_goto i (TbSwap now_ms (tb_packed (tw_bucket w))) w
      | TbSwap now_ms current \<Rightarrow>
          let swapped = ok \<and> tb_packed (tw_bucket w) = current in
          (case acquire_attempt (tw_bucket w) (float_to_fixed (Fin 1)) now_ms current of
             Take new \<Rightarrow>
               if swapped then tb_goto i TbIdle (tb_store new w)\<lparr>tw_admitted := tw_admitted w + 1\<rparr>
               else tb_goto i (TbLoop now_ms) w
           | Refuse new \<Rightarrow>
               if swapped then tb_goto i TbIdle (tb_store new w) else tb_goto i TbIdle w))"

inductive tb_reach :: "tb_world \<Rightarrow> tb_world \<Rightarrow> bool" for w0 where
  start: "tb_reach w0 w0"
| run: "tb_reach w0 w \<Longrightarrow> tb_reach w0 (tb_thread_step i ok w)"
| tick: "tb_reach w0 w \<Longrightarrow> tb_reach w0 (w\<lparr>tw_clock := tw_clock w + d\<rparr>)"

definition tb_init :: "f64 \<Rightarrow> u64 \<Rightarrow> instant \<Rightarrow> tb_world" where
  "tb_init rate burst now =
     \<lparr>tw_bucket = tb_new rate burst now, tw_clock = now, tw_pc = (\<lambda>_. TbIdle), tw_admitted = 0\<rparr>"

definition tokens_within :: "TokenBucket \<Rightarrow> bool" where
  "tokens_within b \<longleftrightarrow> unpack_tokens (tb_packed b) \<le> capacity_fixed b \<and> cap_of b < 2 ^ 32"

lemma tb_world_simps [simp]:
  "tw_bucket (tb_goto i pc w) = tw_bucket w" "tw_admitted (tb_goto i pc w) = tw_admitted w"
  "tw_bucket (tb_store new w) = (tw_bucket w)\<lparr>tb_packed := new\<rparr>" "tw_pc (tb_store new w) = tw_pc w"
  "tw_clock (tb_goto i pc w) = tw_clock w" "tw_clock (tb_store new w) = tw_clock w"
  by (simp_all add: tb_goto_def tb_store_def)

lemma refilled_le: "refilled b m c \<le> capacity_fixed b"
  by (simp add: refilled_def Let_def)

lemma attempt_within:
  assumes "cap_of b < 2 ^ 32"
  shows "acquire_attempt b n m c = Take new \<or> acquire_attempt b n m c = Refuse new \<Longrightarrow>
    unpack_tokens new \<le> capacity_fixed b"
proof -
  let ?t = "refilled b m c"
  have t: "unat ?t \<le> cap_of b" using refilled_le [of b m c] by (simp add: word_le_nat_alt)
  moreover have "unat (?t - n) \<le> unat ?t" if "n \<le> ?t" using that by (simp add: unat_sub)
  ultimately show "unpack_tokens new \<le> capacity_fixed b"
    if "acquire_attempt b n m c = Take new \<or> acquire_attempt b n m c = Refuse new"
    using that assms
    by (auto simp: acquire_attempt_def Let_def packed_simps take_bit32_id word_le_nat_alt split: if_splits)
qed

lemma tb_thread_step_within:
  "tokens_within (tw_bucket w) \<Longrightarrow> tokens_within (tw_bucket (tb_thread_step i ok w))"
  using attempt_within [of "tw_bucket w" "float_to_fixed (Fin 1)"]
  by (auto simp: tb_thread_step_def tokens_within_def Let_def simp del: float_to_fixed_one
      split: tb_pc.split attempt.split)

text \<open>
  Under every interleaving of concurrent calls the tokens never exceed the capacity, however the
  clock readings of the threads are ordered: a burst admits at most the capacity at once.
\<close>

theorem tokens_never_exceed_capacity:
  assumes "tb_reach (tb_init rate burst t0) w"
  shows "unat (unpack_tokens (tb_packed (tw_bucket w))) \<le> min (unat burst) 65535 * 65536"
proof -
  have "tokens_within (tw_bucket w) \<and> capacity_fixed (tw_bucket w) = capacity_fixed (tb_new rate burst t0)"
    using assms
  proof induction
    case start
    have "cap_of (tb_new rate burst t0) < 2 ^ 32" by (simp add: tb_new_capacity)
    then show ?case
      by (simp add: tb_init_def tokens_within_def tb_new_def Let_def packed_simps take_bit32_id)
  next
    case (run w i ok)
    then show ?case
      using tb_thread_step_within [of w i ok]
      by (auto simp: tb_thread_step_def Let_def split: tb_pc.split attempt.split)
  qed simp
  then show ?thesis by (auto simp: tokens_within_def word_le_nat_alt tb_new_capacity)
qed

subsection \<open>A stale clock reading\<close>

datatype tb_action = TbRun nat | TbTick duration

fun tb_act :: "tb_action \<Rightarrow> tb_world \<Rightarrow> tb_world" where
  "tb_act (TbRun i) w = tb_thread_step i True w"
| "tb_act (TbTick d) w = w\<lparr>tw_clock := tw_clock w + d\<rparr>"

lemma tb_act_reach: "tb_reach w0 w \<Longrightarrow> tb_reach w0 (fold tb_act as w)"
proof (induction as arbitrary: w)
  case (Cons a as)
  then have "tb_reach w0 (tb_act a w)" by (cases a) (auto intro: tb_reach.intros)
  then show ?case using Cons.IH by simp
qed simp

text \<open>
  Thread 0 reads the clock and is delayed; one millisecond later thread 1 takes the only token;
  then thread 0 goes on with its old reading.
\<close>

definition stale_schedule :: "tb_action list" where
  "stale_schedule = [TbRun 0, TbTick 1000000, TbRun 1, TbRun 1, TbRun 1, TbRun 0, TbRun 0]"

lemma tb_new_one:
  "tb_new (Fin 1) 1 0 = \<lparr>tb_packed = pack_bucket 65536 0, capacity_fixed = 65536,
     refill_rate_per_ms_fixed = 65, tb_created_at = 0, capacity_f64 = Fin 1\<rparr>"
  using rate_fixed [of 1] by (simp add: tb_new_def Let_def min_def f64_of_nat_exact [of 1, simplified] del: f64_div.simps)

lemma ucast_minus_one: "(ucast (- 1 :: u32) :: u64) = 4294967295"
  by (simp add: mask32 bit_eq_iff bit_simps)

lemma stale_run:
  "tw_admitted (fold tb_act stale_schedule (tb_init (Fin 1) 1 0)) = 2 \<and>
   tw_clock (fold tb_act stale_schedule (tb_init (Fin 1) 1 0)) = 1000000"
  by (simp add: stale_schedule_def tb_init_def tb_new_one tb_thread_step_def tb_goto_def tb_store_def
      now_ms_of_def acquire_attempt_def refilled_def Let_def packed_simps min_def ucast_minus_one)

text \<open>
  The clock is read before the loop and the difference of the stamps wraps: a thread that goes on
  with a reading older than the stored stamp sees almost 49.7 days of refill. With a rate of one
  request a second and a burst of one, two requests are admitted within a millisecond.
\<close>

theorem stale_clock_overadmits:
  "\<exists>w. tb_reach (tb_init (Fin 1) 1 0) w \<and> as_millis (tw_clock w) = 1 \<and> tw_admitted w = 2"
  using stale_run tb_act_reach [OF tb_reach.start, of "tb_init (Fin 1) 1 0" stale_schedule]
  by (intro exI [of _ "fold tb_act stale_schedule (tb_init (Fin 1) 1 0)"]) simp

theorem tokens_never_exceed_capacity_witness:
  "unat (unpack_tokens (tb_packed (tw_bucket (fold tb_act stale_schedule (tb_init (Fin 1) 1 0))))) \<le> 65536"
  using tokens_never_exceed_capacity [OF tb_act_reach [OF tb_reach.start], of stale_schedule "Fin 1" 1 0]
  by simp

section \<open>The limiter\<close>

text \<open>
  A route without a configured limit is never limited, and a limited one is limited by its own
  bucket only: a check answers what the route's bucket answers, stores that bucket back, and
  leaves the buckets of all other routes as they are.
\<close>

theorem check_rate_limit_routes:
  "fst (check_rate_limit now later route l) =
     (case map_of (buckets l) route of None \<Rightarrow> True | Some b \<Rightarrow> fst (try_acquire now b)) \<and>
   map_of (buckets (snd (check_rate_limit now later route l))) =
     (map_of (buckets l))(route := map_option (\<lambda>b. snd (try_acquire now b)) (map_of (buckets l) route))"
  by (auto simp: check_rate_limit_def Let_def case_prod_beta update_conv' fun_eq_iff split: option.split)

end
