(* ===== verification/Filters.thy ===== *)
theory Filters
  imports Common_Types
begin

text \<open>
  The HTTPRoute filters of \<open>control/src/proxy/filters.rs\<close>: redirects, header modifiers, timeouts
  and the retry configuration with its exponential backoff. A \<open>Duration\<close> is a number of
  nanoseconds; the backoff is computed in 64-bit milliseconds, which wrap.
\<close>

section \<open>Redirects\<close>

datatype RedirectStatusCode = MovedPermanently | Found

fun redirect_code :: "RedirectStatusCode \<Rightarrow> nat" where
  "redirect_code MovedPermanently = 301"
| "redirect_code Found = 302"

record RequestRedirect =
  rd_status_code :: RedirectStatusCode
  rd_scheme :: "string option"
  rd_hostname :: "string option"
  rd_port :: "u16 option"
  rd_path :: "string option"

definition redirect_new :: RequestRedirect where
  "redirect_new = \<lparr>rd_status_code = Found, rd_scheme = None, rd_hostname = None, rd_port = None, rd_path = None\<rparr>"

definition redirect_status_code :: "RedirectStatusCode \<Rightarrow> RequestRedirect \<Rightarrow> RequestRedirect" where
  "redirect_status_code c r = r\<lparr>rd_status_code := c\<rparr>"

definition redirect_scheme :: "string \<Rightarrow> RequestRedirect \<Rightarrow> RequestRedirect" where
  "redirect_scheme s r = r\<lparr>rd_scheme := Some s\<rparr>"

definition redirect_hostname :: "string \<Rightarrow> RequestRedirect \<Rightarrow> RequestRedirect" where
  "redirect_hostname h r = r\<lparr>rd_hostname := Some h\<rparr>"

definition redirect_port :: "u16 \<Rightarrow> RequestRedirect \<Rightarrow> RequestRedirect" where
  "redirect_port p r = r\<lparr>rd_port := Some p\<rparr>"

definition redirect_path :: "string \<Rightarrow> RequestRedirect \<Rightarrow> RequestRedirect" where
  "redirect_path p r = r\<lparr>rd_path := Some p\<rparr>"

section \<open>Header modifiers\<close>

datatype HeaderModifierOp = SetHeader string string | AddHeader string string | RemoveHeader string

text \<open>The request and the response modifier have the same field and the same builders.\<close>

record RequestHeaderModifier =
  operations :: "HeaderModifierOp list"

type_synonym ResponseHeaderModifier = RequestHeaderModifier

definition modifier_new :: RequestHeaderModifier where
  "modifier_new = \<lparr>operations = []\<rparr>"

definition modifier_set :: "string \<Rightarrow> string \<Rightarrow> RequestHeaderModifier \<Rightarrow> RequestHeaderModifier" where
  "modifier_set name v m = m\<lparr>operations := operations m @ [SetHeader name v]\<rparr>"

definition modifier_add :: "string \<Rightarrow> string \<Rightarrow> RequestHeaderModifier \<Rightarrow> RequestHeaderModifier" where
  "modifier_add name v m = m\<lparr>operations := operations m @ [AddHeader name v]\<rparr>"

definition modifier_remove :: "string \<Rightarrow> RequestHeaderModifier \<Rightarrow> RequestHeaderModifier" where
  "modifier_remove name m = m\<lparr>operations := operations m @ [RemoveHeader name]\<rparr>"

section \<open>Timeouts\<close>

record Timeout =
  to_request :: "duration option"
  to_backend_request :: "duration option"

definition timeout_new :: Timeout where
  "timeout_new = \<lparr>to_request = None, to_backend_request = None\<rparr>"

definition timeout_request :: "duration \<Rightarrow> Timeout \<Rightarrow> Timeout" where
  "timeout_request d t = t\<lparr>to_request := Some d\<rparr>"

definition timeout_backend_request :: "duration \<Rightarrow> Timeout \<Rightarrow> Timeout" where
  "timeout_backend_request d t = t\<lparr>to_backend_request := Some d\<rparr>"

section \<open>Retries\<close>

record RetryConfig =
  rc_max_retries :: u32
  rc_base_delay :: duration
  rc_max_delay :: duration
  rc_retry_on_5xx :: bool
  rc_retry_on_connection_error :: bool

definition retry_default :: RetryConfig where
  "retry_default =
     \<lparr>rc_max_retries = 3, rc_base_delay = 25000000, rc_max_delay = 1000000000,
      rc_retry_on_5xx = True, rc_retry_on_connection_error = True\<rparr>"

definition retry_max_retries :: "u32 \<Rightarrow> RetryConfig \<Rightarrow> RetryConfig" where
  "retry_max_retries n c = c\<lparr>rc_max_retries := n\<rparr>"

definition retry_base_delay :: "duration \<Rightarrow> RetryConfig \<Rightarrow> RetryConfig" where
  "retry_base_delay d c = c\<lparr>rc_base_delay := d\<rparr>"

definition retry_max_delay :: "duration \<Rightarrow> RetryConfig \<Rightarrow> RetryConfig" where
  "retry_max_delay d c = c\<lparr>rc_max_delay := d\<rparr>"

definition retry_retry_on_5xx :: "bool \<Rightarrow> RetryConfig \<Rightarrow> RetryConfig" where
  "retry_retry_on_5xx e c = c\<lparr>rc_retry_on_5xx := e\<rparr>"

definition retry_retry_on_connection_error :: "bool \<Rightarrow> RetryConfig \<Rightarrow> RetryConfig" where
  "retry_retry_on_connection_error e c = c\<lparr>rc_retry_on_connection_error := e\<rparr>"

definition calculate_delay :: "RetryConfig \<Rightarrow> u32 \<Rightarrow> duration" where
  "calculate_delay c attempt =
     (let delay_ms = of_nat (as_millis (rc_base_delay c)) * push_bit (unat (min attempt 10)) 1 :: u64
      in min (unat delay_ms * 1000000) (rc_max_delay c))"

definition should_retry_status :: "RetryConfig \<Rightarrow> u16 \<Rightarrow> bool" where
  "should_retry_status c status_code \<longleftrightarrow> rc_retry_on_5xx c \<and> 500 \<le> status_code \<and> status_code < 600"

section \<open>The backoff\<close>

lemma calculate_delay_exact:
  assumes "as_millis (rc_base_delay c) * 2 ^ min (unat attempt) 10 < 2 ^ 64"
  shows "calculate_delay c attempt =
    min (as_millis (rc_base_delay c) * 2 ^ min (unat attempt) 10 * 1000000) (rc_max_delay c)"
proof -
  let ?k = "min (unat attempt) 10" and ?b = "as_millis (rc_base_delay c)"
  have k: "unat (min attempt 10) = ?k" by (simp add: min_def word_le_nat_alt)
  have "(push_bit ?k 1 :: u64) = of_nat (2 ^ ?k)" by (simp add: push_bit_eq_mult)
  then have "unat (of_nat ?b * push_bit ?k 1 :: u64) = ?b * 2 ^ ?k mod 2 ^ 64"
    by (simp only: unat_of_nat flip: of_nat_mult) simp
  then show ?thesis using assms by (simp add: calculate_delay_def Let_def k)
qed

text \<open>
  The backoff between retries is the documented exponential one: \<open>base_delay * 2^attempt\<close> in whole
  milliseconds, frozen after ten doublings, never above \<open>max_delay\<close>, and it never shrinks from an
  attempt to a later one, as long as the base delay is below half a million years.
\<close>

theorem backoff_exponential:
  assumes "as_millis (rc_base_delay c) < 2 ^ 54" "a \<le> a'"
  shows "calculate_delay c a = min (as_millis (rc_base_delay c) * 2 ^ min (unat a) 10 * 1000000) (rc_max_delay c) \<and>
    calculate_delay c a \<le> calculate_delay c a' \<and> calculate_delay c a' \<le> rc_max_delay c"
proof -
  have "as_millis (rc_base_delay c) * 2 ^ min (unat x) 10 < 2 ^ 64" for x :: u32
  proof -
    have "(2 :: nat) ^ min (unat x) 10 \<le> 2 ^ 10" by (rule power_increasing) simp_all
    then have "as_millis (rc_base_delay c) * 2 ^ min (unat x) 10 \<le> as_millis (rc_base_delay c) * 2 ^ 10"
      by (rule mult_le_mono2)
    also have "\<dots> < 2 ^ 64" using assms(1) by simp
    finally show ?thesis .
  qed
  note exact = this [THEN calculate_delay_exact]
  have "(2 :: nat) ^ min (unat a) 10 \<le> 2 ^ min (unat a') 10"
    using assms(2) by (intro power_increasing) (auto simp: word_le_nat_alt)
  then have le: "as_millis (rc_base_delay c) * 2 ^ min (unat a) 10 * 1000000 \<le>
      as_millis (rc_base_delay c) * 2 ^ min (unat a') 10 * 1000000"
    by (intro mult_le_mono) simp_all
  show ?thesis unfolding exact by (intro conjI refl min.mono [OF le order_refl] min.cobounded2)
qed

theorem backoff_exponential_witness:
  "calculate_delay retry_default 2 = 100000000 \<and> calculate_delay retry_default 2 \<le> calculate_delay retry_default 9"
  using backoff_exponential [of retry_default 2 9] by (simp add: retry_default_def word_le_nat_alt)

end
