(* ===== verification/Route_Snapshot.thy ===== *)
theory Route_Snapshot
  imports Common_Types F64 "HOL-Library.AList"
begin

text \<open>
  The health half of the routing snapshots (\<open>control/src/proxy/route_snapshot.rs\<close>): draining
  backends with their deadlines, and the passive health statistics over the last 100 responses
  of a backend, whose error rate is computed in double precision.
\<close>

record BackendDraining =
  deadline :: instant

definition draining_new :: "duration \<Rightarrow> instant \<Rightarrow> BackendDraining" where
  "draining_new drain_timeout now = \<lparr>deadline = now + drain_timeout\<rparr>"

definition is_expired :: "instant \<Rightarrow> BackendDraining \<Rightarrow> bool" where
  "is_expired now d \<longleftrightarrow> deadline d \<le> now"

record BackendHealth =
  window :: "bool list"

definition WINDOW_SIZE :: nat where "WINDOW_SIZE = 100"

definition health_new :: BackendHealth where
  "health_new = \<lparr>window = []\<rparr>"

definition bh_is_healthy :: "BackendHealth \<Rightarrow> bool" where
  "bh_is_healthy h =
     (let total = length (window h) in
      if total = 0 then True
      else let error_count = length (filter (\<lambda>is_error. is_error) (window h));
               error_rate = f64_div (f64_of_nat error_count) (of_nat total)
           in f64_le error_rate (Fin (1 / 2)))"

definition is_server_error :: "u16 \<Rightarrow> bool" where
  "is_server_error status_code \<longleftrightarrow> 500 \<le> status_code \<and> status_code < 600"

definition record_response :: "u16 \<Rightarrow> BackendHealth \<Rightarrow> BackendHealth" where
  "record_response status_code h =
     (let is_error = is_server_error status_code;
          w = (if length (window h) = WINDOW_SIZE then tl (window h) else window h)
      in \<lparr>window = w @ [is_error]\<rparr>)"

record HealthData =
  backend_health :: "(backend \<times> BackendHealth) list"
  draining_backends :: "(backend \<times> BackendDraining) list"

definition healthdata_new :: HealthData where
  "healthdata_new = \<lparr>backend_health = [], draining_backends = []\<rparr>"

section \<open>The window\<close>

text \<open>The last \<open>n\<close> elements of a list.\<close>

definition recent :: "nat \<Rightarrow> 'a list \<Rightarrow> 'a list" where
  "recent n xs = drop (length xs - n) xs"

lemma length_recent [simp]: "length (recent n xs) = min n (length xs)"
  by (simp add: recent_def min_def)

lemma recent_snoc:
  "0 < n \<Longrightarrow> recent n (xs @ [x]) = (if length xs < n then xs else tl (recent n xs)) @ [x]"
  by (auto simp: recent_def tl_drop drop_Suc Suc_diff_le simp flip: drop_Suc)

lemma record_responses_window:
  "window (fold record_response ss health_new) = recent WINDOW_SIZE (map is_server_error ss)"
proof (induction ss rule: rev_induct)
  case (snoc s ss)
  have "length (recent WINDOW_SIZE (map is_server_error ss)) = WINDOW_SIZE \<longleftrightarrow> \<not> length ss < WINDOW_SIZE"
    by (auto simp: min_def)
  moreover have "recent WINDOW_SIZE xs = xs" if "length xs < WINDOW_SIZE" for xs :: "bool list"
    using that by (simp add: recent_def)
  ultimately show ?case
    using snoc recent_snoc [of WINDOW_SIZE "map is_server_error ss" "is_server_error s"]
    by (simp add: record_response_def Let_def WINDOW_SIZE_def)
qed (simp add: health_new_def recent_def)

lemma bh_is_healthy_iff:
  assumes "length (window h) < 2 ^ 52"
  shows "bh_is_healthy h \<longleftrightarrow> 2 * length (filter id (window h)) \<le> length (window h)"
proof (cases "window h = []")
  case False
  have "(\<lambda>e. e) = (id :: bool \<Rightarrow> bool)" by (simp add: fun_eq_iff)
  then show ?thesis
    using f64_ratio_half [of "length (window h)" "length (filter id (window h))"] assms False
    by (simp add: bh_is_healthy_def Let_def)
qed (simp add: bh_is_healthy_def)

text \<open>
  C23: Passive health checking looks at exactly the last 100 responses: after any sequence of responses
  a backend is healthy if and only if at most half of the last 100 (or of all, when there were
  fewer) were server errors. The double precision rate never decides otherwise.
\<close>

theorem passive_health_window:
  "bh_is_healthy (fold record_response ss health_new) \<longleftrightarrow>
     2 * length (filter is_server_error (recent 100 ss)) \<le> min 100 (length ss)"
proof -
  have "recent WINDOW_SIZE (map is_server_error ss) = map is_server_error (recent 100 ss)"
    by (simp add: recent_def drop_map WINDOW_SIZE_def)
  moreover have "filter id (map is_server_error xs) = map is_server_error (filter is_server_error xs)" for xs
    by (induction xs) simp_all
  ultimately show ?thesis
    by (subst bh_is_healthy_iff) (simp_all add: record_responses_window min_def)
qed

end
