(* ===== verification/Health_Checker.thy ===== *)
theory Health_Checker
  imports Common_Types F64 "HOL-Library.AList"
begin

text \<open>
  The active health checker (\<open>control/src/proxy/health_checker.rs\<close>): the per-backend state with its
  two thresholds, the map of states, and one iteration of \<open>check_backend_loop\<close> as a function of
  the outcome of its TCP probe. The Prometheus calls are recorded in the order they are made. A
  reference definition gives the status of a backend from its whole probe history.
\<close>

record HealthCheckConfig =
  enabled :: bool
  interval :: duration
  hc_timeout :: duration
  unhealthy_threshold :: u32
  healthy_threshold :: u32

definition hc_config_default :: HealthCheckConfig where
  "hc_config_default =
     \<lparr>enabled = False, interval = 5000000000, hc_timeout = 2000000000,
      unhealthy_threshold = 3, healthy_threshold = 2\<rparr>"

datatype HealthStatus = Healthy | Unhealthy

record BackendHealthState =
  status :: HealthStatus
  consecutive_successes :: u32
  consecutive_failures :: u32
  last_check :: "instant option"
  last_latency_ms :: "u64 option"

definition bhs_new :: BackendHealthState where
  "bhs_new = \<lparr>status = Healthy, consecutive_successes = 0, consecutive_failures = 0,
     last_check = None, last_latency_ms = None\<rparr>"

definition bhs_record_success :: "u64 \<Rightarrow> HealthCheckConfig \<Rightarrow> instant \<Rightarrow> BackendHealthState \<Rightarrow> BackendHealthState" where
  "bhs_record_success latency_ms config now s =
     (let s = s\<lparr>consecutive_successes := consecutive_successes s + 1, consecutive_failures := 0,
               last_latency_ms := Some latency_ms, last_check := Some now\<rparr>
      in if consecutive_successes s \<ge> healthy_threshold config then s\<lparr>status := Healthy\<rparr> else s)"

definition bhs_record_failure :: "HealthCheckConfig \<Rightarrow> instant \<Rightarrow> BackendHealthState \<Rightarrow> BackendHealthState" where
  "bhs_record_failure config now s =
     (let s = s\<lparr>consecutive_failures := consecutive_failures s + 1, consecutive_successes := 0,
               last_check := Some now\<rparr>
      in if consecutive_failures s \<ge> unhealthy_threshold config then s\<lparr>status := Unhealthy\<rparr> else s)"

section \<open>The checker\<close>

datatype hc_metric =
    HcTransition string string string
  | HcStatus string string int
  | HcProbe string string
  | HcDuration string string f64
  | HcConsecutiveFailures string int

record HealthChecker =
  hc_config :: HealthCheckConfig
  states :: "(backend \<times> BackendHealthState) list"
  tasks :: "(backend \<times> string) list"
  cancelled :: bool
  hc_metrics :: "hc_metric list"

definition hc_new :: "HealthCheckConfig \<Rightarrow> HealthChecker" where
  "hc_new config = \<lparr>hc_config = config, states = [], tasks = [], cancelled = False, hc_metrics = []\<rparr>"

definition shutdown :: "HealthChecker \<Rightarrow> HealthChecker" where
  "shutdown c = c\<lparr>cancelled := True\<rparr>"

definition hc_is_healthy :: "backend \<Rightarrow> HealthChecker \<Rightarrow> bool" where
  "hc_is_healthy b c = (case map_of (states c) b of Some s \<Rightarrow> status s = Healthy | None \<Rightarrow> True)"

definition get_all_statuses :: "HealthChecker \<Rightarrow> (backend \<times> HealthStatus) list" where
  "get_all_statuses c = map (\<lambda>(b, s). (b, status s)) (states c)"

definition track :: "backend \<Rightarrow> (backend \<times> BackendHealthState) list \<Rightarrow> (backend \<times> BackendHealthState) list" where
  "track b ss = (case map_of ss b of Some _ \<Rightarrow> ss | None \<Rightarrow> AList.update b bhs_new ss)"

text \<open>
  \<open>start_checking\<close> inserts the states and spawns one task per backend, inside a runtime
  (\<open>in_runtime\<close>); \<open>tasks\<close> lists the running loops with their route.
\<close>

definition start_checking :: "bool \<Rightarrow> backend list \<Rightarrow> string \<Rightarrow> HealthChecker \<Rightarrow> HealthChecker" where
  "start_checking in_runtime bs route_name c =
     (if \<not> enabled (hc_config c) then c
      else c\<lparr>states := fold track bs (states c),
             tasks := tasks c @ (if in_runtime then map (\<lambda>b. (b, route_name)) bs else [])\<rparr>)"

text \<open>What a probe under its timeout ends with.\<close>

datatype probe_result = Connected | ConnectError | ProbeTimeout

fun probe_label :: "probe_result \<Rightarrow> string" where
  "probe_label Connected = ''success''"
| "probe_label ConnectError = ''failure''"
| "probe_label ProbeTimeout = ''timeout''"

fun status_label :: "HealthStatus \<Rightarrow> string" where
  "status_label Healthy = ''healthy''"
| "status_label Unhealthy = ''unhealthy''"

text \<open>
  One iteration after the timer's tick: the probe started at \<open>start\<close>, its result was in at
  \<open>finish\<close>, and the state is stamped with \<open>now\<close>.
\<close>

definition check_backend :: "backend \<Rightarrow> string \<Rightarrow> instant \<Rightarrow> instant \<Rightarrow> instant \<Rightarrow> probe_result \<Rightarrow>
    HealthChecker \<Rightarrow> HealthChecker" where
  "check_backend b route_name start finish now result c =
     (let config = hc_config c;
          label = show_backend b;
          latency_ms = of_nat (as_millis (finish - start)) :: u64;
          states' = track b (states c);
          s = the (map_of states' b);
          s' = (case result of
                  Connected \<Rightarrow> bhs_record_success latency_ms config now s
                | ConnectError \<Rightarrow> bhs_record_failure config now s
                | ProbeTimeout \<Rightarrow> bhs_record_failure config now s);
          old_status = status s;
          new_status = status s'
      in c\<lparr>states := AList.update b s' states',
           hc_metrics := hc_metrics c @
             (if old_status \<noteq> new_status
              then [HcTransition label (status_label old_status) (status_label new_status)] else []) @
             [HcStatus label route_name (if new_status = Healthy then 1 else 0),
              HcProbe label (probe_label result),
              HcDuration label (probe_label result) (f64_div (f64_of_nat (unat latency_ms)) 1000),
              HcConsecutiveFailures label (int (unat (consecutive_failures s')))]\<rparr>)"

section \<open>Probe histories\<close>

record probe =
  p_backend :: backend
  p_route :: string
  p_start :: instant
  p_finish :: instant
  p_now :: instant
  p_result :: probe_result

definition run_probe :: "probe \<Rightarrow> HealthChecker \<Rightarrow> HealthChecker" where
  "run_probe p = check_backend (p_backend p) (p_route p) (p_start p) (p_finish p) (p_now p) (p_result p)"

text \<open>
  The reference: the outcomes of a backend's probes, the latest first; a status changes when the
  latest outcomes agree for as long as the threshold asks.
\<close>

definition streak :: "bool \<Rightarrow> bool list \<Rightarrow> nat" where
  "streak ok h = length (takeWhile (\<lambda>x. x = ok) h)"

fun status_spec :: "nat \<Rightarrow> nat \<Rightarrow> bool list \<Rightarrow> HealthStatus" where
  "status_spec ut ht [] = Healthy"
| "status_spec ut ht (ok # h) =
     (if ok \<and> ht \<le> streak True (ok # h) then Healthy
      else if \<not> ok \<and> ut \<le> streak False (ok # h) then Unhealthy
      else status_spec ut ht h)"

definition outcomes :: "backend \<Rightarrow> probe list \<Rightarrow> bool list" where
  "outcomes b ps = rev (map (\<lambda>p. p_result p = Connected) (filter (\<lambda>p. p_backend p = b) ps))"

lemma track_map_of:
  "map_of (track b ss) = (map_of ss)(b \<mapsto> (case map_of ss b of Some s \<Rightarrow> s | None \<Rightarrow> bhs_new))"
  by (auto simp: track_def update_conv' fun_eq_iff split: option.split)

definition state_of :: "backend \<Rightarrow> HealthChecker \<Rightarrow> BackendHealthState" where
  "state_of b c = (case map_of (states c) b of Some s \<Rightarrow> s | None \<Rightarrow> bhs_new)"

definition advance :: "probe \<Rightarrow> HealthCheckConfig \<Rightarrow> BackendHealthState \<Rightarrow> BackendHealthState" where
  "advance p config s =
     (if p_result p = Connected
      then bhs_record_success (of_nat (as_millis (p_finish p - p_start p))) config (p_now p) s
      else bhs_record_failure config (p_now p) s)"

lemma run_probe_config [simp]: "hc_config (run_probe p c) = hc_config c"
  by (simp add: run_probe_def check_backend_def Let_def)

lemma run_probe_state:
  "state_of b (run_probe p c) =
     (if p_backend p = b then advance p (hc_config c) (state_of b c) else state_of b c)"
  by (cases "p_result p")
    (simp_all add: run_probe_def check_backend_def state_of_def advance_def Let_def update_conv'
      track_map_of)

lemma hc_is_healthy_state: "hc_is_healthy b c \<longleftrightarrow> status (state_of b c) = Healthy"
  by (simp add: hc_is_healthy_def state_of_def bhs_new_def split: option.split)

text \<open>The counters are the lengths of the latest streaks.\<close>

definition state_ok :: "HealthCheckConfig \<Rightarrow> bool list \<Rightarrow> BackendHealthState \<Rightarrow> bool" where
  "state_ok config h s \<longleftrightarrow>
     unat (consecutive_successes s) = streak True h \<and> unat (consecutive_failures s) = streak False h \<and>
     status s = status_spec (unat (unhealthy_threshold config)) (unat (healthy_threshold config)) h"

lemma streak_Cons [simp]: "streak ok (x # h) = (if x = ok then Suc (streak ok h) else 0)"
  by (simp add: streak_def)

lemma streak_le: "streak ok h \<le> length h"
  by (simp add: streak_def length_takeWhile_le)

lemma advance_ok:
  assumes "state_ok config h s" "length h < 2 ^ 32 - 1"
  shows "state_ok config ((p_result p = Connected) # h) (advance p config s)"
proof -
  have "unat (consecutive_successes s + 1) = streak True h + 1"
    "unat (consecutive_failures s + 1) = streak False h + 1"
    using assms streak_le [of True h] streak_le [of False h]
    by (simp_all add: state_ok_def unat_word_ariths)
  then show ?thesis
    using assms(1)
    by (simp add: state_ok_def advance_def bhs_record_success_def bhs_record_failure_def Let_def
        word_le_nat_alt)
qed

lemma run_probes_ok:
  assumes "length ps < 2 ^ 32"
  shows "state_ok config (outcomes b ps) (state_of b (fold run_probe ps (hc_new config))) \<and>
    hc_config (fold run_probe ps (hc_new config)) = config"
  using assms
proof (induction ps rule: rev_induct)
  case Nil
  then show ?case by (simp add: outcomes_def state_ok_def state_of_def hc_new_def bhs_new_def streak_def)
next
  case (snoc p ps)
  have "length (outcomes b ps) \<le> length ps" by (simp add: outcomes_def)
  then have "length (outcomes b ps) < 2 ^ 32 - 1" using snoc.prems by simp
  from advance_ok [OF _ this, of config "state_of b (fold run_probe ps (hc_new config))" p] snoc
  show ?case by (simp add: run_probe_state outcomes_def)
qed

text \<open>
  C24: After any sequence of probes of any backends, a backend's status is the one its own probes
  determine: it became unhealthy when the last \<open>unhealthy_threshold\<close> of them had failed, healthy
  again when the last \<open>healthy_threshold\<close> had connected, and anything shorter left it as it was.
\<close>

theorem probe_history_status:
  assumes "length ps < 2 ^ 32"
  shows "hc_is_healthy b (fold run_probe ps (hc_new config)) \<longleftrightarrow>
    status_spec (unat (unhealthy_threshold config)) (unat (healthy_threshold config)) (outcomes b ps) = Healthy"
  using run_probes_ok [OF assms, of config b] by (simp add: hc_is_healthy_state state_ok_def)

definition failed_probe :: "backend \<Rightarrow> probe" where
  "failed_probe b = \<lparr>p_backend = b, p_route = ''r'', p_start = 0, p_finish = 1, p_now = 2, p_result = ConnectError\<rparr>"

theorem probe_history_status_witness:
  "\<not> hc_is_healthy (backend_new 1 80 1)
     (fold run_probe [failed_probe (backend_new 1 80 1), failed_probe (backend_new 1 80 1),
        failed_probe (backend_new 1 80 1)] (hc_new hc_config_default))"
proof -
  let ?b = "backend_new 1 80 1" and ?p = "failed_probe (backend_new 1 80 1)"
  have "outcomes ?b [?p, ?p, ?p] = [False, False, False]" by (simp add: outcomes_def failed_probe_def)
  moreover have "unat (unhealthy_threshold hc_config_default) = 3" by (simp add: hc_config_default_def)
  ultimately show ?thesis
    using probe_history_status [of "[?p, ?p, ?p]" ?b hc_config_default] by (simp add: streak_def)
qed

end
