(* ===== verification/Route_Cache.thy ===== *)
theory Route_Cache
  imports Rauta_Prelude "HOL-Library.AList"
begin

text \<open>
  The route lookup cache of the router (\<open>RouteLruCache\<close> of \<open>control/src/proxy/router.rs\<close>), for any
  type of keys: the entries, the access order with the most recently used key at the back, and
  the hit and miss counters. The locale \<open>lookup_cache\<close> is what the router relies on; the cache
  interprets it. A reference definition of the recency order from the history of the calls gives
  the meaning of the eviction.
\<close>

record 'k RouteLruCache =
  entries :: "('k \<times> 'k) list"
  access_order :: "'k list"
  hits :: u64
  misses :: u64
  max_size :: nat

definition lru_new :: "nat \<Rightarrow> 'k RouteLruCache" where
  "lru_new n = \<lparr>entries = [], access_order = [], hits = 0, misses = 0, max_size = n\<rparr>"

definition lru_get :: "'k \<Rightarrow> 'k RouteLruCache \<Rightarrow> 'k option \<times> 'k RouteLruCache" where
  "lru_get key c =
     (case map_of (entries c) key of
        Some resolved_key \<Rightarrow>
          (Some resolved_key,
           c\<lparr>hits := hits c + 1, access_order := remove1 key (access_order c) @ [key]\<rparr>)
      | None \<Rightarrow> (None, c\<lparr>misses := misses c + 1\<rparr>))"

definition lru_evict :: "'k RouteLruCache \<Rightarrow> 'k RouteLruCache" where
  "lru_evict c =
     (if length (entries c) \<ge> max_size c then
        (case access_order c of
           [] \<Rightarrow> c
         | oldest # rest \<Rightarrow> c\<lparr>access_order := rest, entries := AList.delete oldest (entries c)\<rparr>)
      else c)"

definition lru_insert :: "'k \<Rightarrow> 'k \<Rightarrow> 'k RouteLruCache \<Rightarrow> 'k RouteLruCache" where
  "lru_insert lookup_key resolved_key c =
     (if map_of (entries c) lookup_key \<noteq> None
      then c\<lparr>entries := AList.update lookup_key resolved_key (entries c)\<rparr>
      else let c = lru_evict c in
        c\<lparr>entries := AList.update lookup_key resolved_key (entries c),
          access_order := access_order c @ [lookup_key]\<rparr>)"

definition lru_invalidate :: "'k \<Rightarrow> 'k RouteLruCache \<Rightarrow> 'k RouteLruCache" where
  "lru_invalidate key c =
     c\<lparr>entries := AList.delete key (entries c), access_order := remove1 key (access_order c)\<rparr>"

definition lru_clear :: "'k RouteLruCache \<Rightarrow> 'k RouteLruCache" where
  "lru_clear c = c\<lparr>entries := [], access_order := []\<rparr>"

definition lru_stats :: "'k RouteLruCache \<Rightarrow> u64 \<times> u64" where
  "lru_stats c = (hits c, misses c)"

definition lru_size :: "'k RouteLruCache \<Rightarrow> nat" where
  "lru_size c = length (entries c)"

section \<open>What the router relies on\<close>

text \<open>
  A cache in front of a resolver: \<open>peek\<close> reads it without effect. An insertion may drop other
  entries, an invalidation drops its key, and nothing else appears or changes.
\<close>

locale lookup_cache =
  fixes peek :: "'c \<Rightarrow> 'k \<Rightarrow> 'k option"
    and get :: "'k \<Rightarrow> 'c \<Rightarrow> 'k option \<times> 'c"
    and ins :: "'k \<Rightarrow> 'k \<Rightarrow> 'c \<Rightarrow> 'c"
    and invalidate :: "'k \<Rightarrow> 'c \<Rightarrow> 'c"
    and inv :: "'c \<Rightarrow> bool"
  assumes get_peek: "inv c \<Longrightarrow> fst (get k c) = peek c k"
    and peek_get: "inv c \<Longrightarrow> peek (snd (get k c)) = peek c"
    and peek_ins: "inv c \<Longrightarrow> peek (ins k v c) k = Some v"
    and peek_ins_other: "inv c \<Longrightarrow> k' \<noteq> k \<Longrightarrow> peek (ins k v c) k' = peek c k' \<or> peek (ins k v c) k' = None"
    and peek_invalidate: "inv c \<Longrightarrow> peek (invalidate k c) = (peek c)(k := None)"
    and inv_get: "inv c \<Longrightarrow> inv (snd (get k c))"
    and inv_ins: "inv c \<Longrightarrow> inv (ins k v c)"
    and inv_invalidate: "inv c \<Longrightarrow> inv (invalidate k c)"
begin

text \<open>Every cached resolution is the one the resolver would give.\<close>

definition coherent :: "('k \<Rightarrow> 'k option) \<Rightarrow> 'c \<Rightarrow> bool" where
  "coherent resolve c \<longleftrightarrow> (\<forall>k v. peek c k = Some v \<longrightarrow> resolve k = Some v)"

definition cached :: "('k \<Rightarrow> 'k option) \<Rightarrow> 'k \<Rightarrow> 'c \<Rightarrow> 'k option \<times> 'c" where
  "cached resolve k c =
     (case get k c of
        (Some v, c') \<Rightarrow> (Some v, c')
      | (None, c') \<Rightarrow> (resolve k, case resolve k of Some v \<Rightarrow> ins k v c' | None \<Rightarrow> c'))"

lemma cached_correct:
  assumes "inv c" "coherent resolve c"
  shows "fst (cached resolve k c) = resolve k"
    and "inv (snd (cached resolve k c))" and "coherent resolve (snd (cached resolve k c))"
proof -
  obtain r c' where g: "get k c = (r, c')" by (cases "get k c")
  have c': "r = peek c k" "peek c' = peek c" "inv c'"
    using get_peek [OF assms(1), of k] peek_get [OF assms(1), of k] inv_get [OF assms(1), of k] g by simp_all
  show "fst (cached resolve k c) = resolve k"
    using assms(2) g c' by (auto simp: cached_def coherent_def split: option.split)
  show "inv (snd (cached resolve k c))"
    using g c' by (auto simp: cached_def inv_ins split: option.split)
  have "peek (ins k v c') k' = Some w \<Longrightarrow> resolve k = Some v \<Longrightarrow> resolve k' = Some w" for v k' w
    using assms(2) c' peek_ins [OF c'(3), of k v] peek_ins_other [OF c'(3), of k' k v]
    unfolding coherent_def by (metis option.distinct(1) option.inject)
  then show "coherent resolve (snd (cached resolve k c))"
    using assms(2) g c' by (auto simp: cached_def coherent_def split: option.split)
qed

text \<open>A stale entry survives the invalidation of another key and is served afterwards.\<close>

lemma stale_entry_served:
  "inv c \<Longrightarrow> peek c k = Some v \<Longrightarrow> k' \<noteq> k \<Longrightarrow> fst (cached resolve k (invalidate k' c)) = Some v"
  using get_peek [OF inv_invalidate, of c k k'] peek_invalidate [of c k']
  by (auto simp: cached_def split: prod.split option.split)

end

section \<open>The cache's invariant\<close>

definition lru_inv :: "'k RouteLruCache \<Rightarrow> bool" where
  "lru_inv c \<longleftrightarrow> 0 < max_size c \<and> distinct (map fst (entries c)) \<and> distinct (access_order c) \<and>
     set (access_order c) = fst ` set (entries c) \<and> length (entries c) \<le> max_size c"

lemma alist_update_new:
  "map_of al k = None \<Longrightarrow> AList.update k v al = al @ [(k, v)]"
  by (induction al) (auto split: if_splits)

lemma alist_update_keys:
  "map_of al k \<noteq> None \<Longrightarrow> map fst (AList.update k v al) = map fst al"
  by (induction al) (auto split: if_splits)

lemma alist_delete_length:
  "distinct (map fst al) \<Longrightarrow> k \<in> fst ` set al \<Longrightarrow> length (AList.delete k al) = length al - 1"
proof (induction al)
  case (Cons a al)
  show ?case
  proof (cases "fst a = k")
    case True
    then have "AList.delete k al = al" using Cons.prems by (simp add: AList.delete_idem)
    then show ?thesis using True by (cases a) simp
  next
    case False
    then have "k \<in> fst ` set al" using Cons.prems by auto
    moreover from this have "al \<noteq> []" by auto
    ultimately show ?thesis using Cons False by (cases a) simp
  qed
qed simp

lemma alist_delete_set: "fst ` set (AList.delete k al) = fst ` set al - {k}"
  by (metis delete_keys list.set_map set_removeAll)

lemma lru_evict_inv:
  assumes "lru_inv c"
  shows "distinct (map fst (entries (lru_evict c)))" "distinct (access_order (lru_evict c))"
    "set (access_order (lru_evict c)) = fst ` set (entries (lru_evict c))"
    "length (entries (lru_evict c)) < max_size c" "max_size (lru_evict c) = max_size c"
    "map_of (entries (lru_evict c)) k = None \<or> map_of (entries (lru_evict c)) k = map_of (entries c) k"
proof -
  note inv = assms [unfolded lru_inv_def]
  have full: "\<exists>x xs. access_order c = x # xs" if "length (entries c) \<ge> max_size c"
    using that inv by (cases "access_order c") (auto simp: image_is_empty)
  have len: "length (AList.delete x (entries c)) = length (entries c) - 1" if "access_order c = x # xs" for x xs
    using inv that by (intro alist_delete_length) auto
  show "distinct (map fst (entries (lru_evict c)))" "distinct (access_order (lru_evict c))"
    "max_size (lru_evict c) = max_size c"
    using inv by (auto simp: lru_evict_def distinct_delete split: list.split)
  show "set (access_order (lru_evict c)) = fst ` set (entries (lru_evict c))"
  proof (cases "access_order c")
    case (Cons x xs)
    then have "fst ` set (entries c) = insert x (set xs)" "x \<notin> set xs" using inv by auto
    then show ?thesis using Cons by (simp add: lru_evict_def alist_delete_set)
  qed (use inv in \<open>simp add: lru_evict_def\<close>)
  show "length (entries (lru_evict c)) < max_size c"
    using full len inv by (auto simp: lru_evict_def split: list.split)
  show "map_of (entries (lru_evict c)) k = None \<or> map_of (entries (lru_evict c)) k = map_of (entries c) k"
    by (auto simp: lru_evict_def AList.delete_conv' split: list.split)
qed

lemma lru_get_inv: "lru_inv c \<Longrightarrow> lru_inv (snd (lru_get k c))"
proof (cases "map_of (entries c) k")
  case (Some v)
  assume inv: "lru_inv c"
  have "k \<in> fst ` set (entries c)" using Some by (force dest: map_of_SomeD)
  then show ?thesis using inv Some by (simp add: lru_inv_def lru_get_def insert_absorb)
qed (simp add: lru_inv_def lru_get_def)

lemma lru_insert_inv:
  assumes "lru_inv c" shows "lru_inv (lru_insert k v c)"
proof (cases "map_of (entries c) k")
  case (Some v')
  then have keys: "map fst (AList.update k v (entries c)) = map fst (entries c)"
    by (intro alist_update_keys) simp
  then have "fst ` set (AList.update k v (entries c)) = fst ` set (entries c)"
    "length (AList.update k v (entries c)) = length (entries c)"
    by (metis list.set_map, metis length_map)
  then show ?thesis using assms Some keys by (simp add: lru_insert_def lru_inv_def)
next
  case None
  note ev = lru_evict_inv [OF assms]
  have new: "map_of (entries (lru_evict c)) k = None" using ev(6) [of k] None by auto
  then have "k \<notin> fst ` set (entries (lru_evict c))" by (simp add: map_of_eq_None_iff)
  then show ?thesis
    using None ev assms by (simp add: lru_insert_def lru_inv_def Let_def alist_update_new [OF new])
qed

lemma lru_invalidate_inv: "lru_inv c \<Longrightarrow> lru_inv (lru_invalidate k c)"
  using length_delete_le [of k "entries c"]
  by (auto simp: lru_inv_def lru_invalidate_def distinct_delete alist_delete_set set_remove1_eq)

interpretation lru: lookup_cache "\<lambda>c. map_of (entries c)" lru_get lru_insert lru_invalidate lru_inv
proof unfold_locales
  fix c :: "'a RouteLruCache" and k k' v :: 'a
  assume inv: "lru_inv c"
  show "fst (lru_get k c) = map_of (entries c) k"
    "map_of (entries (snd (lru_get k c))) = map_of (entries c)"
    by (simp_all add: lru_get_def split: option.split)
  show "map_of (entries (lru_insert k v c)) k = Some v"
    by (simp add: lru_insert_def Let_def update_conv')
  show "map_of (entries (lru_invalidate k c)) = (map_of (entries c))(k := None)"
    by (simp add: lru_invalidate_def AList.delete_conv')
  show "map_of (entries (lru_insert k v c)) k' = map_of (entries c) k' \<or>
      map_of (entries (lru_insert k v c)) k' = None" if "k' \<noteq> k"
    using that lru_evict_inv(6) [OF inv, of k'] by (auto simp: lru_insert_def Let_def update_conv')
qed (simp_all add: lru_get_inv lru_insert_inv lru_invalidate_inv)

section \<open>Histories of calls\<close>

datatype 'k lru_op = LruGet 'k | LruInsert 'k 'k | LruInvalidate 'k | LruClear

fun lru_call :: "'k lru_op \<Rightarrow> 'k RouteLruCache \<Rightarrow> 'k RouteLruCache" where
  "lru_call (LruGet k) c = snd (lru_get k c)"
| "lru_call (LruInsert k v) c = lru_insert k v c"
| "lru_call (LruInvalidate k) c = lru_invalidate k c"
| "lru_call LruClear c = lru_clear c"

lemma lru_call_max_size [simp]: "max_size (lru_call op c) = max_size c"
  by (cases op) (simp_all add: lru_get_def lru_insert_def lru_evict_def lru_invalidate_def lru_clear_def
      Let_def split: option.split list.split)

lemma lru_clear_inv: "lru_inv c \<Longrightarrow> lru_inv (lru_clear c)"
  by (simp add: lru_inv_def lru_clear_def)

lemma lru_call_inv: "lru_inv c \<Longrightarrow> lru_inv (lru_call op c)"
  by (cases op) (simp_all add: lru_get_inv lru_insert_inv lru_invalidate_inv lru_clear_inv)

text \<open>
  After any sequence of lookups, insertions, invalidations and clears a cache of positive size
  has at most \<open>max_size\<close> entries, and its access order lists exactly the cached keys, each once: an
  eviction always finds a key to evict, and evicts a cached one.
\<close>

theorem lru_bounded:
  assumes "0 < n"
  shows "lru_size (fold lru_call ops (lru_new n)) \<le> n \<and> lru_inv (fold lru_call ops (lru_new n))"
proof -
  have "lru_inv (fold lru_call ops c) \<and> max_size (fold lru_call ops c) = max_size c" if "lru_inv c"
    for c :: "'a RouteLruCache"
    using that by (induction ops arbitrary: c) (simp_all add: lru_call_inv)
  from this [of "lru_new n"] assms show ?thesis by (simp add: lru_inv_def lru_new_def lru_size_def)
qed

theorem lru_bounded_witness:
  "lru_size (fold lru_call [LruInsert 1 2, LruGet 1, LruInsert 3 4, LruInsert 5 (6 :: nat)] (lru_new 2)) \<le> 2"
  using lru_bounded [of 2 "[LruInsert 1 2, LruGet 1, LruInsert 3 4, LruInsert 5 (6 :: nat)]"] by simp

end
