(* ===== verification/F64_Text.thy ===== *)
theory F64_Text
  imports F64
begin

text \<open>
  Printing of doubles, as \<open>Display\<close>, \<open>Debug\<close> and the precision \<open>{:.n}\<close> of Rust's formatter do it: the
  shortest decimal that reads back as the same double, and the exact value rounded half to even
  at a fixed number of digits. The gateway prints doubles in its diagnoses and metrics.
\<close>

section \<open>Comparison and quotients of counters\<close>

definition f64_less :: "f64 \<Rightarrow> f64 \<Rightarrow> bool" where
  "f64_less x y \<longleftrightarrow> f64_le x y \<and> x \<noteq> y"

text \<open>The quotient of two integers converted to doubles; the divisor is finite for every machine integer.\<close>

definition f64_ratio :: "nat \<Rightarrow> nat \<Rightarrow> f64" where
  "f64_ratio a b = (case f64_of_nat b of Fin d \<Rightarrow> f64_div (f64_of_nat a) d | _ \<Rightarrow> Fin 0)"

section \<open>Decimal digits\<close>

definition rat_log10 :: "rat \<Rightarrow> int" where
  "rat_log10 q =
     (if 1 \<le> q then int (length (show_nat (nat \<lfloor>q\<rfloor>))) - 1
      else - int (length (show_nat (nat (\<lceil>1 / q\<rceil> - 1)))))"

text \<open>The two decimals of \<open>n\<close> digits around \<open>q\<close>, the closer first, that read back as \<open>q\<close>.\<close>

definition decimals :: "rat \<Rightarrow> nat \<Rightarrow> (int \<times> int) list" where
  "decimals q n =
     (let x = rat_log10 q - int n + 1; s = 10 powi x; lo = \<lfloor>q / s\<rfloor>
      in filter (\<lambda>(d, _). f64_nearest (of_int d * s) = q)
           (if q / s - of_int lo \<le> 1 / 2 then [(lo, x), (lo + 1, x)] else [(lo + 1, x), (lo, x)]))"

fun shortest_from :: "nat \<Rightarrow> nat \<Rightarrow> rat \<Rightarrow> int \<times> int" where
  "shortest_from 0 n q = (0, 0)"
| "shortest_from (Suc k) n q = (case decimals q n of d # _ \<Rightarrow> d | [] \<Rightarrow> shortest_from k (Suc n) q)"

text \<open>
  Seventeen digits always suffice to tell two doubles apart. A double just below a power of ten
  is printed as this power.
\<close>

definition shortest :: "rat \<Rightarrow> int \<times> int" where
  "shortest q = (let (d, x) = shortest_from 17 1 q in if d mod 10 = 0 then (d div 10, x + 1) else (d, x))"

definition pad :: "nat \<Rightarrow> string \<Rightarrow> string" where
  "pad n s = replicate (n - length s) CHR ''0'' @ s"

definition show_decimal :: "nat \<Rightarrow> int \<Rightarrow> string" where
  "show_decimal k d =
     show_nat (nat (d div 10 ^ k)) @ (if k = 0 then [] else CHR ''.'' # pad k (show_nat (nat (d mod 10 ^ k))))"

section \<open>The three formats\<close>

definition show_sign :: "rat \<Rightarrow> string" where
  "show_sign q = (if q < 0 then ''-'' else [])"

fun show_f64 :: "f64 \<Rightarrow> string" where
  "show_f64 (Fin q) =
     (let (d, x) = (if q = 0 then (0, 0) else shortest \<bar>q\<bar>)
      in show_sign q @ (if 0 \<le> x then show_nat (nat (d * 10 ^ nat x)) else show_decimal (nat (- x)) d))"
| "show_f64 PosInf = ''inf''"
| "show_f64 NegInf = ''-inf''"
| "show_f64 NaN = ''NaN''"

definition show_exp :: "int \<Rightarrow> int \<Rightarrow> string" where
  "show_exp d x =
     (let s = show_nat (nat d); e = x + int (length s) - 1
      in [hd s] @ (if tl s = [] then [] else CHR ''.'' # tl s) @ ''e'' @
         (if e < 0 then ''-'' @ show_nat (nat (- e)) else show_nat (nat e)))"

fun debug_f64 :: "f64 \<Rightarrow> string" where
  "debug_f64 (Fin q) =
     (let (d, x) = (if q = 0 then (0, 0) else shortest \<bar>q\<bar>)
      in show_sign q @
         (if q = 0 \<or> 1 / 10 ^ 5 \<le> \<bar>q\<bar> \<and> \<bar>q\<bar> < 10 ^ 16
          then (if 0 \<le> x then show_nat (nat (d * 10 ^ nat x)) @ ''.0'' else show_decimal (nat (- x)) d)
          else show_exp d x))"
| "debug_f64 PosInf = ''inf''"
| "debug_f64 NegInf = ''-inf''"
| "debug_f64 NaN = ''NaN''"

fun show_fixed :: "nat \<Rightarrow> f64 \<Rightarrow> string" where
  "show_fixed k (Fin q) = show_sign q @ show_decimal k (round_half_even (\<bar>q\<bar> * 10 ^ k))"
| "show_fixed k PosInf = ''inf''"
| "show_fixed k NegInf = ''-inf''"
| "show_fixed k NaN = ''NaN''"

fun debug_option :: "('a \<Rightarrow> string) \<Rightarrow> 'a option \<Rightarrow> string" where
  "debug_option f None = ''None''"
| "debug_option f (Some x) = ''Some('' @ f x @ '')''"

definition show_bool :: "bool \<Rightarrow> string" where
  "show_bool b = (if b then ''true'' else ''false'')"

lemma decimals_one: "decimals 1 1 = [(1, 0)]"
proof -
  have "f64_nearest 1 = 1" by (rule f64_nearest_representable [of _ 1 0]) simp_all
  moreover have "f64_nearest 2 = 2" by (rule f64_nearest_representable [of _ 2 0]) simp_all
  ultimately show ?thesis by (simp add: decimals_def rat_log10_def show_base.simps Let_def)
qed

lemma shortest_one: "shortest 1 = (1, 0)"
proof -
  have "shortest_from (Suc 16) 1 1 = (1, 0)" by (simp only: shortest_from.simps decimals_one) simp
  then have "shortest_from 17 1 1 = (1, 0)" by simp
  then show ?thesis by (simp add: shortest_def)
qed

lemma debug_f64_units [simp]: "debug_f64 (Fin 1) = ''1.0''" "debug_f64 (Fin 0) = ''0.0''"
  by (simp_all add: shortest_one show_base.simps digit_def show_sign_def) code_simp+

end
