(* ===== verification/Route_Match.thy ===== *)
theory Route_Match
  imports Rust_Text "HOL-Library.AList"
begin

text \<open>
  Header and query parameter matching of \<open>control/src/proxy/router.rs\<close>, with the global cache of
  compiled regular expressions. The expressions themselves (crate \<open>regex\<close>) are a parameter: the
  compilation of a pattern, which may fail, and the matching of a compiled one. The cache is
  threaded through the calls; the lemmas show that it does not change any answer.
\<close>

record 'x regex =
  rx_new :: "string \<Rightarrow> 'x option"
  rx_is_match :: "'x \<Rightarrow> string \<Rightarrow> bool"

datatype HeaderMatchType = HeaderExact | HeaderRegularExpression

record HeaderMatch =
  hm_name :: string
  hm_value :: string
  hm_match_type :: HeaderMatchType

datatype QueryParamMatchType = QueryExact | QueryRegularExpression

record QueryParamMatch =
  qm_name :: string
  qm_value :: string
  qm_match_type :: QueryParamMatchType

definition MAX_REGEX_CACHE_SIZE :: nat where "MAX_REGEX_CACHE_SIZE = 256"

type_synonym 'x regex_cache = "(string \<times> 'x) list"

definition get_cached_regex :: "'x regex \<Rightarrow> string \<Rightarrow> 'x regex_cache \<Rightarrow> 'x option \<times> 'x regex_cache" where
  "get_cached_regex R pattern cache =
     (case map_of cache pattern of
        Some x \<Rightarrow> (Some x, cache)
      | None \<Rightarrow>
          (case rx_new R pattern of
             Some x \<Rightarrow>
               let cache = (if length cache \<ge> MAX_REGEX_CACHE_SIZE then [] else cache)
               in (Some x, AList.update pattern x cache)
           | None \<Rightarrow> (None, cache)))"

definition eq_ignore_ascii_case :: "string \<Rightarrow> string \<Rightarrow> bool" where
  "eq_ignore_ascii_case s t \<longleftrightarrow> map ascii_lower s = map ascii_lower t"

text \<open>The value of a regular expression match, by the cache.\<close>

definition regex_value :: "'x regex \<Rightarrow> string \<Rightarrow> string \<Rightarrow> 'x regex_cache \<Rightarrow> bool \<times> 'x regex_cache" where
  "regex_value R pattern req_value cache =
     (case get_cached_regex R pattern cache of
        (Some x, cache') \<Rightarrow> (rx_is_match R x req_value, cache')
      | (None, cache') \<Rightarrow> (False, cache'))"

text \<open>The iterator method \<open>any\<close> with a closure that updates a state, and the loop that asks for all.\<close>

fun any_state :: "('a \<Rightarrow> 's \<Rightarrow> bool \<times> 's) \<Rightarrow> 'a list \<Rightarrow> 's \<Rightarrow> bool \<times> 's" where
  "any_state f [] s = (False, s)"
| "any_state f (x # xs) s = (let (ok, s') = f x s in if ok then (True, s') else any_state f xs s')"

fun all_state :: "('a \<Rightarrow> 's \<Rightarrow> bool \<times> 's) \<Rightarrow> 'a list \<Rightarrow> 's \<Rightarrow> bool \<times> 's" where
  "all_state f [] s = (True, s)"
| "all_state f (x # xs) s = (let (ok, s') = f x s in if \<not> ok then (False, s') else all_state f xs s')"

definition header_value_matches :: "'x regex \<Rightarrow> HeaderMatch \<Rightarrow> string \<times> string \<Rightarrow> 'x regex_cache \<Rightarrow>
    bool \<times> 'x regex_cache" where
  "header_value_matches R m h cache =
     (case h of (req_name, req_value) \<Rightarrow>
        if \<not> eq_ignore_ascii_case req_name (hm_name m) then (False, cache)
        else case hm_match_type m of
          HeaderExact \<Rightarrow> (req_value = hm_value m, cache)
        | HeaderRegularExpression \<Rightarrow> regex_value R (hm_value m) req_value cache)"

definition headers_match :: "'x regex \<Rightarrow> HeaderMatch list \<Rightarrow> (string \<times> string) list \<Rightarrow> 'x regex_cache \<Rightarrow>
    bool \<times> 'x regex_cache" where
  "headers_match R header_matches request_headers =
     all_state (\<lambda>m. any_state (header_value_matches R m) request_headers) header_matches"

definition query_value_matches :: "'x regex \<Rightarrow> QueryParamMatch \<Rightarrow> string \<times> string \<Rightarrow> 'x regex_cache \<Rightarrow>
    bool \<times> 'x regex_cache" where
  "query_value_matches R m q cache =
     (case q of (req_name, req_value) \<Rightarrow>
        if req_name \<noteq> qm_name m then (False, cache)
        else case qm_match_type m of
          QueryExact \<Rightarrow> (req_value = qm_value m, cache)
        | QueryRegularExpression \<Rightarrow> regex_value R (qm_value m) req_value cache)"

definition query_params_match :: "'x regex \<Rightarrow> QueryParamMatch list \<Rightarrow> (string \<times> string) list \<Rightarrow> 'x regex_cache \<Rightarrow>
    bool \<times> 'x regex_cache" where
  "query_params_match R query_param_matches request_query_params =
     all_state (\<lambda>m. any_state (query_value_matches R m) request_query_params) query_param_matches"

section \<open>The cache changes no answer\<close>

text \<open>The cached expressions are the compiled patterns, and there are at most 256 of them.\<close>

definition regex_cache_ok :: "'x regex \<Rightarrow> 'x regex_cache \<Rightarrow> bool" where
  "regex_cache_ok R cache \<longleftrightarrow> length cache \<le> MAX_REGEX_CACHE_SIZE \<and>
     (\<forall>p x. map_of cache p = Some x \<longrightarrow> rx_new R p = Some x)"

text \<open>The reference: matching without a cache.\<close>

definition regex_matches :: "'x regex \<Rightarrow> string \<Rightarrow> string \<Rightarrow> bool" where
  "regex_matches R pattern v = (case rx_new R pattern of Some x \<Rightarrow> rx_is_match R x v | None \<Rightarrow> False)"

definition header_satisfies :: "'x regex \<Rightarrow> HeaderMatch \<Rightarrow> string \<times> string \<Rightarrow> bool" where
  "header_satisfies R m h \<longleftrightarrow> eq_ignore_ascii_case (fst h) (hm_name m) \<and>
     (case hm_match_type m of HeaderExact \<Rightarrow> snd h = hm_value m
      | HeaderRegularExpression \<Rightarrow> regex_matches R (hm_value m) (snd h))"

definition query_satisfies :: "'x regex \<Rightarrow> QueryParamMatch \<Rightarrow> string \<times> string \<Rightarrow> bool" where
  "query_satisfies R m q \<longleftrightarrow> fst q = qm_name m \<and>
     (case qm_match_type m of QueryExact \<Rightarrow> snd q = qm_value m
      | QueryRegularExpression \<Rightarrow> regex_matches R (qm_value m) (snd q))"

lemma alist_update_length: "length (AList.update k v al) \<le> Suc (length al)"
  by (induction al) auto

lemma get_cached_regex_ok:
  assumes "regex_cache_ok R cache"
  shows "fst (get_cached_regex R p cache) = rx_new R p"
    and "regex_cache_ok R (snd (get_cached_regex R p cache))"
proof -
  show "fst (get_cached_regex R p cache) = rx_new R p"
    using assms by (auto simp: get_cached_regex_def regex_cache_ok_def Let_def split: option.split)
  have "length (AList.update p x (if length cache \<ge> MAX_REGEX_CACHE_SIZE then [] else cache)) \<le> MAX_REGEX_CACHE_SIZE"
    for x using alist_update_length [of p x cache] by (auto simp: MAX_REGEX_CACHE_SIZE_def)
  then show "regex_cache_ok R (snd (get_cached_regex R p cache))"
    using assms
    by (auto simp: get_cached_regex_def regex_cache_ok_def Let_def update_conv' split: option.splits if_splits)
qed

lemma regex_value_ok:
  assumes "regex_cache_ok R cache"
  shows "fst (regex_value R p v cache) = regex_matches R p v"
    and "regex_cache_ok R (snd (regex_value R p v cache))"
  using get_cached_regex_ok [OF assms, of p]
  by (auto simp: regex_value_def regex_matches_def split: prod.split option.split)

lemma any_state_ok:
  assumes "\<And>x s. ok_state s \<Longrightarrow> fst (f x s) = P x \<and> ok_state (snd (f x s))" "ok_state s"
  shows "fst (any_state f xs s) = (\<exists>x\<in>set xs. P x) \<and> ok_state (snd (any_state f xs s))"
  using assms(2)
proof (induction xs arbitrary: s)
  case (Cons x xs)
  obtain ok s' where f: "f x s = (ok, s')" by (cases "f x s")
  with assms(1) [OF Cons.prems, of x] have "ok = P x" "ok_state s'" by simp_all
  with Cons.IH [of s'] f show ?case by simp
qed simp

lemma all_state_ok:
  assumes "\<And>x s. ok_state s \<Longrightarrow> fst (f x s) = P x \<and> ok_state (snd (f x s))" "ok_state s"
  shows "fst (all_state f xs s) = (\<forall>x\<in>set xs. P x) \<and> ok_state (snd (all_state f xs s))"
  using assms(2)
proof (induction xs arbitrary: s)
  case (Cons x xs)
  obtain ok s' where f: "f x s = (ok, s')" by (cases "f x s")
  with assms(1) [OF Cons.prems, of x] have "ok = P x" "ok_state s'" by simp_all
  with Cons.IH [of s'] f show ?case by simp
qed simp

lemma header_value_matches_ok:
  "regex_cache_ok R cache \<Longrightarrow> fst (header_value_matches R m h cache) = header_satisfies R m h \<and>
     regex_cache_ok R (snd (header_value_matches R m h cache))"
  by (simp add: header_value_matches_def header_satisfies_def regex_value_ok
      split: prod.split HeaderMatchType.split)

lemma query_value_matches_ok:
  "regex_cache_ok R cache \<Longrightarrow> fst (query_value_matches R m q cache) = query_satisfies R m q \<and>
     regex_cache_ok R (snd (query_value_matches R m q cache))"
  by (simp add: query_value_matches_def query_satisfies_def regex_value_ok
      split: prod.split QueryParamMatchType.split)

lemma headers_match_ok:
  "regex_cache_ok R cache \<Longrightarrow>
     fst (headers_match R ms hs cache) = (\<forall>m\<in>set ms. \<exists>h\<in>set hs. header_satisfies R m h) \<and>
     regex_cache_ok R (snd (headers_match R ms hs cache))"
  unfolding headers_match_def by (intro all_state_ok any_state_ok header_value_matches_ok)

lemma query_params_match_ok:
  "regex_cache_ok R cache \<Longrightarrow>
     fst (query_params_match R ms qs cache) = (\<forall>m\<in>set ms. \<exists>q\<in>set qs. query_satisfies R m q) \<and>
     regex_cache_ok R (snd (query_params_match R ms qs cache))"
  unfolding query_params_match_def by (intro all_state_ok any_state_ok query_value_matches_ok)

text \<open>
  C25: Header matching through the shared cache of compiled expressions is the conjunction over the
  route's conditions: each is met by some request header with that name, in any letter case, whose
  value is equal or matches the expression, an invalid expression matching nothing. Whatever was
  cached before, the answer is the uncached one, and the cache stays correct and within 256 entries.
\<close>

theorem headers_match_and_semantics:
  assumes "regex_cache_ok R cache"
  shows "(fst (headers_match R ms hs cache) \<longleftrightarrow> (\<forall>m\<in>set ms. \<exists>h\<in>set hs. header_satisfies R m h)) \<and>
    regex_cache_ok R (snd (headers_match R ms hs cache))"
  using headers_match_ok [OF assms] by blast

theorem headers_match_and_semantics_witness:
  "fst (headers_match \<lparr>rx_new = Some, rx_is_match = (=)\<rparr>
     [\<lparr>hm_name = ''x-env'', hm_value = ''prod'', hm_match_type = HeaderRegularExpression\<rparr>]
     [(''X-Env'', ''prod'')] [])"
proof -
  have "regex_cache_ok \<lparr>rx_new = Some, rx_is_match = (=)\<rparr> []" by (simp add: regex_cache_ok_def)
  moreover have "eq_ignore_ascii_case ''X-Env'' ''x-env''" by code_simp
  ultimately show ?thesis using headers_match_and_semantics by (fastforce simp: header_satisfies_def regex_matches_def)
qed

end
