(* ===== verification/Router.thy ===== *)
theory Router
  imports Maglev Filters Route_Snapshot Health_Checker Route_Cache Route_Match Agent_Types
begin

text \<open>
  The HTTP router (\<open>control/src/proxy/router.rs\<close>): the route table, the prefix router built from it,
  the lookup cache, the health data and the choice of a backend by Maglev hashing.

  The radix tree (crate \<open>matchit\<close>) is a parameter, the record of the three operations the router
  calls. A hash map is an association list in its order of iteration. A lock or an atomic pointer is taken for
  one access, as in the source; the definitions are the operations without interference.
\<close>

section \<open>Routes\<close>

record RouteKey =
  rk_method :: HttpMethod
  rk_path_hash :: u64

record Route =
  rt_pattern :: string
  rt_backends :: "backend list"
  rt_maglev_table :: "u8 list"
  rt_header_matches :: "HeaderMatch list"
  rt_method_matches :: "HttpMethod list option"
  rt_query_param_matches :: "QueryParamMatch list"
  rt_request_filters :: "RequestHeaderModifier option"
  rt_response_filters :: "ResponseHeaderModifier option"
  rt_redirect :: "RequestRedirect option"
  rt_timeout :: "Timeout option"
  rt_retry :: "RetryConfig option"

record RouteMatch =
  rm_backend :: backend
  rm_pattern :: string
  rm_request_filters :: "RequestHeaderModifier option"
  rm_response_filters :: "ResponseHeaderModifier option"
  rm_redirect :: "RequestRedirect option"
  rm_timeout :: "Timeout option"
  rm_retry :: "RetryConfig option"

text \<open>The operations of \<open>matchit::Router<RouteKey>\<close> the router calls.\<close>

record 'r matchit =
  mi_new :: 'r
  mi_insert :: "string \<Rightarrow> RouteKey \<Rightarrow> 'r \<Rightarrow> string + 'r"
  mi_at :: "string \<Rightarrow> 'r \<Rightarrow> RouteKey option"

record 'r Router =
  routes :: "(RouteKey \<times> Route) list"
  prefix_router :: 'r
  health :: HealthData
  health_checker :: HealthChecker
  route_cache :: "RouteKey RouteLruCache"

definition ROUTE_CACHE_MAX_SIZE :: nat where "ROUTE_CACHE_MAX_SIZE = 128"

definition with_health_config :: "'r matchit \<Rightarrow> HealthCheckConfig \<Rightarrow> 'r Router" where
  "with_health_config M health_config =
     \<lparr>routes = [], prefix_router = mi_new M, health = healthdata_new,
      health_checker = hc_new health_config, route_cache = lru_new ROUTE_CACHE_MAX_SIZE\<rparr>"

definition router_new :: "'r matchit \<Rightarrow> 'r Router" where
  "router_new M = with_health_config M hc_config_default"

definition get_cache_stats :: "'r Router \<Rightarrow> u64 \<times> u64" where
  "get_cache_stats r = lru_stats (route_cache r)"

definition get_cache_size :: "'r Router \<Rightarrow> nat" where
  "get_cache_size r = lru_size (route_cache r)"

definition route_count :: "'r Router \<Rightarrow> nat" where
  "route_count r = length (routes r)"

definition key_of :: "HttpMethod \<Rightarrow> string \<Rightarrow> RouteKey" where
  "key_of method path = \<lparr>rk_method = method, rk_path_hash = fnv1a_hash (as_bytes path)\<rparr>"

section \<open>Adding routes\<close>

fun get_method_prefix :: "HttpMethod \<Rightarrow> string" where
  "get_method_prefix GET = ''GET:''"
| "get_method_prefix POST = ''POST:''"
| "get_method_prefix PUT = ''PUT:''"
| "get_method_prefix DELETE = ''DELETE:''"
| "get_method_prefix PATCH = ''PATCH:''"
| "get_method_prefix HEAD = ''HEAD:''"
| "get_method_prefix OPTIONS = ''OPTIONS:''"
| "get_method_prefix ALL_m = ''''"

definition trim_end_slashes :: "string \<Rightarrow> string" where
  "trim_end_slashes s = rev (dropWhile (\<lambda>c. c = CHR ''/'') (rev s))"

text \<open>The two patterns \<open>add_route\<close> inserts for a route: its path, and the catch-all below it.\<close>

definition method_patterns :: "RouteKey \<Rightarrow> Route \<Rightarrow> string \<times> string" where
  "method_patterns key route =
     (let path_str = rt_pattern route;
          method_prefix = get_method_prefix (rk_method key)
      in (method_prefix @ path_str,
          if path_str = ''/'' then method_prefix @ ''{*rest}''
          else method_prefix @ trim_end_slashes path_str @ ''/{*rest}''))"

text \<open>The patterns of the \<open>add_route_with_*\<close> functions do not carry the method.\<close>

definition plain_patterns :: "RouteKey \<Rightarrow> Route \<Rightarrow> string \<times> string" where
  "plain_patterns key route =
     (let path_str = rt_pattern route
      in (path_str, if path_str = ''/'' then ''/{*rest}'' else trim_end_slashes path_str @ ''/{*rest}''))"

fun rebuild :: "'r matchit \<Rightarrow> (RouteKey \<Rightarrow> Route \<Rightarrow> string \<times> string) \<Rightarrow> string \<Rightarrow>
    (RouteKey \<times> Route) list \<Rightarrow> 'r \<Rightarrow> string + 'r" where
  "rebuild M patterns what [] t = Inr t"
| "rebuild M patterns what ((key, route) # rest) t =
     (let (exact, wildcard) = patterns key route in
      case mi_insert M exact key t of
        Inl e \<Rightarrow> Inl (''Failed to add '' @ what @ '' '' @ rt_pattern route @ '': '' @ e)
      | Inr t1 \<Rightarrow>
          (case mi_insert M wildcard key t1 of
             Inl e \<Rightarrow> Inl (''Failed to add prefix route '' @ rt_pattern route @ '': '' @ e)
           | Inr t2 \<Rightarrow> rebuild M patterns what rest t2))"

definition plain_route :: "string \<Rightarrow> backend list \<Rightarrow> u8 list \<Rightarrow> Route" where
  "plain_route path bs table =
     \<lparr>rt_pattern = path, rt_backends = bs, rt_maglev_table = table, rt_header_matches = [],
      rt_method_matches = None, rt_query_param_matches = [], rt_request_filters = None,
      rt_response_filters = None, rt_redirect = None, rt_timeout = None, rt_retry = None\<rparr>"

text \<open>
  \<open>add_route\<close>: a panic of the table builder is the panic of the call; an error of the tree leaves
  the table of routes updated and the tree and the cache as they were.
\<close>

definition add_route :: "'r matchit \<Rightarrow> bool \<Rightarrow> HttpMethod \<Rightarrow> string \<Rightarrow> backend list \<Rightarrow> 'r Router \<Rightarrow>
    ((string + unit) \<times> 'r Router) outcome" where
  "add_route M in_runtime method path bs r =
     (let key = key_of method path in
      if (case map_of (routes r) key of Some existing \<Rightarrow> rt_backends existing = bs | None \<Rightarrow> False)
      then Done (Inr (), r)
      else case maglev_build_compact_table bs of
        Panic m \<Rightarrow> Panic m
      | Diverges \<Rightarrow> Diverges
      | Done table \<Rightarrow>
          let r = r\<lparr>health_checker := start_checking in_runtime bs path (health_checker r)\<rparr>;
              r = r\<lparr>routes := AList.update key (plain_route path bs table) (routes r)\<rparr>
          in Done (case rebuild M method_patterns ''exact route'' (routes r) (mi_new M) of
               Inl e \<Rightarrow> (Inl e, r)
             | Inr t \<Rightarrow> (Inr (), r\<lparr>prefix_router := t, route_cache := lru_invalidate key (route_cache r)\<rparr>)))"

definition update_route_backends :: "'r matchit \<Rightarrow> bool \<Rightarrow> HttpMethod \<Rightarrow> string \<Rightarrow> backend list \<Rightarrow> 'r Router \<Rightarrow>
    ((string + unit) \<times> 'r Router) outcome" where
  "update_route_backends M in_runtime method path bs r = add_route M in_runtime method path bs r"

text \<open>The common body of the \<open>add_route_with_*\<close> functions, which differ in the field they set.\<close>

definition add_route_with :: "'r matchit \<Rightarrow> string \<Rightarrow> HttpMethod \<Rightarrow> string \<Rightarrow> backend list \<Rightarrow>
    (Route \<Rightarrow> Route) \<Rightarrow> 'r Router \<Rightarrow> ((string + unit) \<times> 'r Router) outcome" where
  "add_route_with M what method path bs set_field r =
     (case maglev_build_compact_table bs of
        Panic m \<Rightarrow> Panic m
      | Diverges \<Rightarrow> Diverges
      | Done table \<Rightarrow>
          let r = r\<lparr>routes := AList.update (key_of method path) (set_field (plain_route path bs table)) (routes r)\<rparr>
          in Done (case rebuild M plain_patterns what (routes r) (mi_new M) of
               Inl e \<Rightarrow> (Inl e, r)
             | Inr t \<Rightarrow> (Inr (), r\<lparr>prefix_router := t\<rparr>)))"

definition add_route_with_headers :: "'r matchit \<Rightarrow> HttpMethod \<Rightarrow> string \<Rightarrow> backend list \<Rightarrow> HeaderMatch list \<Rightarrow>
    'r Router \<Rightarrow> ((string + unit) \<times> 'r Router) outcome" where
  "add_route_with_headers M method path bs hms =
     add_route_with M ''exact route'' method path bs (rt_header_matches_update (\<lambda>_. hms))"

definition add_route_with_methods :: "'r matchit \<Rightarrow> HttpMethod \<Rightarrow> string \<Rightarrow> backend list \<Rightarrow> HttpMethod list \<Rightarrow>
    'r Router \<Rightarrow> ((string + unit) \<times> 'r Router) outcome" where
  "add_route_with_methods M method path bs mms =
     add_route_with M ''exact route'' method path bs (rt_method_matches_update (\<lambda>_. Some mms))"

definition add_route_with_query_params :: "'r matchit \<Rightarrow> HttpMethod \<Rightarrow> string \<Rightarrow> backend list \<Rightarrow>
    QueryParamMatch list \<Rightarrow> 'r Router \<Rightarrow> ((string + unit) \<times> 'r Router) outcome" where
  "add_route_with_query_params M method path bs qms =
     add_route_with M ''exact route'' method path bs (rt_query_param_matches_update (\<lambda>_. qms))"

definition add_route_with_filters :: "'r matchit \<Rightarrow> HttpMethod \<Rightarrow> string \<Rightarrow> backend list \<Rightarrow>
    RequestHeaderModifier \<Rightarrow> 'r Router \<Rightarrow> ((string + unit) \<times> 'r Router) outcome" where
  "add_route_with_filters M method path bs filters =
     add_route_with M ''route'' method path bs (rt_request_filters_update (\<lambda>_. Some filters))"

definition add_route_with_response_filters :: "'r matchit \<Rightarrow> HttpMethod \<Rightarrow> string \<Rightarrow> backend list \<Rightarrow>
    ResponseHeaderModifier \<Rightarrow> 'r Router \<Rightarrow> ((string + unit) \<times> 'r Router) outcome" where
  "add_route_with_response_filters M method path bs filters =
     add_route_with M ''route'' method path bs (rt_response_filters_update (\<lambda>_. Some filters))"

definition add_route_with_redirect :: "'r matchit \<Rightarrow> HttpMethod \<Rightarrow> string \<Rightarrow> backend list \<Rightarrow>
    RequestRedirect \<Rightarrow> 'r Router \<Rightarrow> ((string + unit) \<times> 'r Router) outcome" where
  "add_route_with_redirect M method path bs redirect_filter =
     add_route_with M ''route'' method path bs (rt_redirect_update (\<lambda>_. Some redirect_filter))"

definition add_route_with_timeout :: "'r matchit \<Rightarrow> HttpMethod \<Rightarrow> string \<Rightarrow> backend list \<Rightarrow>
    Timeout \<Rightarrow> 'r Router \<Rightarrow> ((string + unit) \<times> 'r Router) outcome" where
  "add_route_with_timeout M method path bs timeout_config =
     add_route_with M ''route'' method path bs (rt_timeout_update (\<lambda>_. Some timeout_config))"

definition add_route_with_retry :: "'r matchit \<Rightarrow> HttpMethod \<Rightarrow> string \<Rightarrow> backend list \<Rightarrow>
    RetryConfig \<Rightarrow> 'r Router \<Rightarrow> ((string + unit) \<times> 'r Router) outcome" where
  "add_route_with_retry M method path bs retry_config =
     add_route_with M ''route'' method path bs (rt_retry_update (\<lambda>_. Some retry_config))"

section \<open>Health data\<close>

definition drain_backend :: "backend \<Rightarrow> duration \<Rightarrow> instant \<Rightarrow> 'r Router \<Rightarrow> 'r Router" where
  "drain_backend b drain_timeout now r =
     r\<lparr>health := (health r)\<lparr>draining_backends :=
        AList.update b (draining_new drain_timeout now) (draining_backends (health r))\<rparr>\<rparr>"

definition is_backend_draining :: "backend \<Rightarrow> 'r Router \<Rightarrow> bool" where
  "is_backend_draining b r \<longleftrightarrow> map_of (draining_backends (health r)) b \<noteq> None"

definition cleanup_expired_draining_backends :: "instant \<Rightarrow> 'r Router \<Rightarrow> 'r Router" where
  "cleanup_expired_draining_backends now r =
     r\<lparr>health := (health r)\<lparr>draining_backends :=
        filter (\<lambda>(_, d). \<not> is_expired now d) (draining_backends (health r))\<rparr>\<rparr>"

definition record_backend_response :: "backend \<Rightarrow> u16 \<Rightarrow> 'r Router \<Rightarrow> 'r Router" where
  "record_backend_response b status_code r =
     (let bh = (case map_of (backend_health (health r)) b of Some h \<Rightarrow> h | None \<Rightarrow> health_new)
      in r\<lparr>health := (health r)\<lparr>backend_health :=
           AList.update b (record_response status_code bh) (backend_health (health r))\<rparr>\<rparr>)"

definition healthy_passive :: "'r Router \<Rightarrow> backend \<Rightarrow> bool" where
  "healthy_passive r b =
     (case map_of (backend_health (health r)) b of Some h \<Rightarrow> bh_is_healthy h | None \<Rightarrow> True)"

definition backend_snapshot :: "'r Router \<Rightarrow> backend \<Rightarrow> BackendSnapshot" where
  "backend_snapshot r b =
     \<lparr>bs_address =
        (if is_ipv6 b then (case as_ipv6 b of Some a \<Rightarrow> ''['' @ show_ipv6 a @ '']'' | None \<Rightarrow> [])
         else (case as_ipv4 b of Some a \<Rightarrow> show_ipv4 a | None \<Rightarrow> [])),
      bs_port = port b, bs_weight = weight b, bs_is_ipv6 = is_ipv6 b,
      bs_is_draining = is_backend_draining b r,
      bs_health_score =
        map_option (\<lambda>h. if bh_is_healthy h then Fin 1 else Fin 0) (map_of (backend_health (health r)) b)\<rparr>"

definition list_routes :: "'r Router \<Rightarrow> RouteSnapshot list" where
  "list_routes r =
     map (\<lambda>(key, route).
       \<lparr>rs_pattern = rt_pattern route, rs_method = method_to_str (rk_method key),
        rs_backends = map (backend_snapshot r) (rt_backends route),
        rs_has_request_filters = (rt_request_filters route \<noteq> None),
        rs_has_response_filters = (rt_response_filters route \<noteq> None),
        rs_has_redirect = (rt_redirect route \<noteq> None), rs_has_timeout = (rt_timeout route \<noteq> None),
        rs_has_retry = (rt_retry route \<noteq> None)\<rparr>) (routes r)"

section \<open>Resolving a request to a route\<close>

definition prefix_lookup :: "'r matchit \<Rightarrow> HttpMethod \<Rightarrow> string \<Rightarrow> 'r Router \<Rightarrow> RouteKey option" where
  "prefix_lookup M method path r =
     (let found_key = mi_at M (get_method_prefix method @ path) (prefix_router r)
      in if found_key = None \<and> method \<noteq> ALL_m then mi_at M path (prefix_router r) else found_key)"

definition resolve :: "'r matchit \<Rightarrow> HttpMethod \<Rightarrow> string \<Rightarrow> 'r Router \<Rightarrow> RouteKey option" where
  "resolve M method path r =
     (let key = key_of method path; all_key = key_of ALL_m path;
          exact = (if map_of (routes r) key \<noteq> None then Some key
                   else if method \<noteq> ALL_m then
                     (if map_of (routes r) all_key \<noteq> None then Some all_key else None)
                   else None)
      in case exact of Some k \<Rightarrow> Some k | None \<Rightarrow> prefix_lookup M method path r)"

text \<open>The lookup through the cache, which keeps every successful resolution.\<close>

definition resolve_cached :: "'r matchit \<Rightarrow> HttpMethod \<Rightarrow> string \<Rightarrow> 'r Router \<Rightarrow> RouteKey option \<times> 'r Router" where
  "resolve_cached M method path r =
     (let key = key_of method path;
          (cached_key, cache) = lru_get key (route_cache r)
      in case cached_key of
           Some cached \<Rightarrow> (Some cached, r\<lparr>route_cache := cache\<rparr>)
         | None \<Rightarrow>
             (case resolve M method path r of
                Some resolved \<Rightarrow> (Some resolved, r\<lparr>route_cache := lru_insert key resolved cache\<rparr>)
              | None \<Rightarrow> (None, r\<lparr>route_cache := cache\<rparr>)))"

section \<open>Choosing a backend\<close>

datatype ipaddr = V4 ipv4addr | V6 ipv6addr

definition u64_from_be_bytes :: "u8 list \<Rightarrow> u64" where
  "u64_from_be_bytes bs = foldl (\<lambda>w b. push_bit 8 w OR ucast b) 0 bs"

fun ip_hash_of :: "ipaddr \<Rightarrow> u64" where
  "ip_hash_of (V4 v4) = ucast (u32_from_ipv4 v4)"
| "ip_hash_of (V6 v6) =
     (let bytes = ipv6_octets v6
      in u64_from_be_bytes (take 8 bytes) XOR u64_from_be_bytes (take 8 (drop 8 bytes)))"

definition compute_flow_hash :: "u64 \<Rightarrow> ipaddr option \<Rightarrow> u16 option \<Rightarrow> u64" where
  "compute_flow_hash path_hash src_ip src_port =
     (case (src_ip, src_port) of
        (Some addr, Some src) \<Rightarrow> path_hash XOR (push_bit 16 (ip_hash_of addr) OR ucast src)
      | _ \<Rightarrow> path_hash)"

text \<open>
  The loop of \<open>select_backend\<close> over its attempts: the backends tried are the bits of \<open>tried_mask\<close>,
  the index of the table a shift amount modulo 32. The question mark on an index out of range ends
  the call without a backend.
\<close>

fun pick_mask :: "(u64 \<Rightarrow> u8 outcome) \<Rightarrow> (backend \<Rightarrow> bool) \<Rightarrow> backend list \<Rightarrow> u64 \<Rightarrow> nat list \<Rightarrow> u32 \<Rightarrow> nat \<Rightarrow>
    backend option outcome" where
  "pick_mask lookup usable bs flow_hash [] tried_mask tried_count = Done None"
| "pick_mask lookup usable bs flow_hash (attempt # later) tried_mask tried_count =
     (case lookup (flow_hash + of_nat attempt) of
        Panic m \<Rightarrow> Panic m
      | Diverges \<Rightarrow> Diverges
      | Done backend_idx \<Rightarrow>
          let bit = push_bit (unat (backend_idx AND 31)) 1 in
          if tried_mask AND bit \<noteq> 0
          then pick_mask lookup usable bs flow_hash later tried_mask tried_count
          else if unat backend_idx < length bs then
            (let b = bs ! unat backend_idx in
             if usable b then Done (Some b)
             else if tried_count + 1 = length bs then Done None
             else pick_mask lookup usable bs flow_hash later (tried_mask OR bit) (tried_count + 1))
          else Done None)"

text \<open>The loop of the header and query variants, which keeps the tried indices in a set.\<close>

fun pick_set :: "(u64 \<Rightarrow> u8 outcome) \<Rightarrow> (backend \<Rightarrow> bool) \<Rightarrow> backend list \<Rightarrow> u64 \<Rightarrow> nat list \<Rightarrow> u8 set \<Rightarrow>
    backend option outcome" where
  "pick_set lookup usable bs flow_hash [] tried_indices = Done None"
| "pick_set lookup usable bs flow_hash (attempt # later) tried_indices =
     (case lookup (flow_hash + of_nat attempt) of
        Panic m \<Rightarrow> Panic m
      | Diverges \<Rightarrow> Diverges
      | Done backend_idx \<Rightarrow>
          if backend_idx \<in> tried_indices then pick_set lookup usable bs flow_hash later tried_indices
          else if unat backend_idx < length bs then
            (let b = bs ! unat backend_idx; tried = insert backend_idx tried_indices in
             if usable b then Done (Some b)
             else if card tried = length bs then Done None
             else pick_set lookup usable bs flow_hash later tried)
          else Done None)"

definition route_match :: "Route \<Rightarrow> backend \<Rightarrow> RouteMatch" where
  "route_match route b =
     \<lparr>rm_backend = b, rm_pattern = rt_pattern route, rm_request_filters = rt_request_filters route,
      rm_response_filters = rt_response_filters route, rm_redirect = rt_redirect route,
      rm_timeout = rt_timeout route, rm_retry = rt_retry route\<rparr>"

text \<open>A backend that may be chosen: healthy by its responses and by its probes, and not draining.\<close>

definition usable_backend :: "'r Router \<Rightarrow> backend \<Rightarrow> bool" where
  "usable_backend r b \<longleftrightarrow>
     healthy_passive r b \<and> hc_is_healthy b (health_checker r) \<and> \<not> is_backend_draining b r"

definition select_backend :: "'r matchit \<Rightarrow> HttpMethod \<Rightarrow> string \<Rightarrow> ipaddr option \<Rightarrow> u16 option \<Rightarrow> 'r Router \<Rightarrow>
    (RouteMatch option \<times> 'r Router) outcome" where
  "select_backend M method path src_ip src_port r =
     (case resolve_cached M method path r of
        (None, r) \<Rightarrow> Done (None, r)
      | (Some route_key, r) \<Rightarrow>
          (case map_of (routes r) route_key of
             None \<Rightarrow> Done (None, r)
           | Some route \<Rightarrow>
               if (case rt_method_matches route of Some ms \<Rightarrow> method \<notin> set ms | None \<Rightarrow> False)
               then Done (None, r)
               else map_outcome (\<lambda>b. (map_option (route_match route) b, r))
                 (pick_mask (\<lambda>k. maglev_lookup_compact k (rt_maglev_table route)) (usable_backend r)
                   (rt_backends route)
                   (compute_flow_hash (rk_path_hash (key_of method path)) src_ip src_port)
                   [0..<length (rt_backends route) * 10] 0 0)))"

text \<open>
  The variants with header and query parameter conditions resolve without the cache and without
  the exact lookup for routes of all methods, and do not ask the active health checker.
\<close>

definition resolve_uncached :: "'r matchit \<Rightarrow> HttpMethod \<Rightarrow> string \<Rightarrow> 'r Router \<Rightarrow> RouteKey option" where
  "resolve_uncached M method path r =
     (if map_of (routes r) (key_of method path) \<noteq> None then Some (key_of method path)
      else prefix_lookup M method path r)"

definition pick_conditional :: "'r Router \<Rightarrow> HttpMethod \<Rightarrow> string \<Rightarrow> ipaddr option \<Rightarrow> u16 option \<Rightarrow> Route \<Rightarrow>
    RouteMatch option outcome" where
  "pick_conditional r method path src_ip src_port route =
     map_outcome (map_option (route_match route))
       (pick_set (\<lambda>k. maglev_lookup_compact k (rt_maglev_table route))
         (\<lambda>b. healthy_passive r b \<and> \<not> is_backend_draining b r) (rt_backends route)
         (compute_flow_hash (rk_path_hash (key_of method path)) src_ip src_port)
         [0..<length (rt_backends route) * 10] {})"

definition select_backend_with_headers :: "'r matchit \<Rightarrow> 'x regex \<Rightarrow> HttpMethod \<Rightarrow> string \<Rightarrow>
    (string \<times> string) list \<Rightarrow> ipaddr option \<Rightarrow> u16 option \<Rightarrow> 'r Router \<Rightarrow> 'x regex_cache \<Rightarrow>
    RouteMatch option outcome \<times> 'x regex_cache" where
  "select_backend_with_headers M R method path request_headers src_ip src_port r cache =
     (case resolve_uncached M method path r of
        None \<Rightarrow> (Done None, cache)
      | Some route_key \<Rightarrow>
          (case map_of (routes r) route_key of
             None \<Rightarrow> (Done None, cache)
           | Some route \<Rightarrow>
               let (ok, cache') = (if rt_header_matches route = [] then (True, cache)
                                   else headers_match R (rt_header_matches route) request_headers cache)
               in if \<not> ok then (Done None, cache')
                  else (pick_conditional r method path src_ip src_port route, cache')))"

definition select_backend_with_query_params :: "'r matchit \<Rightarrow> 'x regex \<Rightarrow> HttpMethod \<Rightarrow> string \<Rightarrow>
    (string \<times> string) list \<Rightarrow> ipaddr option \<Rightarrow> u16 option \<Rightarrow> 'r Router \<Rightarrow> 'x regex_cache \<Rightarrow>
    RouteMatch option outcome \<times> 'x regex_cache" where
  "select_backend_with_query_params M R method path query_params src_ip src_port r cache =
     (case resolve_uncached M method path r of
        None \<Rightarrow> (Done None, cache)
      | Some route_key \<Rightarrow>
          (case map_of (routes r) route_key of
             None \<Rightarrow> (Done None, cache)
           | Some route \<Rightarrow>
               let (ok, cache') = (if rt_query_param_matches route = [] then (True, cache)
                                   else query_params_match R (rt_query_param_matches route) query_params cache)
               in if \<not> ok then (Done None, cache')
                  else (pick_conditional r method path src_ip src_port route, cache')))"

end
