(* ===== verification/Router_Select.thy ===== *)
theory Router_Select
  imports Router
begin

text \<open>
  The choice of a backend by the router. The locale \<open>backend_index\<close> states what the choice relies on:
  a table built from a list of backends answers every lookup with a position in the list. Inside
  it, the loop with the bit mask and the loop with the set are both shown to be the search for
  the first usable backend among the candidates of the flow; the Maglev table interprets it.
\<close>

section \<open>The loops are a search\<close>

lemma mask_bit_iff:
  assumes "unat (i :: u8) < 32"
  shows "(m AND push_bit (unat (i AND 31)) 1 \<noteq> (0 :: u32)) = bit m (unat i)"
    and "bit (m OR push_bit (unat (i AND 31)) 1 :: u32) j \<longleftrightarrow> bit m j \<or> j = unat i"
proof -
  have "i AND 31 = take_bit 5 i" by (simp add: take_bit_eq_mask mask_eq_exp_minus_1)
  then have i: "unat (i AND 31) = unat i"
    using assms by (simp add: unsigned_take_bit_eq take_bit_nat_eq_self)
  show "(m AND push_bit (unat (i AND 31)) 1 \<noteq> (0 :: u32)) = bit m (unat i)"
    by (simp add: i push_bit_eq_mult and_exp_eq_0_iff_not_bit)
  show "bit (m OR push_bit (unat (i AND 31)) 1 :: u32) j \<longleftrightarrow> bit m j \<or> j = unat i"
    using assms by (auto simp: i bit_simps)
qed

locale backend_index =
  fixes build :: "backend list \<Rightarrow> 't outcome"
    and lookup :: "u64 \<Rightarrow> 't \<Rightarrow> u8 outcome"
  assumes lookup_total: "build bs = Done t \<Longrightarrow> bs \<noteq> [] \<Longrightarrow> \<exists>i. lookup k t = Done i \<and> unat i < length bs"
    and build_small: "build bs = Done t \<Longrightarrow> length bs \<le> 32"
begin

definition index :: "u64 \<Rightarrow> 't \<Rightarrow> u8" where
  "index k t = (case lookup k t of Done i \<Rightarrow> i | _ \<Rightarrow> 0)"

definition candidate :: "backend list \<Rightarrow> 't \<Rightarrow> u64 \<Rightarrow> nat \<Rightarrow> backend" where
  "candidate bs t flow a = bs ! unat (index (flow + of_nat a) t)"

lemma lookup_index:
  assumes "build bs = Done t" "bs \<noteq> []"
  shows "lookup k t = Done (index k t)" "unat (index k t) < length bs" "unat (index k t) < 32"
  using lookup_total [OF assms, of k] build_small [OF assms(1)] by (auto simp: index_def)

text \<open>What the loops have tried: a set of positions, none of them usable.\<close>

definition tried_ok :: "(backend \<Rightarrow> bool) \<Rightarrow> backend list \<Rightarrow> nat set \<Rightarrow> bool" where
  "tried_ok usable bs S \<longleftrightarrow> S \<subseteq> {..<length bs} \<and> (\<forall>i\<in>S. \<not> usable (bs ! i))"

lemma tried_all:
  assumes "build bs = Done t" "bs \<noteq> []" "tried_ok usable bs S" "card S = length bs"
  shows "find usable (map (candidate bs t flow) as) = None"
proof -
  have "S = {..<length bs}" using assms(3,4) card_subset_eq [of "{..<length bs}" S] by (auto simp: tried_ok_def)
  then have "\<not> usable (candidate bs t flow a)" for a
    using assms(3) lookup_index(2) [OF assms(1,2)] by (auto simp: tried_ok_def candidate_def)
  then show ?thesis by (simp add: find_None_iff)
qed

lemma pick_mask_find:
  assumes t: "build bs = Done t" "bs \<noteq> []"
    and "tried_ok usable bs S" "\<And>i. i < 32 \<Longrightarrow> bit m i \<longleftrightarrow> i \<in> S" "count = card S"
  shows "pick_mask (\<lambda>k. lookup k t) usable bs flow as m count =
    Done (find usable (map (candidate bs t flow) as))"
  using assms(3-5)
proof (induction as arbitrary: m count S)
  case (Cons a as)
  let ?i = "index (flow + of_nat a) t"
  have i: "lookup (flow + of_nat a) t = Done ?i" "unat ?i < length bs" "unat ?i < 32"
    using lookup_index [OF t] by blast+
  note bits = mask_bit_iff [OF i(3), of m]
  have c: "candidate bs t flow a = bs ! unat ?i" by (simp add: candidate_def)
  show ?case
  proof (cases "unat ?i \<in> S")
    case True
    then have "\<not> usable (bs ! unat ?i)" using Cons.prems(1) by (simp add: tried_ok_def)
    then show ?thesis using True Cons i bits(1) by (simp add: c Let_def)
  next
    case False
    show ?thesis
    proof (cases "usable (bs ! unat ?i)")
      case True
      then show ?thesis using False Cons.prems i bits(1) by (simp add: c Let_def)
    next
      case unusable: False
      let ?S = "insert (unat ?i) S"
      have S: "tried_ok usable bs ?S" using Cons.prems(1) unusable i(2) by (simp add: tried_ok_def)
      moreover have "finite S" using Cons.prems(1) finite_subset [of S "{..<length bs}"] by (simp add: tried_ok_def)
      then have card: "card ?S = count + 1" using False Cons.prems(3) by simp
      have "pick_mask (\<lambda>k. lookup k t) usable bs flow as (m OR push_bit (unat (?i AND 31)) 1) (count + 1) =
          Done (find usable (map (candidate bs t flow) as))"
        by (rule Cons.IH [OF S]) (use card bits(2) Cons.prems(2) in auto)
      moreover have "find usable (map (candidate bs t flow) as) = None" if "count + 1 = length bs"
        using tried_all [OF t S] card that by simp
      ultimately show ?thesis using False unusable Cons.prems i bits(1) by (simp add: c Let_def)
    qed
  qed
qed simp

lemma pick_set_find:
  assumes t: "build bs = Done t" "bs \<noteq> []" and "tried_ok usable bs (unat ` S)"
  shows "pick_set (\<lambda>k. lookup k t) usable bs flow as S = Done (find usable (map (candidate bs t flow) as))"
  using assms(3)
proof (induction as arbitrary: S)
  case (Cons a as)
  let ?i = "index (flow + of_nat a) t"
  have i: "lookup (flow + of_nat a) t = Done ?i" "unat ?i < length bs" using lookup_index [OF t] by blast+
  have c: "candidate bs t flow a = bs ! unat ?i" by (simp add: candidate_def)
  show ?case
  proof (cases "?i \<in> S \<or> usable (bs ! unat ?i)")
    case True
    moreover have "\<not> usable (bs ! unat ?i)" if "?i \<in> S" using that Cons.prems by (auto simp: tried_ok_def)
    ultimately show ?thesis using Cons i by (auto simp: c Let_def)
  next
    case False
    let ?S = "insert ?i S"
    have S: "tried_ok usable bs (unat ` ?S)" using Cons.prems False i(2) by (simp add: tried_ok_def)
    have "card (unat ` ?S) = card ?S" by (intro card_image inj_onI) (simp add: word_unat_eq_iff)
    then have "find usable (map (candidate bs t flow) as) = None" if "card ?S = length bs"
      using tried_all [OF t S] that by simp
    then show ?thesis using False Cons.IH [OF S] i by (simp add: c Let_def)
  qed
qed simp

text \<open>Both loops from their start, for any list of backends the table can be built for.\<close>

lemma picks_find:
  assumes "build bs = Done t"
  shows "pick_mask (\<lambda>k. lookup k t) usable bs flow [0..<length bs * 10] 0 0 =
      Done (find usable (map (candidate bs t flow) [0..<length bs * 10]))"
    and "pick_set (\<lambda>k. lookup k t) usable bs flow [0..<length bs * 10] {} =
      Done (find usable (map (candidate bs t flow) [0..<length bs * 10]))"
proof -
  show "pick_mask (\<lambda>k. lookup k t) usable bs flow [0..<length bs * 10] 0 0 =
      Done (find usable (map (candidate bs t flow) [0..<length bs * 10]))"
    using pick_mask_find [OF assms, of usable "{}" 0 0] by (cases "bs = []") (simp_all add: tried_ok_def)
  show "pick_set (\<lambda>k. lookup k t) usable bs flow [0..<length bs * 10] {} =
      Done (find usable (map (candidate bs t flow) [0..<length bs * 10]))"
    using pick_set_find [OF assms, of usable "{}"] by (cases "bs = []") (simp_all add: tried_ok_def)
qed

end

interpretation maglev: backend_index maglev_build_compact_table maglev_lookup_compact
proof
  fix bs t k assume t: "maglev_build_compact_table bs = Done t"
  show "\<exists>i. maglev_lookup_compact k t = Done i \<and> unat i < length bs" if "bs \<noteq> []"
  proof -
    note e = compact_build_entries [OF t that]
    have "t \<noteq> []" using e(1) by (auto simp: COMPACT_MAGLEV_SIZE_def)
    with e lookup_index_lt [of k] show ?thesis by (auto simp: maglev_lookup_compact_def Let_def)
  qed
  show "length bs \<le> 32" using t compact_build_panic(2) [of bs] by (fastforce simp: MAX_BACKENDS_def)
qed

section \<open>Routers that can arise\<close>

datatype route_extra =
    Headers "HeaderMatch list" | Methods "HttpMethod list" | QueryParams "QueryParamMatch list"
  | RequestFilters RequestHeaderModifier | ResponseFilters ResponseHeaderModifier
  | Redirect RequestRedirect | Timeouts Timeout | Retries RetryConfig

fun add_route_extra :: "'r matchit \<Rightarrow> route_extra \<Rightarrow> HttpMethod \<Rightarrow> string \<Rightarrow> backend list \<Rightarrow> 'r Router \<Rightarrow>
    ((string + unit) \<times> 'r Router) outcome" where
  "add_route_extra M (Headers x) m p bs = add_route_with_headers M m p bs x"
| "add_route_extra M (Methods x) m p bs = add_route_with_methods M m p bs x"
| "add_route_extra M (QueryParams x) m p bs = add_route_with_query_params M m p bs x"
| "add_route_extra M (RequestFilters x) m p bs = add_route_with_filters M m p bs x"
| "add_route_extra M (ResponseFilters x) m p bs = add_route_with_response_filters M m p bs x"
| "add_route_extra M (Redirect x) m p bs = add_route_with_redirect M m p bs x"
| "add_route_extra M (Timeouts x) m p bs = add_route_with_timeout M m p bs x"
| "add_route_extra M (Retries x) m p bs = add_route_with_retry M m p bs x"

inductive router_reach :: "'r matchit \<Rightarrow> 'r Router \<Rightarrow> bool" for M where
  start: "router_reach M (with_health_config M config)"
| add: "router_reach M r \<Longrightarrow> add_route M rt m p bs r = Done (res, r') \<Longrightarrow> router_reach M r'"
| add_extra: "router_reach M r \<Longrightarrow> add_route_extra M x m p bs r = Done (res, r') \<Longrightarrow> router_reach M r'"
| select: "router_reach M r \<Longrightarrow> select_backend M m p src src_port r = Done (res', r') \<Longrightarrow> router_reach M r'"
| response: "router_reach M r \<Longrightarrow> router_reach M (record_backend_response b code r)"
| drain: "router_reach M r \<Longrightarrow> router_reach M (drain_backend b timeout now r)"
| cleanup: "router_reach M r \<Longrightarrow> router_reach M (cleanup_expired_draining_backends now r)"
| probe: "router_reach M r \<Longrightarrow> router_reach M (r\<lparr>health_checker := run_probe pr (health_checker r)\<rparr>)"

definition router_inv :: "'r Router \<Rightarrow> bool" where
  "router_inv r \<longleftrightarrow> distinct (map fst (routes r)) \<and> lru_inv (route_cache r) \<and>
     (\<forall>k route. map_of (routes r) k = Some route \<longrightarrow>
        maglev_build_compact_table (rt_backends route) = Done (rt_maglev_table route))"

lemma router_inv_routes:
  assumes "router_inv r" "maglev_build_compact_table (rt_backends route) = Done (rt_maglev_table route)"
    and "routes r' = AList.update k route (routes r)" "lru_inv (route_cache r')"
  shows "router_inv r'"
  using assms by (auto simp: router_inv_def distinct_update update_conv' split: if_splits)

lemma add_route_inv:
  assumes "router_inv r" "add_route M rt m p bs r = Done (res, r')"
  shows "router_inv r'"
proof (cases "maglev_build_compact_table bs")
  case (Done t)
  then have "r' = r \<or> routes r' = AList.update (key_of m p) (plain_route p bs t) (routes r) \<and>
      (route_cache r' = route_cache r \<or> route_cache r' = lru_invalidate (key_of m p) (route_cache r))"
    using assms(2) by (auto simp: add_route_def Let_def split: if_splits option.splits sum.splits)
  moreover have "lru_inv (route_cache r)" using assms(1) by (simp add: router_inv_def)
  ultimately show ?thesis
    using assms(1) Done router_inv_routes [OF assms(1), of "plain_route p bs t" r' "key_of m p"]
    by (auto simp: plain_route_def lru_invalidate_inv)
qed (use assms in \<open>auto simp: add_route_def Let_def split: if_splits option.splits\<close>)

lemma add_route_with_inv:
  assumes "router_inv r" "add_route_with M what m p bs f r = Done (res, r')"
    and "\<And>route. rt_backends (f route) = rt_backends route \<and> rt_maglev_table (f route) = rt_maglev_table route"
  shows "router_inv r'"
proof (cases "maglev_build_compact_table bs")
  case (Done t)
  then have r': "routes r' = AList.update (key_of m p) (f (plain_route p bs t)) (routes r)"
    "route_cache r' = route_cache r"
    using assms(2) by (auto simp: add_route_with_def Let_def split: sum.splits)
  have "lru_inv (route_cache r)" using assms(1) by (simp add: router_inv_def)
  with r' show ?thesis
    using Done assms(3) by (intro router_inv_routes [OF assms(1) _ r'(1)]) (simp_all add: plain_route_def)
qed (use assms in \<open>auto simp: add_route_with_def\<close>)

lemma add_route_extra_inv:
  "router_inv r \<Longrightarrow> add_route_extra M x m p bs r = Done (res, r') \<Longrightarrow> router_inv r'"
  by (cases x)
    (auto simp: add_route_with_headers_def add_route_with_methods_def add_route_with_query_params_def
      add_route_with_filters_def add_route_with_response_filters_def add_route_with_redirect_def
      add_route_with_timeout_def add_route_with_retry_def elim!: add_route_with_inv)

lemma resolve_cached_frame:
  assumes "resolve_cached M m p r = (k, r')"
  shows "routes r' = routes r" "health r' = health r" "health_checker r' = health_checker r"
    "prefix_router r' = prefix_router r" "lru_inv (route_cache r) \<Longrightarrow> lru_inv (route_cache r')"
  using assms lru_get_inv [of "route_cache r" "key_of m p"]
  by (auto simp: resolve_cached_def Let_def lru_insert_inv split: prod.splits option.splits)


lemma select_backend_frame:
  assumes "select_backend M m p src src_port r = Done (res, r')"
  shows "r' = snd (resolve_cached M m p r)"
  using assms by (auto simp: select_backend_def map_outcome_Done split: prod.splits option.splits if_splits)

lemma usable_frame:
  "health r' = health r \<Longrightarrow> health_checker r' = health_checker r \<Longrightarrow> usable_backend r' = usable_backend r"
  by (simp add: fun_eq_iff usable_backend_def healthy_passive_def is_backend_draining_def)

lemma router_inv_health [simp]:
  "router_inv (record_backend_response b code r) = router_inv r"
  "router_inv (drain_backend b timeout now r) = router_inv r"
  "router_inv (cleanup_expired_draining_backends now r) = router_inv r"
  "router_inv (r\<lparr>health_checker := hc\<rparr>) = router_inv r"
  by (simp_all add: router_inv_def record_backend_response_def drain_backend_def
      cleanup_expired_draining_backends_def Let_def)

lemma router_reach_inv: "router_reach M r \<Longrightarrow> router_inv r"
proof (induction rule: router_reach.induct)
  case (start config)
  show ?case by (simp add: router_inv_def with_health_config_def lru_inv_def lru_new_def ROUTE_CACHE_MAX_SIZE_def)
next
  case (select r m p src src_port res' r')
  then have "r' = snd (resolve_cached M m p r)" by (intro select_backend_frame)
  with resolve_cached_frame [of M m p r "fst (resolve_cached M m p r)" r'] select.IH
  show ?case by (simp add: router_inv_def)
qed (auto intro: add_route_inv add_route_extra_inv)

section \<open>The choice\<close>

text \<open>
  The reference: the candidates of a flow are the backends at the slots from its hash on, ten
  times as many as there are backends, around the table; the first usable one is chosen.
\<close>

definition flow_candidates :: "Route \<Rightarrow> u64 \<Rightarrow> backend list" where
  "flow_candidates route flow =
     map (\<lambda>a. rt_backends route ! unat (rt_maglev_table route !
            unat ((flow + of_nat a) mod of_nat COMPACT_MAGLEV_SIZE)))
       [0..<10 * length (rt_backends route)]"

definition choose_backend :: "'r Router \<Rightarrow> HttpMethod \<Rightarrow> Route \<Rightarrow> u64 \<Rightarrow> RouteMatch option" where
  "choose_backend r method route flow =
     (if (case rt_method_matches route of Some ms \<Rightarrow> method \<notin> set ms | None \<Rightarrow> False) then None
      else map_option (route_match route) (find (usable_backend r) (flow_candidates route flow)))"

lemma flow_candidates_maglev:
  assumes "maglev_build_compact_table (rt_backends route) = Done (rt_maglev_table route)"
  shows "flow_candidates route flow =
    map (maglev.candidate (rt_backends route) (rt_maglev_table route) flow) [0..<length (rt_backends route) * 10]"
proof (cases "rt_backends route = []")
  case False
  note e = compact_build_entries [OF assms False]
  have "rt_maglev_table route \<noteq> []" using e(1) by (auto simp: COMPACT_MAGLEV_SIZE_def)
  then have "maglev.index k (rt_maglev_table route) =
      rt_maglev_table route ! unat (k mod of_nat COMPACT_MAGLEV_SIZE)" for k
    using e(1) lookup_index_lt [of k]
    unfolding maglev.index_def by (simp add: maglev_lookup_compact_def Let_def)
  then show ?thesis
    unfolding flow_candidates_def maglev.candidate_def by (simp add: mult.commute)
qed (simp add: flow_candidates_def)

lemma select_backend_choose:
  assumes "router_inv r"
  shows "select_backend M m p src src_port r =
    Done (case fst (resolve_cached M m p r) of
        None \<Rightarrow> None
      | Some k \<Rightarrow> (case map_of (routes r) k of
            None \<Rightarrow> None
          | Some route \<Rightarrow> choose_backend r m route (compute_flow_hash (fnv1a_hash (as_bytes p)) src src_port)),
      snd (resolve_cached M m p r))"
proof -
  obtain k r' where k: "resolve_cached M m p r = (k, r')" by (cases "resolve_cached M m p r")
  note frame = resolve_cached_frame [OF k]
  show ?thesis
  proof (cases "\<exists>key route. k = Some key \<and> map_of (routes r) key = Some route")
    case True
    then obtain key route where kr: "k = Some key" "map_of (routes r) key = Some route" by blast
    then have t: "maglev_build_compact_table (rt_backends route) = Done (rt_maglev_table route)"
      using assms by (auto simp: router_inv_def)
    show ?thesis
      using kr k frame maglev.picks_find(1) [OF t] usable_frame [of r' r]
      by (simp add: select_backend_def choose_backend_def flow_candidates_maglev [OF t] key_of_def)
  next
    case False
    then show ?thesis using k frame(1)
      by (cases k) (auto simp: select_backend_def split: option.splits)
  qed
qed

lemma flow_candidates_set:
  assumes "maglev_build_compact_table (rt_backends route) = Done (rt_maglev_table route)"
  shows "set (flow_candidates route flow) \<subseteq> set (rt_backends route)"
    and "rt_backends route \<noteq> [] \<Longrightarrow> flow_candidates route flow \<noteq> []"
proof -
  show "rt_backends route \<noteq> [] \<Longrightarrow> flow_candidates route flow \<noteq> []" by (simp add: flow_candidates_def)
  show "set (flow_candidates route flow) \<subseteq> set (rt_backends route)"
  proof (cases "rt_backends route = []")
    case False
    then show ?thesis using compact_build_entries(2) [OF assms False lookup_index_lt]
      by (auto simp: flow_candidates_def)
  qed (simp add: flow_candidates_def)
qed

lemma find_SomeD: "find P xs = Some x \<Longrightarrow> x \<in> set xs \<and> P x"
  by (induction xs) (auto split: if_splits)

lemma find_all: "xs \<noteq> [] \<Longrightarrow> \<forall>x\<in>set xs. P x \<Longrightarrow> find P xs = Some (hd xs)"
  by (cases xs) simp_all

end
