(* ===== verification/Router_Routing.thy ===== *)
theory Router_Routing
  imports Router_Select
begin

text \<open>
  Which route a request reaches. The documented behaviour of the radix tree is stated as a predicate
  over its three operations: after a sequence of successful insertions a path finds the pattern
  equal to it, and otherwise the catch-all pattern with the longest static part. A simple matcher
  over lists satisfies it. On top of it: what the cache does to the resolution of later requests,
  and what becomes of the method-neutral routes.
\<close>

section \<open>The radix tree\<close>

text \<open>The static part of a pattern that ends with the catch-all parameter.\<close>

definition wildcard_part :: "string \<Rightarrow> string option" where
  "wildcard_part pat =
     (let n = length pat - 7 in if 7 \<le> length pat \<and> drop n pat = ''{*rest}'' then Some (take n pat) else None)"

definition covering :: "(string \<times> 'k) list \<Rightarrow> string \<Rightarrow> (string \<times> 'k) list" where
  "covering ps p =
     List.map_filter (\<lambda>(pat, k). case wildcard_part pat of
        Some s \<Rightarrow> if length s < length p \<and> take (length s) p = s then Some (s, k) else None
      | None \<Rightarrow> None) ps"

fun longest :: "(string \<times> 'k) list \<Rightarrow> (string \<times> 'k) option" where
  "longest [] = None"
| "longest ((s, k) # rest) =
     (case longest rest of
        None \<Rightarrow> Some (s, k)
      | Some (s', k') \<Rightarrow> if length s \<ge> length s' then Some (s, k) else Some (s', k'))"

definition best_match :: "(string \<times> 'k) list \<Rightarrow> string \<Rightarrow> 'k option" where
  "best_match ps p = (case map_of ps p of Some k \<Rightarrow> Some k | None \<Rightarrow> map_option snd (longest (covering ps p)))"

fun insert_all :: "'r matchit \<Rightarrow> (string \<times> RouteKey) list \<Rightarrow> 'r \<Rightarrow> string + 'r" where
  "insert_all M [] t = Inr t"
| "insert_all M ((p, k) # ps) t = (case mi_insert M p k t of Inl e \<Rightarrow> Inl e | Inr t' \<Rightarrow> insert_all M ps t')"

text \<open>Patterns without parameters but for a catch-all at the end.\<close>

definition plain_pattern :: "string \<Rightarrow> bool" where
  "plain_pattern pat \<longleftrightarrow>
     CHR ''{'' \<notin> set (case wildcard_part pat of Some s \<Rightarrow> s | None \<Rightarrow> pat)"

definition matchit_documented :: "'r matchit \<Rightarrow> bool" where
  "matchit_documented M \<longleftrightarrow>
     (\<forall>ps t p. insert_all M ps (mi_new M) = Inr t \<and> list_all (\<lambda>(pat, _). plain_pattern pat) ps \<longrightarrow>
        mi_at M p t = best_match ps p)"

lemma matchit_documentedD:
  "matchit_documented M \<Longrightarrow> insert_all M ps (mi_new M) = Inr t \<Longrightarrow>
     list_all (\<lambda>(pat, _). plain_pattern pat) ps \<Longrightarrow> mi_at M p t = best_match ps p"
  by (simp add: matchit_documented_def)

definition list_matchit :: "(string \<times> RouteKey) list matchit" where
  "list_matchit =
     \<lparr>mi_new = [],
      mi_insert = (\<lambda>p k t. if map_of t p = None then Inr (t @ [(p, k)]) else Inl ''conflict''),
      mi_at = (\<lambda>p t. best_match t p)\<rparr>"

lemma list_matchit_simps [simp]:
  "mi_new list_matchit = []" "mi_at list_matchit p t = best_match t p"
  "mi_insert list_matchit p k t = (if map_of t p = None then Inr (t @ [(p, k)]) else Inl ''conflict'')"
  by (simp_all add: list_matchit_def)

lemma list_matchit_insert_all: "insert_all list_matchit ps t = Inr t' \<Longrightarrow> t' = t @ ps"
proof (induction ps arbitrary: t)
  case (Cons a ps)
  then show ?case using Cons.IH [of "t @ [a]"] by (cases a) (auto split: if_splits)
qed simp

lemma list_matchit_documented: "matchit_documented list_matchit"
  using list_matchit_insert_all [of _ "[]"] by (fastforce simp: matchit_documented_def)

definition patterns_of :: "(RouteKey \<Rightarrow> Route \<Rightarrow> string \<times> string) \<Rightarrow> (RouteKey \<times> Route) list \<Rightarrow>
    (string \<times> RouteKey) list" where
  "patterns_of pats rs =
     concat (map (\<lambda>(k, route). [(fst (pats k route), k), (snd (pats k route), k)]) rs)"

lemma rebuild_insert_all:
  "rebuild M pats what rs t = Inr t' \<Longrightarrow> insert_all M (patterns_of pats rs) t = Inr t'"
  by (induction M pats what rs t rule: rebuild.induct)
    (auto simp: patterns_of_def Let_def split: prod.splits sum.splits)

section \<open>The cache and later routes\<close>

lemma add_route_other_cache:
  assumes "add_route M rt m p bs r = Done (Inr (), r')" "key \<noteq> key_of m p"
  shows "map_of (entries (route_cache r')) key = map_of (entries (route_cache r)) key"
proof (cases "maglev_build_compact_table bs")
  case (Done t)
  then have "r' = r \<or> route_cache r' = lru_invalidate (key_of m p) (route_cache r)"
    using assms(1) by (auto simp: add_route_def Let_def split: if_splits option.splits sum.splits)
  then show ?thesis using assms(2) by (auto simp: lru_invalidate_def AList.delete_conv')
qed (use assms(1) in \<open>auto simp: add_route_def Let_def split: if_splits option.splits\<close>)

lemma add_route_present:
  assumes "add_route M rt m p bs r = Done (Inr (), r')"
  shows "map_of (routes r') (key_of m p) \<noteq> None"
proof (cases "maglev_build_compact_table bs")
  case (Done t)
  then have "r' = r \<and> map_of (routes r) (key_of m p) \<noteq> None \<or>
      routes r' = AList.update (key_of m p) (plain_route p bs t) (routes r)"
    using assms by (auto simp: add_route_def Let_def split: if_splits option.splits sum.splits)
  then show ?thesis by (auto simp: update_conv')
qed (use assms in \<open>auto simp: add_route_def Let_def split: if_splits option.splits\<close>)

lemma add_route_other_routes:
  assumes "add_route M rt m p bs r = Done (res, r')" "key \<noteq> key_of m p"
  shows "map_of (routes r') key = map_of (routes r) key"
proof (cases "maglev_build_compact_table bs")
  case (Done t)
  then have "r' = r \<or> routes r' = AList.update (key_of m p) (plain_route p bs t) (routes r)"
    using assms by (auto simp: add_route_def Let_def split: if_splits option.splits sum.splits)
  then show ?thesis using assms(2) by (auto simp: update_conv')
qed (use assms in \<open>auto simp: add_route_def Let_def split: if_splits option.splits\<close>)

lemma key_of_method: "m \<noteq> m' \<Longrightarrow> key_of m p \<noteq> key_of m' q"
  by (simp add: key_of_def)

text \<open>
  A stale resolution outlives the route that should replace it: if a request of method \<open>m\<close> for a path
  has been resolved and cached, and then a method-neutral route for exactly this path is added,
  the cache is invalidated for the key of the new route only. Later requests of method \<open>m\<close> still go
  to the old route, although an uncached lookup finds the new one.
\<close>

theorem stale_route_served:
  assumes "map_of (entries (route_cache r)) (key_of m p) = Some old" "m \<noteq> ALL_m"
    and "map_of (routes r) (key_of m p) = None"
    and "add_route M rt ALL_m p bs r = Done (Inr (), r')"
  shows "fst (resolve_cached M m p r') = Some old \<and> resolve M m p r' = Some (key_of ALL_m p)"
proof -
  have other: "key_of m p \<noteq> key_of ALL_m p" using assms(2) by (rule key_of_method)
  have "map_of (entries (route_cache r')) (key_of m p) = Some old"
    using add_route_other_cache [OF assms(4) other] assms(1) by simp
  moreover have "map_of (routes r') (key_of m p) = None"
    using add_route_other_routes [OF assms(4) other] assms(3) by simp
  ultimately show ?thesis
    using add_route_present [OF assms(4)] assms(2)
    by (auto simp: resolve_cached_def resolve_def lru_get_def Let_def)
qed

section \<open>Method-neutral routes\<close>

lemma add_route_fresh:
  assumes "add_route M rt m p bs r = Done (Inr (), r')" "map_of (routes r) (key_of m p) = None"
  shows "\<exists>t. routes r' = routes r @ [(key_of m p, plain_route p bs t)] \<and>
    insert_all M (patterns_of method_patterns (routes r')) (mi_new M) = Inr (prefix_router r')"
proof (cases "maglev_build_compact_table bs")
  case (Done t)
  then have "routes r' = AList.update (key_of m p) (plain_route p bs t) (routes r)"
    "rebuild M method_patterns ''exact route'' (routes r') (mi_new M) = Inr (prefix_router r')"
    using assms by (auto simp: add_route_def Let_def split: sum.splits)
  then show ?thesis using rebuild_insert_all alist_update_new [OF assms(2)] by metis
qed (use assms in \<open>auto simp: add_route_def Let_def\<close>)

lemma path_hashes:
  "fnv1a_hash (as_bytes ''/'') \<noteq> fnv1a_hash (as_bytes ''/api'')"
  "fnv1a_hash (as_bytes ''/api/users'') \<noteq> fnv1a_hash (as_bytes ''/'')"
  "fnv1a_hash (as_bytes ''/api/users'') \<noteq> fnv1a_hash (as_bytes ''/api'')"
  by code_simp+

lemma root_patterns:
  "list_all (\<lambda>(pat, _). plain_pattern pat) [(''/'', k), (''{*rest}'', k), (''/api'', k'), (''/api/{*rest}'', k')]"
  "best_match [(''/'', k), (''{*rest}'', k), (''/api'', k'), (''/api/{*rest}'', k')] ''GET:/api/users'' = Some k"
  "best_match [(''/'', k), (''{*rest}'', k), (''/api'', k'), (''/api/{*rest}'', k')] ''/api/users'' = Some k'"
  by (simp_all add: plain_pattern_def wildcard_part_def best_match_def covering_def List.map_filter_def)

text \<open>
  With two method-neutral routes, one for \<open>/\<close> and one for \<open>/api\<close>, a \<open>GET\<close> request below \<open>/api\<close> goes
  to the route for \<open>/\<close>: the catch-all pattern of the root is inserted without a leading slash, so it
  already matches the lookup key that carries the method, and the lookup by the bare path, which
  would find \<open>/api\<close>, is not made.
\<close>

theorem root_route_shadows:
  assumes "matchit_documented M"
    and "add_route M rt ALL_m ''/'' bs (router_new M) = Done (Inr (), r1)"
    and "add_route M rt ALL_m ''/api'' bs' r1 = Done (Inr (), r2)"
  shows "resolve M GET ''/api/users'' r2 = Some (key_of ALL_m ''/'') \<and>
    mi_at M ''/api/users'' (prefix_router r2) = Some (key_of ALL_m ''/api'')"
proof -
  let ?k = "key_of ALL_m ''/''" and ?k' = "key_of ALL_m ''/api''"
  have new: "map_of (routes (router_new M)) ?k = None" "routes (router_new M) = []"
    by (simp_all add: router_new_def with_health_config_def)
  obtain t where r1: "routes r1 = [(?k, plain_route ''/'' bs t)]"
    using add_route_fresh [OF assms(2) new(1)] new(2) by auto
  have ne: "?k \<noteq> ?k'" using path_hashes by (simp add: key_of_def)
  then obtain t' where r2: "routes r2 = [(?k, plain_route ''/'' bs t), (?k', plain_route ''/api'' bs' t')]"
    and tree: "insert_all M (patterns_of method_patterns (routes r2)) (mi_new M) = Inr (prefix_router r2)"
    using add_route_fresh [OF assms(3)] r1 by auto
  let ?ps = "[(''/'', ?k), (''{*rest}'', ?k), (''/api'', ?k'), (''/api/{*rest}'', ?k')]"
  have ps: "patterns_of method_patterns (routes r2) = ?ps"
    by (simp add: r2 patterns_of_def method_patterns_def plain_route_def key_of_def trim_end_slashes_def)
  have at: "mi_at M q (prefix_router r2) = best_match ?ps q" for q
    by (rule matchit_documentedD [OF assms(1) tree [unfolded ps] root_patterns(1)])
  have "map_of (routes r2) (key_of GET ''/api/users'') = None" "map_of (routes r2) (key_of ALL_m ''/api/users'') = None"
    using path_hashes by (simp_all add: r2 key_of_def)
  then show ?thesis
    using root_patterns(2,3) [of ?k ?k'] by (simp add: resolve_def prefix_lookup_def at)
qed

section \<open>Instances\<close>

lemma build_empty: "maglev_build_compact_table [] = Done (replicate COMPACT_MAGLEV_SIZE 0)"
  by (simp add: maglev_build_compact_table_def)

lemma add_route_empty:
  assumes "map_of (routes r) (key_of m p) = None"
    and "rebuild M method_patterns ''exact route''
      (routes r @ [(key_of m p, plain_route p [] (replicate COMPACT_MAGLEV_SIZE 0))]) (mi_new M) = Inr t"
  shows "\<exists>r'. add_route M False m p [] r = Done (Inr (), r') \<and>
    routes r' = routes r @ [(key_of m p, plain_route p [] (replicate COMPACT_MAGLEV_SIZE 0))] \<and>
    route_cache r' = lru_invalidate (key_of m p) (route_cache r) \<and> prefix_router r' = t"
  using assms by (simp add: add_route_def build_empty Let_def alist_update_new)

lemmas route_eval = patterns_of_def method_patterns_def plain_route_def key_of_def trim_end_slashes_def

theorem root_route_shadows_witness:
  "\<exists>r1 r2. add_route list_matchit False ALL_m ''/'' [] (router_new list_matchit) = Done (Inr (), r1) \<and>
     add_route list_matchit False ALL_m ''/api'' [] r1 = Done (Inr (), r2) \<and>
     resolve list_matchit GET ''/api/users'' r2 = Some (key_of ALL_m ''/'')"
proof -
  have new: "routes (router_new list_matchit) = []" by (simp add: router_new_def with_health_config_def)
  obtain r1 where r1: "add_route list_matchit False ALL_m ''/'' [] (router_new list_matchit) = Done (Inr (), r1)"
    "routes r1 = [(key_of ALL_m ''/'', plain_route ''/'' [] (replicate COMPACT_MAGLEV_SIZE 0))]"
    using add_route_empty [of "router_new list_matchit" ALL_m "''/''" list_matchit] new
    by (auto simp: route_eval)
  obtain r2 where r2: "add_route list_matchit False ALL_m ''/api'' [] r1 = Done (Inr (), r2)"
    using add_route_empty [of r1 ALL_m "''/api''" list_matchit] r1(2) path_hashes(1)
    by (auto simp: route_eval)
  show ?thesis using root_route_shadows [OF list_matchit_documented r1(1) r2] r1 r2 by blast
qed

theorem stale_route_served_witness:
  "\<exists>r r'. map_of (entries (route_cache r)) (key_of GET ''/api/users'') = Some (key_of ALL_m ''/api'') \<and>
     add_route list_matchit False ALL_m ''/api/users'' [] r = Done (Inr (), r') \<and>
     fst (resolve_cached list_matchit GET ''/api/users'' r') = Some (key_of ALL_m ''/api'') \<and>
     resolve list_matchit GET ''/api/users'' r' = Some (key_of ALL_m ''/api/users'')"
proof -
  have new: "routes (router_new list_matchit) = []" "route_cache (router_new list_matchit) = lru_new 128"
    by (simp_all add: router_new_def with_health_config_def ROUTE_CACHE_MAX_SIZE_def)
  let ?k = "key_of ALL_m ''/api''"
  have "rebuild list_matchit method_patterns ''exact route'' (routes (router_new list_matchit) @
      [(?k, plain_route ''/api'' [] (replicate COMPACT_MAGLEV_SIZE 0))]) (mi_new list_matchit) =
      Inr [(''/api'', ?k), (''/api/{*rest}'', ?k)]"
    by (simp add: new route_eval)
  from add_route_empty [OF _ this] new obtain r1 :: "(string \<times> RouteKey) list Router" where
    r1: "routes r1 = [(?k, plain_route ''/api'' [] (replicate COMPACT_MAGLEV_SIZE 0))]"
    "prefix_router r1 = [(''/api'', ?k), (''/api/{*rest}'', ?k)]"
    "route_cache r1 = lru_invalidate ?k (lru_new 128)"
    by auto
  then have "route_cache r1 = lru_new 128" by (simp add: lru_invalidate_def lru_new_def)
  note r1 = r1(1,2) this
  define r where "r = snd (resolve_cached list_matchit GET ''/api/users'' r1)"
  have res: "resolve list_matchit GET ''/api/users'' r1 = Some ?k"
    using r1 path_hashes(3)
    by (simp add: resolve_def prefix_lookup_def best_match_def covering_def wildcard_part_def
        List.map_filter_def key_of_def)
  have cached: "map_of (entries (route_cache r)) (key_of GET ''/api/users'') = Some ?k" "routes r = routes r1"
    using res r1(3)
    by (simp_all add: r_def resolve_cached_def lru_get_def lru_new_def lru_insert_def lru_evict_def Let_def)
  have "map_of (routes r) (key_of ALL_m ''/api/users'') = None" "map_of (routes r) (key_of GET ''/api/users'') = None"
    using cached(2) r1(1) path_hashes(3) by (simp_all add: key_of_def)
  moreover from this obtain r' where "add_route list_matchit False ALL_m ''/api/users'' [] r = Done (Inr (), r')"
    using add_route_empty [of r ALL_m "''/api/users''" list_matchit] cached(2) r1(1) by (auto simp: route_eval)
  ultimately show ?thesis using stale_route_served [OF cached(1)] cached(1) by blast
qed

section \<open>Well-formed routers\<close>

text \<open>
  C26: Every router that can arise is well-formed: its keys are distinct and its cache within bounds, and
  each route has at most 32 backends and, when it has any, a table of full size whose every entry
  is the index of one of them.
\<close>

theorem reachable_router_typed:
  assumes "router_reach M r"
  shows "distinct (map fst (routes r)) \<and> lru_inv (route_cache r) \<and>
    (\<forall>k route. map_of (routes r) k = Some route \<longrightarrow> length (rt_backends route) \<le> MAX_BACKENDS \<and>
       (rt_backends route \<noteq> [] \<longrightarrow> length (rt_maglev_table route) = COMPACT_MAGLEV_SIZE \<and>
          (\<forall>c<COMPACT_MAGLEV_SIZE. unat (rt_maglev_table route ! c) < length (rt_backends route))))"
proof -
  have *: "length bs \<le> MAX_BACKENDS \<and> (bs \<noteq> [] \<longrightarrow> length t = COMPACT_MAGLEV_SIZE \<and>
      (\<forall>c<COMPACT_MAGLEV_SIZE. unat (t ! c) < length bs))" if "maglev_build_compact_table bs = Done t" for bs t
    using compact_build_entries [OF that] compact_build_panic(2) [of bs] that by fastforce
  from router_reach_inv [OF assms] show ?thesis unfolding router_inv_def using * by blast
qed

section \<open>The choice of a backend\<close>

text \<open>
  C4: \<open>select_backend\<close> never panics and is a search: the request's route is resolved through the cache,
  and the answer is the first backend usable at that time among the ten candidates per backend
  that follow the flow's hash around the Maglev table. The bit mask of tried backends and the
  early exit never change the answer.
\<close>

theorem select_first_usable:
  assumes "router_reach M r"
  shows "select_backend M m p src src_port r =
    Done (case fst (resolve_cached M m p r) of
        None \<Rightarrow> None
      | Some k \<Rightarrow> (case map_of (routes r) k of
            None \<Rightarrow> None
          | Some route \<Rightarrow> choose_backend r m route (compute_flow_hash (fnv1a_hash (as_bytes p)) src src_port)),
      snd (resolve_cached M m p r))"
  by (rule select_backend_choose [OF router_reach_inv [OF assms]])

text \<open>
  C7: A request is only ever sent to a backend of the route it was resolved to, and never to one that
  is draining, or unhealthy by its recent responses, or unhealthy by its probes; the route's
  method conditions hold, and the filters, timeouts and retries of the answer are the route's.
\<close>

theorem select_safe:
  assumes "router_reach M r" "select_backend M m p src src_port r = Done (Some found, r')"
  shows "\<exists>key route. fst (resolve_cached M m p r) = Some key \<and> map_of (routes r) key = Some route \<and>
    found = route_match route (rm_backend found) \<and> rm_backend found \<in> set (rt_backends route) \<and>
    healthy_passive r (rm_backend found) \<and> hc_is_healthy (rm_backend found) (health_checker r) \<and>
    \<not> is_backend_draining (rm_backend found) r \<and>
    (case rt_method_matches route of Some ms \<Rightarrow> m \<in> set ms | None \<Rightarrow> True)"
proof -
  note inv = router_reach_inv [OF assms(1)]
  let ?flow = "compute_flow_hash (fnv1a_hash (as_bytes p)) src src_port"
  obtain key route where kr: "fst (resolve_cached M m p r) = Some key" "map_of (routes r) key = Some route"
    "choose_backend r m route ?flow = Some found"
    using assms(2) unfolding select_backend_choose [OF inv] by (auto split: option.splits)
  then obtain b where b: "find (usable_backend r) (flow_candidates route ?flow) = Some b" "found = route_match route b"
    "case rt_method_matches route of Some ms \<Rightarrow> m \<in> set ms | None \<Rightarrow> True"
    by (auto simp: choose_backend_def split: if_splits option.splits)
  have "maglev_build_compact_table (rt_backends route) = Done (rt_maglev_table route)"
    using inv kr(2) by (simp add: router_inv_def)
  then have "b \<in> set (rt_backends route)" "usable_backend r b"
    using find_SomeD [OF b(1)] flow_candidates_set(1) by blast+
  then show ?thesis using kr b by (auto simp: route_match_def usable_backend_def)
qed

text \<open>
  If every backend of the resolved route is usable, and there is one, and the route accepts the
  method, then the request is sent to a backend.
\<close>

theorem select_live:
  assumes "router_reach M r" "fst (resolve_cached M m p r) = Some key" "map_of (routes r) key = Some route"
    and "pred_option (\<lambda>ms. m \<in> set ms) (rt_method_matches route)" "rt_backends route \<noteq> []"
    and "\<forall>b\<in>set (rt_backends route). usable_backend r b"
  shows "\<exists>b. b \<in> set (rt_backends route) \<and>
    select_backend M m p src src_port r = Done (Some (route_match route b), snd (resolve_cached M m p r))"
proof -
  note inv = router_reach_inv [OF assms(1)]
  let ?flow = "compute_flow_hash (fnv1a_hash (as_bytes p)) src src_port"
  have t: "maglev_build_compact_table (rt_backends route) = Done (rt_maglev_table route)"
    using inv assms(3) by (simp add: router_inv_def)
  note c = flow_candidates_set [OF t, of ?flow]
  have "find (usable_backend r) (flow_candidates route ?flow) = Some (hd (flow_candidates route ?flow))"
    using c assms(5,6) by (intro find_all) auto
  then show ?thesis
    using c assms by (intro exI [of _ "hd (flow_candidates route ?flow)"])
      (auto simp: select_backend_choose [OF inv] choose_backend_def split: option.splits)
qed

text \<open>
  A failed \<open>add_route\<close> is not undone: when the radix tree refuses a pattern the call reports an
  error, but the new route is already in the table, where exact requests find it, while the tree
  and the cache are still the old ones.
\<close>

theorem failed_add_keeps_route:
  assumes "add_route M rt m p bs r = Done (Inl e, r')"
  shows "\<exists>t. map_of (routes r') (key_of m p) = Some (plain_route p bs t) \<and>
    resolve M m p r' = Some (key_of m p) \<and> prefix_router r' = prefix_router r \<and> route_cache r' = route_cache r"
proof (cases "maglev_build_compact_table bs")
  case (Done t)
  then have "routes r' = AList.update (key_of m p) (plain_route p bs t) (routes r)"
    "prefix_router r' = prefix_router r" "route_cache r' = route_cache r"
    using assms by (auto simp: add_route_def Let_def split: if_splits option.splits sum.splits)
  then show ?thesis by (auto simp: update_conv' resolve_def)
qed (use assms in \<open>auto simp: add_route_def Let_def split: if_splits option.splits\<close>)

text \<open>A router with one route of one backend.\<close>

lemma one_route:
  "\<exists>r t. router_reach list_matchit r \<and> add_route list_matchit False GET ''/a'' [b] (router_new list_matchit) = Done (Inr (), r) \<and>
     routes r = [(key_of GET ''/a'', plain_route ''/a'' [b] t)] \<and> health r = healthdata_new \<and>
     health_checker r = hc_new hc_config_default \<and> route_cache r = lru_new 128"
proof -
  have r0: "router_reach list_matchit (router_new list_matchit)"
    unfolding router_new_def by (rule router_reach.start)
  obtain t where t: "maglev_build_compact_table [b] = Done t"
    using compact_build [of "[b]"] by (auto simp: MAX_BACKENDS_def)
  let ?r = "(router_new list_matchit)\<lparr>routes := [(key_of GET ''/a'', plain_route ''/a'' [b] t)],
      prefix_router := [(''GET:/a'', key_of GET ''/a''), (''GET:/a/{*rest}'', key_of GET ''/a'')]\<rparr>"
  have "add_route list_matchit False GET ''/a'' [b] (router_new list_matchit) = Done (Inr (), ?r)"
    by (simp add: add_route_def t router_new_def with_health_config_def Let_def route_eval start_checking_def
        hc_new_def hc_config_default_def lru_invalidate_def lru_new_def)
  with router_reach.add [OF r0 this] show ?thesis
    by (intro exI [of _ ?r] exI [of _ t]) (simp add: router_new_def with_health_config_def ROUTE_CACHE_MAX_SIZE_def)
qed

lemma one_route_resolved:
  "routes r = [(key_of GET ''/a'', plain_route ''/a'' [b] t)] \<Longrightarrow> route_cache r = lru_new 128 \<Longrightarrow>
     fst (resolve_cached M GET ''/a'' r) = Some (key_of GET ''/a'')"
  by (simp add: resolve_cached_def resolve_def lru_get_def lru_new_def Let_def)

lemma fresh_usable:
  "health r = healthdata_new \<Longrightarrow> health_checker r = hc_new c \<Longrightarrow> usable_backend r b"
  by (simp add: usable_backend_def healthy_passive_def is_backend_draining_def hc_is_healthy_def
      healthdata_new_def hc_new_def)

lemma one_route_selected:
  assumes "router_reach M r" "routes r = [(key_of GET ''/a'', plain_route ''/a'' [b] t)]" "health r = healthdata_new"
    "health_checker r = hc_new c" "route_cache r = lru_new 128"
  shows "select_backend M GET ''/a'' None None r =
    Done (Some (route_match (plain_route ''/a'' [b] t) b), snd (resolve_cached M GET ''/a'' r))"
proof -
  let ?route = "plain_route ''/a'' [b] t" and ?flow = "compute_flow_hash (fnv1a_hash (as_bytes ''/a'')) None None"
  note inv = router_reach_inv [OF assms(1)]
  have "map_of (routes r) (key_of GET ''/a'') = Some ?route" by (simp add: assms(2))
  moreover from this have "maglev_build_compact_table (rt_backends ?route) = Done (rt_maglev_table ?route)"
    using inv unfolding router_inv_def by blast
  note c = flow_candidates_set [OF this, of ?flow]
  have "find (usable_backend r) (flow_candidates ?route ?flow) = Some (hd (flow_candidates ?route ?flow))"
    using c(2) fresh_usable [OF assms(3,4)] by (intro find_all) (auto simp: plain_route_def)
  moreover have "hd (flow_candidates ?route ?flow) = b"
  proof -
    have "rt_backends ?route = [b]" by (simp add: plain_route_def)
    then have "set (flow_candidates ?route ?flow) \<subseteq> {b}" "flow_candidates ?route ?flow \<noteq> []" using c by simp_all
    then show ?thesis by (cases "flow_candidates ?route ?flow") simp_all
  qed
  ultimately show ?thesis
    using one_route_resolved [OF assms(2,5)] by (simp add: select_backend_choose [OF inv] choose_backend_def plain_route_def)
qed

theorem reachable_router_typed_witness:
  "\<exists>r. router_reach list_matchit r \<and> routes r \<noteq> [] \<and> distinct (map fst (routes r)) \<and> lru_inv (route_cache r)"
proof -
  obtain r t where r: "router_reach list_matchit r"
    "routes r = [(key_of GET ''/a'', plain_route ''/a'' [backend_new 1 80 1] t)]"
    using one_route [of "backend_new 1 80 1"] by blast
  with reachable_router_typed [OF r(1)] show ?thesis by (intro exI [of _ r]) simp
qed

theorem select_live_witness:
  "\<exists>r r'. router_reach list_matchit r \<and>
     select_backend list_matchit GET ''/a'' None None r =
       Done (Some (route_match (snd (hd (routes r))) (backend_new 1 80 1)), r')"
proof -
  obtain r t where r: "router_reach list_matchit r"
    "routes r = [(key_of GET ''/a'', plain_route ''/a'' [backend_new 1 80 1] t)]" "health r = healthdata_new"
    "health_checker r = hc_new hc_config_default" "route_cache r = lru_new 128"
    using one_route [of "backend_new 1 80 1"] by blast
  have "map_of (routes r) (key_of GET ''/a'') = Some (plain_route ''/a'' [backend_new 1 80 1] t)" by (simp add: r(2))
  from select_live [OF r(1) one_route_resolved [OF r(2,5)] this] fresh_usable [OF r(3,4)] r(1,2)
  show ?thesis by (auto simp: plain_route_def)
qed

theorem select_first_usable_witness:
  "\<exists>r. router_reach list_matchit r \<and> routes r \<noteq> [] \<and>
     select_backend list_matchit GET ''/a'' None None r =
       Done (choose_backend r GET (snd (hd (routes r))) (fnv1a_hash (as_bytes ''/a'')),
         snd (resolve_cached list_matchit GET ''/a'' r))"
proof -
  obtain r t where r: "router_reach list_matchit r"
    "routes r = [(key_of GET ''/a'', plain_route ''/a'' [backend_new 1 80 1] t)]" "route_cache r = lru_new 128"
    using one_route [of "backend_new 1 80 1"] by blast
  from select_first_usable [OF r(1), of GET "''/a''" None None] one_route_resolved [OF r(2,3)] r(1,2)
  show ?thesis by (auto simp: compute_flow_hash_def)
qed

theorem select_safe_witness:
  "\<exists>r r' found. select_backend list_matchit GET ''/a'' None None r = Done (Some found, r') \<and>
     \<not> is_backend_draining (rm_backend found) r"
proof -
  obtain r t where r: "router_reach list_matchit r"
    "routes r = [(key_of GET ''/a'', plain_route ''/a'' [backend_new 1 80 1] t)]" "health r = healthdata_new"
    "health_checker r = hc_new hc_config_default" "route_cache r = lru_new 128"
    using one_route [of "backend_new 1 80 1"] by blast
  have "map_of (routes r) (key_of GET ''/a'') = Some (plain_route ''/a'' [backend_new 1 80 1] t)" by (simp add: r(2))
  then have t: "maglev_build_compact_table [backend_new 1 80 1] = Done t"
    using router_reach_inv [OF r(1)] unfolding router_inv_def by (force simp: plain_route_def)
  have "choose_backend r GET (plain_route ''/a'' [backend_new 1 80 1] t) f \<noteq> None" for f
    using flow_candidates_set(2) [of "plain_route ''/a'' [backend_new 1 80 1] t" f] t fresh_usable [OF r(3,4)]
    by (auto simp: choose_backend_def plain_route_def find_None_iff)
  then obtain found r' where "select_backend list_matchit GET ''/a'' None None r = Done (Some found, r')"
    using select_backend_choose [OF router_reach_inv [OF r(1)], of list_matchit GET "''/a''" None None]
      one_route_resolved [OF r(2,5)] r(2) by (auto simp: option.split_sel_asm)
  with select_safe [OF r(1) this] show ?thesis by blast
qed

lemma slash_hash: "fnv1a_hash (as_bytes ''/a'') \<noteq> fnv1a_hash (as_bytes ''/a/'')"
  by code_simp

theorem failed_add_keeps_route_witness:
  "\<exists>r e r'. add_route list_matchit False GET ''/a/'' [backend_new 1 80 1] r = Done (Inl e, r') \<and>
     resolve list_matchit GET ''/a/'' r' = Some (key_of GET ''/a/'') \<and> prefix_router r' = prefix_router r"
proof -
  let ?b = "backend_new 1 80 1"
  obtain r :: "(string \<times> RouteKey) list Router" and t where
    r: "routes r = [(key_of GET ''/a'', plain_route ''/a'' [?b] t)]"
    using one_route [of ?b] by blast
  obtain t' where "maglev_build_compact_table [?b] = Done t'"
    using compact_build [of "[?b]"] by (auto simp: MAX_BACKENDS_def)
  then obtain e r' where "add_route list_matchit False GET ''/a/'' [?b] r = Done (Inl e, r')"
    using slash_hash by (simp add: r add_route_def Let_def route_eval)
  from failed_add_keeps_route [OF this] this show ?thesis by blast
qed

end
