(* ===== verification/Gateway_Index.thy ===== *)
theory Gateway_Index
  imports Rust_Text
begin

text \<open>
  The index of the gateways of the controller's class
  (\<open>control/src/apis/gateway/gateway_index.rs\<close>): a shared set of keys with counters of the calls.
  The hash set is the list of its elements in iteration order; a clone of the index shares its state
  with the original, so one state stands for all clones. A set interface gives the laws of the
  operations, and histories of calls are related to the calls made for one gateway.
\<close>

section \<open>Keys and counters\<close>

record GatewayKey =
  gk_namespace :: string
  gk_name :: string

definition gatewaykey_new :: "string \<Rightarrow> string \<Rightarrow> GatewayKey" where
  "gatewaykey_new ns n = \<lparr>gk_namespace = ns, gk_name = n\<rparr>"

definition show_gatewaykey :: "GatewayKey \<Rightarrow> string" where
  "show_gatewaykey k = gk_namespace k @ ''/'' @ gk_name k"

record GatewayIndexMetrics =
  gm_lookups :: u64
  gm_hits :: u64
  gm_adds :: u64
  gm_removes :: u64

definition gim_new :: GatewayIndexMetrics where
  "gim_new = \<lparr>gm_lookups = 0, gm_hits = 0, gm_adds = 0, gm_removes = 0\<rparr>"

definition record_lookup :: "bool \<Rightarrow> GatewayIndexMetrics \<Rightarrow> GatewayIndexMetrics" where
  "record_lookup hit m =
     (let m = m\<lparr>gm_lookups := gm_lookups m + 1\<rparr>
      in if hit then m\<lparr>gm_hits := gm_hits m + 1\<rparr> else m)"

definition record_add :: "GatewayIndexMetrics \<Rightarrow> GatewayIndexMetrics" where
  "record_add m = m\<lparr>gm_adds := gm_adds m + 1\<rparr>"

definition record_remove :: "GatewayIndexMetrics \<Rightarrow> GatewayIndexMetrics" where
  "record_remove m = m\<lparr>gm_removes := gm_removes m + 1\<rparr>"

text \<open>
  The two counters are read one after the other: \<open>m\<close> is the state at the first read, \<open>m'\<close> the state at
  the second. Without a call in between they are the same.
\<close>

definition hit_rate_between :: "GatewayIndexMetrics \<Rightarrow> GatewayIndexMetrics \<Rightarrow> f64" where
  "hit_rate_between m m' =
     (let lookups = gm_lookups m
      in if lookups = 0 then Fin 0
         else f64_ratio (unat (gm_hits m')) (unat lookups))"

definition hit_rate :: "GatewayIndexMetrics \<Rightarrow> f64" where
  "hit_rate m = hit_rate_between m m"

definition prom_header :: "string \<Rightarrow> string \<Rightarrow> string \<Rightarrow> string" where
  "prom_header name help kind =
     ''# HELP '' @ name @ '' '' @ help @ [CHR 0x0A] @ ''# TYPE '' @ name @ '' '' @ kind @ [CHR 0x0A]"

definition prom_line :: "string \<Rightarrow> string \<Rightarrow> string \<Rightarrow> string" where
  "prom_line name cls v = name @ ''{class='' @ [CHR 0x22] @ cls @ [CHR 0x22] @ ''} '' @ v"

definition gim_to_prometheus :: "string \<Rightarrow> GatewayIndexMetrics \<Rightarrow> string" where
  "gim_to_prometheus gateway_class m =
     prom_header ''gateway_index_lookups_total'' ''Total Gateway index lookup operations'' ''counter'' @
     prom_line ''gateway_index_lookups_total'' gateway_class (show_nat (unat (gm_lookups m))) @ [CHR 0x0A] @
     prom_header ''gateway_index_hits_total'' ''Successful Gateway index lookups'' ''counter'' @
     prom_line ''gateway_index_hits_total'' gateway_class (show_nat (unat (gm_hits m))) @ [CHR 0x0A] @
     prom_header ''gateway_index_adds_total'' ''Total Gateway index add operations'' ''counter'' @
     prom_line ''gateway_index_adds_total'' gateway_class (show_nat (unat (gm_adds m))) @ [CHR 0x0A] @
     prom_header ''gateway_index_removes_total'' ''Total Gateway index remove operations'' ''counter'' @
     prom_line ''gateway_index_removes_total'' gateway_class (show_nat (unat (gm_removes m))) @ [CHR 0x0A] @
     prom_header ''gateway_index_hit_rate'' ''Gateway index lookup hit rate'' ''gauge'' @
     prom_line ''gateway_index_hit_rate'' gateway_class (show_f64 (hit_rate m))"

section \<open>The index\<close>

record GatewayIndex =
  gi_inner :: "GatewayKey list"
  gi_class_name :: string
  gi_metrics :: GatewayIndexMetrics

definition gi_new :: "string \<Rightarrow> GatewayIndex" where
  "gi_new cls = \<lparr>gi_inner = [], gi_class_name = cls, gi_metrics = gim_new\<rparr>"

definition gi_add :: "string \<Rightarrow> string \<Rightarrow> GatewayIndex \<Rightarrow> bool \<times> GatewayIndex" where
  "gi_add ns n g =
     (let key = gatewaykey_new ns n;
          is_new = (key \<notin> set (gi_inner g));
          g = g\<lparr>gi_inner := (if is_new then gi_inner g @ [key] else gi_inner g)\<rparr>
      in (is_new, g\<lparr>gi_metrics := record_add (gi_metrics g)\<rparr>))"

definition gi_remove :: "string \<Rightarrow> string \<Rightarrow> GatewayIndex \<Rightarrow> bool \<times> GatewayIndex" where
  "gi_remove ns n g =
     (let key = gatewaykey_new ns n;
          was_present = (key \<in> set (gi_inner g));
          g = g\<lparr>gi_inner := remove1 key (gi_inner g)\<rparr>
      in (was_present, g\<lparr>gi_metrics := record_remove (gi_metrics g)\<rparr>))"

definition gi_contains :: "string \<Rightarrow> string \<Rightarrow> GatewayIndex \<Rightarrow> bool \<times> GatewayIndex" where
  "gi_contains ns n g =
     (let hit = (gatewaykey_new ns n \<in> set (gi_inner g))
      in (hit, g\<lparr>gi_metrics := record_lookup hit (gi_metrics g)\<rparr>))"

fun gi_contains_any :: "(string \<times> string) list \<Rightarrow> GatewayIndex \<Rightarrow> bool \<times> GatewayIndex" where
  "gi_contains_any [] g = (False, g)"
| "gi_contains_any ((ns, n) # refs) g =
     (let hit = (gatewaykey_new ns n \<in> set (gi_inner g));
          g = g\<lparr>gi_metrics := record_lookup hit (gi_metrics g)\<rparr>
      in if hit then (True, g) else gi_contains_any refs g)"

definition gi_len :: "GatewayIndex \<Rightarrow> nat" where
  "gi_len g = length (gi_inner g)"

definition gi_is_empty :: "GatewayIndex \<Rightarrow> bool" where
  "gi_is_empty g \<longleftrightarrow> gi_len g = 0"

definition gi_keys :: "GatewayIndex \<Rightarrow> GatewayKey list" where
  "gi_keys g = gi_inner g"

definition gi_prometheus_metrics :: "GatewayIndex \<Rightarrow> string" where
  "gi_prometheus_metrics g =
     gim_to_prometheus (gi_class_name g) (gi_metrics g) @ [CHR 0x0A] @
     prom_header ''gateway_index_size'' ''Current number of managed Gateways'' ''gauge'' @
     prom_line ''gateway_index_size'' (gi_class_name g) (show_nat (gi_len g))"

definition show_gatewayindex :: "GatewayIndex \<Rightarrow> string" where
  "show_gatewayindex g =
     (let keys = gi_keys g; count = length keys; prefix = ''GatewayIndex('' @ gi_class_name g @ ''): ''
      in if count = 0 then prefix @ ''empty''
         else if count \<le> 3
         then prefix @ show_nat count @ '' gateway(s) ['' @ join '', '' (map show_gatewaykey keys) @ '']''
         else prefix @ show_nat count @ '' gateway(s) ['' @
           join '', '' (map show_gatewaykey (take 3 keys)) @ '', ...]'')"

text \<open>The global cell for the metrics endpoint, which keeps the first index registered.\<close>

definition register_global_gateway_index :: "GatewayIndex \<Rightarrow> GatewayIndex option \<Rightarrow> GatewayIndex option" where
  "register_global_gateway_index g cell = (case cell of None \<Rightarrow> Some g | Some g' \<Rightarrow> Some g')"

definition gateway_index_metrics :: "GatewayIndex option \<Rightarrow> string" where
  "gateway_index_metrics cell = (case cell of Some g \<Rightarrow> gi_prometheus_metrics g | None \<Rightarrow> [])"

section \<open>The interface of a set of gateways\<close>

text \<open>
  The route controller relies on no more than this: a lookup tells membership, an addition and a
  removal change the membership of their own key, and no lookup changes it.
\<close>

datatype index_op =
    Add string string
  | Remove string string
  | Contains string string
  | ContainsAny "(string \<times> string) list"

text \<open>The last change made for a gateway.\<close>

definition last_change :: "string \<Rightarrow> string \<Rightarrow> index_op list \<Rightarrow> index_op option" where
  "last_change ns n ops = find (\<lambda>x. x = Add ns n \<or> x = Remove ns n) (rev ops)"

locale gateway_set =
  fixes add :: "string \<Rightarrow> string \<Rightarrow> 's \<Rightarrow> bool \<times> 's"
    and remove :: "string \<Rightarrow> string \<Rightarrow> 's \<Rightarrow> bool \<times> 's"
    and lookup :: "string \<Rightarrow> string \<Rightarrow> 's \<Rightarrow> bool \<times> 's"
    and lookup_any :: "(string \<times> string) list \<Rightarrow> 's \<Rightarrow> bool \<times> 's"
    and members :: "'s \<Rightarrow> (string \<times> string) set"
    and ok :: "'s \<Rightarrow> bool"
  assumes lookup_answer: "ok s \<Longrightarrow> fst (lookup ns n s) \<longleftrightarrow> (ns, n) \<in> members s"
    and any_answer: "ok s \<Longrightarrow> fst (lookup_any refs s) \<longleftrightarrow> list_ex (\<lambda>r. r \<in> members s) refs"
    and any_members: "members (snd (lookup_any refs s)) = members s"
    and lookup_members: "members (snd (lookup ns n s)) = members s"
    and add_members: "ok s \<Longrightarrow> members (snd (add ns n s)) = insert (ns, n) (members s)"
    and remove_members: "ok s \<Longrightarrow> members (snd (remove ns n s)) = members s - {(ns, n)}"
    and ok_lookup: "ok s \<Longrightarrow> ok (snd (lookup ns n s))"
    and ok_any: "ok s \<Longrightarrow> ok (snd (lookup_any refs s))"
    and ok_add: "ok s \<Longrightarrow> ok (snd (add ns n s))"
    and ok_remove: "ok s \<Longrightarrow> ok (snd (remove ns n s))"
begin

fun call :: "index_op \<Rightarrow> 's \<Rightarrow> 's" where
  "call (Add ns n) s = snd (add ns n s)"
| "call (Remove ns n) s = snd (remove ns n s)"
| "call (Contains ns n) s = snd (lookup ns n s)"
| "call (ContainsAny refs) s = snd (lookup_any refs s)"

lemma call_ok: "ok s \<Longrightarrow> ok (call c s)"
  by (cases c) (simp_all add: ok_add ok_remove ok_lookup ok_any)

lemma history_ok: "ok s \<Longrightarrow> ok (fold call cs s)"
  by (induction cs arbitrary: s) (simp_all add: call_ok)

lemma history_members:
  assumes "ok s" "(ns, n) \<notin> members s"
  shows "(ns, n) \<in> members (fold call cs s) \<longleftrightarrow> last_change ns n cs = Some (Add ns n)"
proof (induction cs rule: rev_induct)
  case (snoc c cs)
  then show ?case using history_ok [OF assms(1), of cs]
    by (cases c) (auto simp: add_members remove_members lookup_members any_members last_change_def)
qed (simp add: last_change_def assms)

end

definition gi_inv :: "GatewayIndex \<Rightarrow> bool" where
  "gi_inv g \<longleftrightarrow> distinct (gi_inner g)"

definition gi_members :: "GatewayIndex \<Rightarrow> (string \<times> string) set" where
  "gi_members g = (\<lambda>k. (gk_namespace k, gk_name k)) ` set (gi_inner g)"

lemma gi_members_iff: "(ns, n) \<in> gi_members g \<longleftrightarrow> gatewaykey_new ns n \<in> set (gi_inner g)"
proof
  assume "(ns, n) \<in> gi_members g"
  then obtain k where "k \<in> set (gi_inner g)" "ns = gk_namespace k" "n = gk_name k"
    by (auto simp: gi_members_def)
  moreover then have "gatewaykey_new ns n = k" by (simp add: gatewaykey_new_def)
  ultimately show "gatewaykey_new ns n \<in> set (gi_inner g)" by simp
qed (force simp: gi_members_def gatewaykey_new_def)

lemma gatewaykey_new_inj [simp]: "gatewaykey_new ns n = gatewaykey_new ns' n' \<longleftrightarrow> ns = ns' \<and> n = n'"
  by (simp add: gatewaykey_new_def)

lemmas gi_ops = gi_add_def gi_remove_def gi_contains_def Let_def

lemma gi_contains_any_inner [simp]: "gi_inner (snd (gi_contains_any refs g)) = gi_inner g"
  by (induction refs g rule: gi_contains_any.induct) (simp_all add: Let_def)

lemma gi_members_metrics [simp]: "gi_members (g\<lparr>gi_metrics := m\<rparr>) = gi_members g"
  by (simp add: gi_members_def)

lemma gi_contains_any_answer: "fst (gi_contains_any refs g) \<longleftrightarrow> list_ex (\<lambda>r. r \<in> gi_members g) refs"
proof (induction refs g rule: gi_contains_any.induct)
  case (2 ns n refs g)
  then show ?case by (simp add: Let_def gi_members_iff)
qed simp

interpretation gi: gateway_set gi_add gi_remove gi_contains gi_contains_any gi_members gi_inv
proof unfold_locales
  show "gi_members (snd (gi_add ns n s)) = insert (ns, n) (gi_members s)" for ns n s
    by (auto simp: gi_members_iff gi_ops)
  show "gi_inv s \<Longrightarrow> gi_members (snd (gi_remove ns n s)) = gi_members s - {(ns, n)}" for ns n s
    by (auto simp: gi_members_iff gi_ops gi_inv_def)
  show "gi_members (snd (gi_contains ns n s)) = gi_members s" for ns n s
    by (simp add: gi_members_def gi_ops)
  show "gi_members (snd (gi_contains_any refs s)) = gi_members s" for refs s
    by (simp add: gi_members_def)
  show "fst (gi_contains_any refs s) \<longleftrightarrow> list_ex (\<lambda>r. r \<in> gi_members s) refs" for refs s
    by (rule gi_contains_any_answer)
qed (auto simp: gi_members_iff gi_ops gi_inv_def distinct_remove1)

section \<open>Histories of calls\<close>

fun op_call :: "index_op \<Rightarrow> GatewayIndex \<Rightarrow> GatewayIndex" where
  "op_call (Add ns n) g = snd (gi_add ns n g)"
| "op_call (Remove ns n) g = snd (gi_remove ns n g)"
| "op_call (Contains ns n) g = snd (gi_contains ns n g)"
| "op_call (ContainsAny refs) g = snd (gi_contains_any refs g)"

lemma op_call_eq: "op_call = gi.call"
proof
  show "op_call x = gi.call x" for x by (cases x) auto
qed

lemma gi_add_metrics [simp]: "gi_metrics (snd (gi_add ns n g)) = record_add (gi_metrics g)"
  and gi_remove_metrics [simp]: "gi_metrics (snd (gi_remove ns n g)) = record_remove (gi_metrics g)"
  and gi_contains_metrics [simp]:
    "gi_metrics (snd (gi_contains ns n g)) = record_lookup (fst (gi_contains ns n g)) (gi_metrics g)"
  by (simp_all add: gi_ops)

text \<open>
  The contract in terms of the calls made before: a gateway is present when its last change was an
  addition; a lookup of several gateways examines them in order up to the first one that is present,
  and each examined one counts as a lookup.
\<close>

definition indexed_in :: "index_op list \<Rightarrow> string \<times> string \<Rightarrow> bool" where
  "indexed_in past r \<longleftrightarrow> last_change (fst r) (snd r) past = Some (Add (fst r) (snd r))"

fun adds_at :: "index_op list \<Rightarrow> index_op \<Rightarrow> nat" where
  "adds_at past (Add ns n) = 1"
| "adds_at past _ = 0"

fun removes_at :: "index_op list \<Rightarrow> index_op \<Rightarrow> nat" where
  "removes_at past (Remove ns n) = 1"
| "removes_at past _ = 0"

fun lookups_at :: "index_op list \<Rightarrow> index_op \<Rightarrow> nat" where
  "lookups_at past (Contains ns n) = 1"
| "lookups_at past (ContainsAny refs) =
     length (takeWhile (\<lambda>r. \<not> indexed_in past r) refs) + (if list_ex (indexed_in past) refs then 1 else 0)"
| "lookups_at past _ = 0"

fun hits_at :: "index_op list \<Rightarrow> index_op \<Rightarrow> nat" where
  "hits_at past (Contains ns n) = (if indexed_in past (ns, n) then 1 else 0)"
| "hits_at past (ContainsAny refs) = (if list_ex (indexed_in past) refs then 1 else 0)"
| "hits_at past _ = 0"

definition calls_total :: "(index_op list \<Rightarrow> index_op \<Rightarrow> nat) \<Rightarrow> index_op list \<Rightarrow> nat" where
  "calls_total f ops = (\<Sum>i<length ops. f (take i ops) (ops ! i))"

lemma calls_total_Nil [simp]: "calls_total f [] = 0"
  by (simp add: calls_total_def)

lemma calls_total_snoc [simp]: "calls_total f (ops @ [c]) = calls_total f ops + f ops c"
  by (simp add: calls_total_def nth_append)

definition gateways_after :: "index_op list \<Rightarrow> string \<Rightarrow> GatewayIndex" where
  "gateways_after ops cls = fold op_call ops (gi_new cls)"

lemma gateways_after_inv: "gi_inv (gateways_after ops cls)"
  unfolding gateways_after_def op_call_eq by (rule gi.history_ok) (simp add: gi_inv_def gi_new_def)

lemma gateways_after_members: "r \<in> gi_members (gateways_after ops cls) \<longleftrightarrow> indexed_in ops r"
proof -
  have "gi_inv (gi_new cls)" "(fst r, snd r) \<notin> gi_members (gi_new cls)"
    by (simp_all add: gi_inv_def gi_new_def gi_members_def)
  from gi.history_members [OF this, of ops] show ?thesis
    by (simp add: gateways_after_def op_call_eq indexed_in_def)
qed

lemma contains_any_counters:
  "gi_metrics (snd (gi_contains_any refs g)) =
     (let m = gi_metrics g; hit = list_ex (\<lambda>r. r \<in> gi_members g) refs
      in m\<lparr>gm_lookups := gm_lookups m +
             of_nat (length (takeWhile (\<lambda>r. r \<notin> gi_members g) refs) + (if hit then 1 else 0)),
           gm_hits := gm_hits m + (if hit then 1 else 0)\<rparr>)"
proof (induction refs g rule: gi_contains_any.induct)
  case (2 ns n refs g)
  then show ?case by (auto simp: Let_def gi_members_iff record_lookup_def add_ac)
qed simp

lemma counters_history:
  "gi_metrics (gateways_after ops cls) =
     \<lparr>gm_lookups = of_nat (calls_total lookups_at ops), gm_hits = of_nat (calls_total hits_at ops),
      gm_adds = of_nat (calls_total adds_at ops), gm_removes = of_nat (calls_total removes_at ops)\<rparr>"
proof (induction ops rule: rev_induct)
  case Nil
  show ?case by (simp add: gateways_after_def gi_new_def gim_new_def)
next
  case (snoc c ops)
  have "gateways_after (ops @ [c]) cls = op_call c (gateways_after ops cls)"
    by (simp add: gateways_after_def)
  with snoc show ?case
    by (cases c) (simp_all add: record_add_def record_remove_def record_lookup_def contains_any_counters
        gateways_after_members gi.lookup_answer [OF gateways_after_inv] Let_def add_ac)
qed

text \<open>
  C27: After any history of additions, removals, lookups and lookups of several gateways, a lookup
  finds a gateway exactly when the last change made for this gateway was an addition, and a lookup
  of several finds one exactly when this holds for one of them. The index holds each gateway once,
  so that its size is the number of managed gateways. The four counters are, modulo $2^{64}$, the
  number of additions, the number of removals, the number of gateways examined by the lookups (a
  lookup of several stops at its first hit) and the number of hits among them.
\<close>

theorem index_tracks_last_change:
  "let g = gateways_after ops cls
   in (fst (gi_contains ns n g) \<longleftrightarrow> last_change ns n ops = Some (Add ns n)) \<and>
      (fst (gi_contains_any refs g) \<longleftrightarrow> list_ex (indexed_in ops) refs) \<and>
      gi_len g = card (gi_members g) \<and>
      unat (gm_adds (gi_metrics g)) = calls_total adds_at ops mod 2 ^ 64 \<and>
      unat (gm_removes (gi_metrics g)) = calls_total removes_at ops mod 2 ^ 64 \<and>
      unat (gm_lookups (gi_metrics g)) = calls_total lookups_at ops mod 2 ^ 64 \<and>
      unat (gm_hits (gi_metrics g)) = calls_total hits_at ops mod 2 ^ 64"
proof -
  let ?g = "gateways_after ops cls"
  have "inj_on (\<lambda>k. (gk_namespace k, gk_name k)) (set (gi_inner ?g))"
    by (auto intro!: inj_onI)
  then have "gi_len ?g = card (gi_members ?g)"
    using gateways_after_inv [of ops cls]
    by (simp add: gi_len_def gi_members_def gi_inv_def card_image distinct_card)
  moreover have "fst (gi_contains ns n ?g) \<longleftrightarrow> last_change ns n ops = Some (Add ns n)"
    by (simp add: gi.lookup_answer [OF gateways_after_inv] gateways_after_members indexed_in_def)
  moreover have "fst (gi_contains_any refs ?g) \<longleftrightarrow> list_ex (indexed_in ops) refs"
    by (simp add: gi_contains_any_answer gateways_after_members)
  ultimately show ?thesis by (simp add: Let_def counters_history unat_of_nat)
qed

text \<open>
  A reader of the hit rate reads the lookups first and the hits second; a lookup that hits in between
  makes the reported rate greater than 1.
\<close>

lemma hit_rate_race:
  assumes "gm_lookups m = 1" "gm_hits m = 1"
  shows "hit_rate_between m (record_lookup True m) = Fin 2 \<and> hit_rate m = Fin 1"
proof -
  have "f64_of_nat 1 = Fin 1" "f64_of_nat 2 = Fin 2"
    using f64_of_nat_exact [of 1] f64_of_nat_exact [of 2] by simp_all
  moreover from this have "f64_round 1 = Fin 1" "f64_round 2 = Fin 2" by (simp_all add: f64_of_nat_def)
  ultimately show ?thesis
    using assms by (simp add: hit_rate_def hit_rate_between_def record_lookup_def f64_ratio_def Let_def)
qed

end
