(* ===== verification/Diagnostics.thy ===== *)
theory Diagnostics
  imports Agent_Types Rust_Text "HOL-Library.AList"
begin

text \<open>
  The diagnostics engine of the agent interface (\<open>agent-api/src/diagnostics\<close>): a rule is a trait object,
  here a record of its identifier, its symptom and its evaluation; the seven built-in rules; the
  engine that runs all rules or those that match a symptom. The lemmas say when each rule reports.
\<close>

section \<open>Diagnoses\<close>

datatype Severity = Info | Warning | Critical

record SuggestedAction =
  sa_description :: string
  sa_cli_command :: "string option"

record Diagnosis =
  dg_rule_id :: string
  dg_symptom :: string
  dg_severity :: Severity
  dg_confidence :: f64
  dg_causal_chain :: "string list"
  dg_evidence :: "string list"
  dg_suggested_actions :: "SuggestedAction list"

record MetricValue =
  mv_labels :: "(string \<times> string) list"
  mv_value :: f64

record MetricSnapshot =
  ms_name :: string
  ms_help :: string
  ms_metric_type :: string
  ms_values :: "MetricValue list"

record DiagnosticContext =
  dc_snapshot :: GatewaySnapshot
  dc_routes :: "RouteSnapshot list"
  dc_circuit_breakers :: "CircuitBreakerSnapshot list"
  dc_rate_limiters :: "RateLimiterSnapshot list"

record DiagnosticRule =
  rule_id :: string
  rule_symptom :: string
  rule_evaluate :: "DiagnosticContext \<Rightarrow> Diagnosis list"

definition action :: "string \<Rightarrow> string option \<Rightarrow> SuggestedAction" where
  "action d c = \<lparr>sa_description = d, sa_cli_command = c\<rparr>"

definition show_u16_nat :: "u16 \<Rightarrow> string" where
  "show_u16_nat w = show_nat (unat w)"

section \<open>The built-in rules\<close>

definition open_breakers :: "DiagnosticContext \<Rightarrow> CircuitBreakerSnapshot list" where
  "open_breakers ctx = filter (\<lambda>cb. cbs_state cb = ''Open'') (dc_circuit_breakers ctx)"

definition CircuitBreakerCascade :: DiagnosticRule where
  "CircuitBreakerCascade =
     \<lparr>rule_id = ''RAUTA-CB-001'', rule_symptom = ''circuit-breaker-cascade'',
      rule_evaluate = (\<lambda>ctx. let opened = open_breakers ctx in
        if length opened \<ge> 2 then
          [\<lparr>dg_rule_id = ''RAUTA-CB-001'', dg_symptom = ''circuit-breaker-cascade'',
            dg_severity = Critical, dg_confidence = f64_round (95 / 100),
            dg_causal_chain =
              [show_nat (length opened) @ '' backends have open circuit breakers'',
               ''Multiple simultaneous failures suggest upstream dependency issue''],
            dg_evidence = map (\<lambda>cb. ''Backend '' @ cbs_backend_id cb @ '' is Open (failures: '' @
              show_nat (unat (cbs_failure_count cb)) @ '')'') opened,
            dg_suggested_actions =
              [action ''Check if backends share a common upstream dependency'' (Some ''rauta backends health''),
               action ''Check network connectivity to backend cluster'' None,
               action ''Review circuit breaker thresholds if false positives''
                 (Some ''rauta diagnose circuit-breaker-open'')]\<rparr>]
        else [])\<rparr>"

definition CircuitBreakerOpen :: DiagnosticRule where
  "CircuitBreakerOpen =
     \<lparr>rule_id = ''RAUTA-CB-002'', rule_symptom = ''circuit-breaker-open'',
      rule_evaluate = (\<lambda>ctx. map (\<lambda>cb.
        \<lparr>dg_rule_id = ''RAUTA-CB-002'', dg_symptom = ''circuit-breaker-open'',
         dg_severity = Warning, dg_confidence = f64_round (9 / 10),
         dg_causal_chain =
           [''Backend '' @ cbs_backend_id cb @ '' circuit breaker is Open after '' @
              show_nat (unat (cbs_failure_count cb)) @ '' failures'',
            ''Traffic is being rerouted to healthy backends''],
         dg_evidence = [''Circuit state: '' @ cbs_state cb @ '', failures: '' @ show_nat (unat (cbs_failure_count cb))],
         dg_suggested_actions =
           [action (''Check backend '' @ cbs_backend_id cb @ '' health and logs'')
              (Some (''rauta backends health --backend='' @ cbs_backend_id cb)),
            action ''Wait for circuit breaker timeout to attempt recovery'' None]\<rparr>) (open_breakers ctx))\<rparr>"

definition RateLimitExhausted :: DiagnosticRule where
  "RateLimitExhausted =
     \<lparr>rule_id = ''RAUTA-RL-001'', rule_symptom = ''rate-limit-exhausted'',
      rule_evaluate = (\<lambda>ctx. map (\<lambda>rl.
        \<lparr>dg_rule_id = ''RAUTA-RL-001'', dg_symptom = ''rate-limit-exhausted'',
         dg_severity = Warning, dg_confidence = f64_round (85 / 100),
         dg_causal_chain =
           [''Route '' @ rls_route rl @ '' has exhausted its rate limit'',
            ''Configured at '' @ show_fixed 0 (rls_refill_rate rl) @ '' req/s with burst capacity '' @
              show_fixed 0 (rls_capacity rl)],
         dg_evidence = [''Tokens available: '' @ show_fixed 1 (rls_tokens_available rl) @ ''/'' @
           show_fixed 0 (rls_capacity rl)],
         dg_suggested_actions =
           [action ''Review if rate limit is appropriate for current traffic''
              (Some (''rauta metrics query rauta_rate_limit_requests_total{route='' @ [CHR 0x22] @ rls_route rl @
                [CHR 0x22] @ ''}'')),
            action ''Consider increasing rate limit or burst capacity'' None]\<rparr>)
        (filter (\<lambda>rl. f64_le (rls_tokens_available rl) (Fin 0)) (dc_rate_limiters ctx)))\<rparr>"

definition no_healthy :: "RouteSnapshot \<Rightarrow> bool" where
  "no_healthy route \<longleftrightarrow>
     rs_backends route = [] \<or>
     list_all (\<lambda>b. case bs_health_score b of Some s \<Rightarrow> f64_less s (Fin (1 / 2)) | None \<Rightarrow> False) (rs_backends route)"

definition NoHealthyBackends :: DiagnosticRule where
  "NoHealthyBackends =
     \<lparr>rule_id = ''RAUTA-BE-001'', rule_symptom = ''no-healthy-backends'',
      rule_evaluate = (\<lambda>ctx. map (\<lambda>route.
        let backend_count = length (rs_backends route) in
        \<lparr>dg_rule_id = ''RAUTA-BE-001'', dg_symptom = ''no-healthy-backends'',
         dg_severity = Critical, dg_confidence = f64_round (95 / 100),
         dg_causal_chain =
           [''Route '' @ rs_method route @ '' '' @ rs_pattern route @ '' has no healthy backends'',
            if backend_count = 0 then ''No backends configured for this route''
            else ''All '' @ show_nat backend_count @ '' backends are unhealthy''],
         dg_evidence = map (\<lambda>b. ''Backend '' @ bs_address b @ '':'' @ show_u16_nat (bs_port b) @ '' health_score='' @
           debug_option debug_f64 (bs_health_score b) @ '' draining='' @ show_bool (bs_is_draining b)) (rs_backends route),
         dg_suggested_actions =
           [action ''Check backend pod status in Kubernetes'' (Some (''rauta routes get '' @ rs_pattern route)),
            action ''Verify EndpointSlice has ready addresses'' None]\<rparr>)
        (filter no_healthy (dc_routes ctx)))\<rparr>"

definition all_draining :: "RouteSnapshot \<Rightarrow> bool" where
  "all_draining route \<longleftrightarrow> rs_backends route \<noteq> [] \<and> list_all bs_is_draining (rs_backends route)"

definition AllBackendsDraining :: DiagnosticRule where
  "AllBackendsDraining =
     \<lparr>rule_id = ''RAUTA-BE-002'', rule_symptom = ''all-backends-draining'',
      rule_evaluate = (\<lambda>ctx. map (\<lambda>route.
        \<lparr>dg_rule_id = ''RAUTA-BE-002'', dg_symptom = ''all-backends-draining'',
         dg_severity = Warning, dg_confidence = f64_round (9 / 10),
         dg_causal_chain =
           [''Route '' @ rs_method route @ '' '' @ rs_pattern route @ '' has all backends draining'',
            ''No backends available to serve new requests''],
         dg_evidence = map (\<lambda>b. ''Backend '' @ bs_address b @ '':'' @ show_u16_nat (bs_port b) @ '' is draining'')
           (rs_backends route),
         dg_suggested_actions =
           [action ''Ensure replacement backends are being provisioned'' (Some ''rauta backends health'')]\<rparr>)
        (filter all_draining (dc_routes ctx)))\<rparr>"

definition LowCacheHitRate :: DiagnosticRule where
  "LowCacheHitRate =
     \<lparr>rule_id = ''RAUTA-CACHE-001'', rule_symptom = ''low-cache-hit-rate'',
      rule_evaluate = (\<lambda>ctx.
        case gs_cache_stats (dc_snapshot ctx) of
          None \<Rightarrow> []
        | Some cache \<Rightarrow>
            let total = cs_hits cache + cs_misses cache;
                percent = show_fixed 1 (f64_mul (cs_hit_rate cache) (Fin 100))
            in if total \<ge> 1000 \<and> f64_less (cs_hit_rate cache) (Fin (1 / 2)) then
                 [\<lparr>dg_rule_id = ''RAUTA-CACHE-001'', dg_symptom = ''low-cache-hit-rate'',
                   dg_severity = Info, dg_confidence = f64_round (7 / 10),
                   dg_causal_chain =
                     [''Route cache hit rate is '' @ percent @ ''% ('' @ show_nat (unat (cs_hits cache)) @ '' hits, '' @
                        show_nat (unat (cs_misses cache)) @ '' misses)'',
                      ''Many unique paths are being requested, reducing cache effectiveness''],
                   dg_evidence = [''Cache size: '' @ show_nat (cs_size cache) @ '', hit_rate: '' @ percent @ ''%''],
                   dg_suggested_actions =
                     [action ''Consider if path cardinality is expected (API versioning, UUIDs in paths)''
                        (Some ''rauta traffic top'')]\<rparr>]
               else [])\<rparr>"

text \<open>The map from ports to protocols, as the loop over the listeners fills it.\<close>

definition port_counts :: "ListenerSnapshot list \<Rightarrow> (u16 \<times> string list) list" where
  "port_counts ls =
     fold (\<lambda>l m. AList.update (ls_port l)
       ((case map_of m (ls_port l) of Some ps \<Rightarrow> ps | None \<Rightarrow> []) @ [ls_protocol l]) m) ls []"

definition ListenerConflict :: DiagnosticRule where
  "ListenerConflict =
     \<lparr>rule_id = ''RAUTA-LISTEN-001'', rule_symptom = ''listener-conflict'',
      rule_evaluate = (\<lambda>ctx. map (\<lambda>(p, protocols).
        \<lparr>dg_rule_id = ''RAUTA-LISTEN-001'', dg_symptom = ''listener-conflict'',
         dg_severity = Warning, dg_confidence = f64_round (8 / 10),
         dg_causal_chain =
           [''Port '' @ show_u16_nat p @ '' has '' @ show_nat (length protocols) @ '' listener configurations'',
            ''Multiple Gateway resources may be competing for the same port''],
         dg_evidence = map (\<lambda>pr. ''Protocol: '' @ pr @ '' on port '' @ show_u16_nat p) protocols,
         dg_suggested_actions =
           [action ''Review Gateway resources for port conflicts'' (Some ''rauta status'')]\<rparr>)
        (filter (\<lambda>(_, protocols). 1 < length protocols) (port_counts (gs_listeners (dc_snapshot ctx)))))\<rparr>"

section \<open>The engine\<close>

type_synonym DiagnosticsEngine = "DiagnosticRule list"

definition engine_new :: DiagnosticsEngine where
  "engine_new = []"

definition register :: "DiagnosticRule \<Rightarrow> DiagnosticsEngine \<Rightarrow> DiagnosticsEngine" where
  "register rule engine = engine @ [rule]"

definition with_builtin_rules :: DiagnosticsEngine where
  "with_builtin_rules =
     fold register [CircuitBreakerCascade, CircuitBreakerOpen, RateLimitExhausted, NoHealthyBackends,
       AllBackendsDraining, LowCacheHitRate, ListenerConflict] engine_new"

fun diagnose :: "DiagnosticsEngine \<Rightarrow> DiagnosticContext \<Rightarrow> Diagnosis list" where
  "diagnose [] ctx = []"
| "diagnose (rule # rules) ctx = rule_evaluate rule ctx @ diagnose rules ctx"

definition rule_matches :: "string \<Rightarrow> DiagnosticRule \<Rightarrow> bool" where
  "rule_matches symptom_lower rule \<longleftrightarrow>
     contains_str (to_lower (rule_symptom rule)) symptom_lower \<or>
     contains_str (to_lower (rule_id rule)) symptom_lower"

fun diagnose_symptom :: "DiagnosticsEngine \<Rightarrow> DiagnosticContext \<Rightarrow> string \<Rightarrow> Diagnosis list" where
  "diagnose_symptom [] ctx symptom = []"
| "diagnose_symptom (rule # rules) ctx symptom =
     (if rule_matches (to_lower symptom) rule then rule_evaluate rule ctx else []) @
     diagnose_symptom rules ctx symptom"

section \<open>What the rules report\<close>

lemma diagnose_symptom_eq:
  "diagnose_symptom rules ctx symptom = diagnose (filter (rule_matches (to_lower symptom)) rules) ctx"
  by (induction rules) simp_all

lemma set_diagnose: "set (diagnose rules ctx) = (\<Union>rule\<in>set rules. set (rule_evaluate rule ctx))"
  by (induction rules) auto

lemma diagnose_symptom_subset: "set (diagnose_symptom rules ctx symptom) \<subseteq> set (diagnose rules ctx)"
  by (auto simp: diagnose_symptom_eq set_diagnose)

lemma with_builtin_rules_eq:
  "with_builtin_rules = [CircuitBreakerCascade, CircuitBreakerOpen, RateLimitExhausted, NoHealthyBackends,
     AllBackendsDraining, LowCacheHitRate, ListenerConflict]"
  by (simp add: with_builtin_rules_def register_def engine_new_def)

lemmas builtin_rules = CircuitBreakerCascade_def CircuitBreakerOpen_def RateLimitExhausted_def
  NoHealthyBackends_def AllBackendsDraining_def LowCacheHitRate_def ListenerConflict_def

lemma builtin_rule_ids:
  "map rule_id with_builtin_rules = [''RAUTA-CB-001'', ''RAUTA-CB-002'', ''RAUTA-RL-001'', ''RAUTA-BE-001'',
     ''RAUTA-BE-002'', ''RAUTA-CACHE-001'', ''RAUTA-LISTEN-001'']"
  by (simp add: with_builtin_rules_eq builtin_rules)

text \<open>A diagnosis carries the identifier and the symptom of its rule.\<close>

lemma diagnosis_of_rule:
  "rule \<in> set with_builtin_rules \<Longrightarrow> d \<in> set (rule_evaluate rule ctx) \<Longrightarrow>
     dg_rule_id d = rule_id rule \<and> dg_symptom d = rule_symptom rule"
  unfolding with_builtin_rules_eq
  by (auto simp: builtin_rules Let_def split: if_splits option.splits)

lemma port_counts_eq:
  "map_of (port_counts ls) p =
     (case map ls_protocol (filter (\<lambda>l. ls_port l = p) ls) of [] \<Rightarrow> None | ps \<Rightarrow> Some ps)"
proof -
  have "map_of (fold (\<lambda>l m. AList.update (ls_port l)
       ((case map_of m (ls_port l) of Some ps \<Rightarrow> ps | None \<Rightarrow> []) @ [ls_protocol l]) m) ls m0) p =
     (case map ls_protocol (filter (\<lambda>l. ls_port l = p) ls) of [] \<Rightarrow> map_of m0 p
      | ps \<Rightarrow> Some ((case map_of m0 p of Some qs \<Rightarrow> qs | None \<Rightarrow> []) @ ps))" for m0
    by (induction ls arbitrary: m0) (auto simp: update_conv' split: list.split option.split)
  then show ?thesis by (simp add: port_counts_def split: list.split)
qed

end
