(* ===== verification/Local_Query.thy ===== *)
theory Local_Query
  imports Diagnostics Router_Routing Breaker_Manager Rate_Limiter "HOL-Library.Char_ord" "HOL-Library.List_Lexorder"
begin

text \<open>
  The admin interface of the running gateway (\<open>control/src/admin/local_query.rs\<close> and
  \<open>control/src/admin/server.rs\<close>): queries that read the router, the circuit breakers and the rate
  limiter, and the HTTP endpoints over them. The JSON printer is a parameter. The properties relate
  what the diagnostics say of a route to what the router does with the requests for it.
\<close>

section \<open>Queries\<close>

record 'r LocalGatewayQuery =
  lq_router :: "'r Router"
  lq_circuit_breaker :: CircuitBreakerManager
  lq_rate_limiter :: RateLimiter
  lq_start_time :: instant

definition lq_new :: "'r Router \<Rightarrow> CircuitBreakerManager \<Rightarrow> RateLimiter \<Rightarrow> instant \<Rightarrow> 'r LocalGatewayQuery" where
  "lq_new router circuit_breaker rate_limiter now =
     \<lparr>lq_router = router, lq_circuit_breaker = circuit_breaker, lq_rate_limiter = rate_limiter,
      lq_start_time = now\<rparr>"

definition cache_stats_internal :: "'r LocalGatewayQuery \<Rightarrow> CacheStats" where
  "cache_stats_internal q =
     (let (hits, misses) = get_cache_stats (lq_router q);
          total = hits + misses
      in \<lparr>cs_hits = hits, cs_misses = misses, cs_size = get_cache_size (lq_router q),
          cs_hit_rate = (if total > 0 then f64_ratio (unat hits) (unat total) else Fin 0)\<rparr>)"

definition lq_snapshot :: "instant \<Rightarrow> 'r LocalGatewayQuery \<Rightarrow> GatewaySnapshot" where
  "lq_snapshot now q =
     \<lparr>gs_status = ''ok'', gs_uptime_seconds = of_nat ((now - lq_start_time q) div 1000000000),
      gs_route_count = route_count (lq_router q), gs_open_circuits = open_count (lq_circuit_breaker q),
      gs_exhausted_rate_limiters = exhausted_count now (lq_rate_limiter q), gs_listeners = [],
      gs_cache_stats = Some (cache_stats_internal q)\<rparr>"

definition lq_list_routes :: "string option \<Rightarrow> string option \<Rightarrow> 'r LocalGatewayQuery \<Rightarrow> RouteSnapshot list" where
  "lq_list_routes method_filter path_prefix q =
     (let rs = list_routes (lq_router q);
          rs = (case method_filter of Some m \<Rightarrow> filter (\<lambda>r. rs_method r = to_upper m) rs | None \<Rightarrow> rs);
          rs = (case path_prefix of Some p \<Rightarrow> filter (\<lambda>r. starts_with (rs_pattern r) p) rs | None \<Rightarrow> rs)
      in sort_key rs_pattern rs)"

definition lq_get_route :: "string \<Rightarrow> 'r LocalGatewayQuery \<Rightarrow> RouteSnapshot option" where
  "lq_get_route pattern q = find (\<lambda>r. rs_pattern r = pattern) (list_routes (lq_router q))"

definition lq_list_circuit_breakers :: "string option \<Rightarrow> 'r LocalGatewayQuery \<Rightarrow> CircuitBreakerSnapshot list" where
  "lq_list_circuit_breakers state_filter q =
     (let bs = cbm_snapshot_all (lq_circuit_breaker q);
          bs = (case state_filter of
                  Some s \<Rightarrow> filter (\<lambda>b. to_upper (cbs_state b) = to_upper s) bs
                | None \<Rightarrow> bs)
      in sort_key cbs_backend_id bs)"

definition lq_list_rate_limiters :: "instant \<Rightarrow> string option \<Rightarrow> 'r LocalGatewayQuery \<Rightarrow> RateLimiterSnapshot list" where
  "lq_list_rate_limiters now route_filter q =
     (let ls = rl_snapshot_all now (lq_rate_limiter q);
          ls = (case route_filter of Some r \<Rightarrow> filter (\<lambda>l. contains_str (rls_route l) r) ls | None \<Rightarrow> ls)
      in sort_key rls_route ls)"

definition lq_list_listeners :: "'r LocalGatewayQuery \<Rightarrow> ListenerSnapshot list" where
  "lq_list_listeners q = []"

definition lq_cache_stats :: "'r LocalGatewayQuery \<Rightarrow> CacheStats option" where
  "lq_cache_stats q = Some (cache_stats_internal q)"

definition lq_metrics_snapshot :: "string option \<Rightarrow> 'r LocalGatewayQuery \<Rightarrow> MetricSnapshot list" where
  "lq_metrics_snapshot metric_filter q = []"

definition lq_context :: "instant \<Rightarrow> 'r LocalGatewayQuery \<Rightarrow> DiagnosticContext" where
  "lq_context now q =
     \<lparr>dc_snapshot = lq_snapshot now q, dc_routes = list_routes (lq_router q),
      dc_circuit_breakers = cbm_snapshot_all (lq_circuit_breaker q),
      dc_rate_limiters = rl_snapshot_all now (lq_rate_limiter q)\<rparr>"

definition lq_diagnose :: "instant \<Rightarrow> string \<Rightarrow> 'r LocalGatewayQuery \<Rightarrow> Diagnosis list" where
  "lq_diagnose now symptom q = diagnose_symptom with_builtin_rules (lq_context now q) symptom"

definition lq_drain_backend :: "string \<Rightarrow> u64 option \<Rightarrow> 'r LocalGatewayQuery \<Rightarrow> string + unit" where
  "lq_drain_backend b timeout_secs q = Inl ''drain_backend not yet implemented via admin API''"

definition lq_undrain_backend :: "string \<Rightarrow> 'r LocalGatewayQuery \<Rightarrow> string + unit" where
  "lq_undrain_backend b q = Inl ''undrain_backend not yet implemented via admin API''"

section \<open>Endpoints\<close>

text \<open>
  The printer \<open>serde_json::to_string\<close> for the four types that are sent, and the object with one
  \<open>error\<close> member. All endpoint results are a status and a body of type \<open>application/json\<close>.
\<close>

record json =
  js_snapshot :: "GatewaySnapshot \<Rightarrow> string + string"
  js_routes :: "RouteSnapshot list \<Rightarrow> string + string"
  js_cache :: "CacheStats option \<Rightarrow> string + string"
  js_diagnoses :: "Diagnosis list \<Rightarrow> string + string"
  js_error :: "string \<Rightarrow> string"

definition json_response :: "u16 \<Rightarrow> string \<Rightarrow> u16 \<times> string" where
  "json_response code body = (code, body)"

definition json_result :: "json \<Rightarrow> string + string \<Rightarrow> u16 \<times> string" where
  "json_result J res =
     (case res of
        Inr body \<Rightarrow> json_response 200 body
      | Inl e \<Rightarrow> json_response 500 (js_error J (''serialization failed: '' @ e)))"

definition handle_status :: "json \<Rightarrow> instant \<Rightarrow> 'r LocalGatewayQuery \<Rightarrow> u16 \<times> string" where
  "handle_status J now q = json_result J (js_snapshot J (lq_snapshot now q))"

definition handle_list_routes :: "json \<Rightarrow> 'r LocalGatewayQuery \<Rightarrow> u16 \<times> string" where
  "handle_list_routes J q = json_result J (js_routes J (lq_list_routes None None q))"

definition handle_cache_stats :: "json \<Rightarrow> 'r LocalGatewayQuery \<Rightarrow> u16 \<times> string" where
  "handle_cache_stats J q = json_result J (js_cache J (lq_cache_stats q))"

definition handle_diagnose :: "json \<Rightarrow> instant \<Rightarrow> string \<Rightarrow> 'r LocalGatewayQuery \<Rightarrow> u16 \<times> string" where
  "handle_diagnose J now symptom q = json_result J (js_diagnoses J (lq_diagnose now symptom q))"

function trim_start_matches :: "string \<Rightarrow> string \<Rightarrow> string" where
  "trim_start_matches p s =
     (if p \<noteq> [] \<and> starts_with s p then trim_start_matches p (drop (length p) s) else s)"
  by pat_completeness auto
termination by (relation "measure (length \<circ> snd)") (auto simp: starts_with_iff)

declare trim_start_matches.simps [simp del]

definition diagnose_param :: "string option \<Rightarrow> string" where
  "diagnose_param query =
     (case query of
        None \<Rightarrow> ''degraded''
      | Some s \<Rightarrow>
          (case find (\<lambda>p. starts_with p ''symptom='') (split_char CHR ''&'' s) of
             Some p \<Rightarrow> trim_start_matches ''symptom='' p
           | None \<Rightarrow> ''degraded''))"

definition quoted :: "string \<Rightarrow> string" where
  "quoted s = [CHR 0x22] @ s @ [CHR 0x22]"

definition handle_admin_request :: "json \<Rightarrow> instant \<Rightarrow> string \<Rightarrow> string \<Rightarrow> string option \<Rightarrow>
    'r LocalGatewayQuery \<Rightarrow> u16 \<times> string" where
  "handle_admin_request J now method path query q =
     (if method = ''GET'' \<and> path = ''/api/v1/status'' then handle_status J now q
      else if method = ''GET'' \<and> path = ''/api/v1/routes'' then handle_list_routes J q
      else if method = ''GET'' \<and> path = ''/api/v1/cache'' then handle_cache_stats J q
      else if method = ''POST'' \<and> path = ''/api/v1/diagnose'' then handle_diagnose J now (diagnose_param query) q
      else if method = ''GET'' \<and> path = ''/healthz''
      then json_response 200 (''{'' @ quoted ''status'' @ '':'' @ quoted ''ok'' @ ''}'')
      else json_response 404 (''{'' @ quoted ''error'' @ '':'' @ quoted ''not found'' @ ''}''))"

section \<open>What the diagnoses mean\<close>

lemma no_healthy_unusable:
  "list_all (\<lambda>b. case bs_health_score b of Some s \<Rightarrow> f64_less s (Fin (1 / 2)) | None \<Rightarrow> False)
     (map (backend_snapshot r) bs) \<Longrightarrow> b \<in> set bs \<Longrightarrow> \<not> usable_backend r b"
  by (auto simp: list_all_iff backend_snapshot_def usable_backend_def healthy_passive_def f64_less_def
      split: option.splits if_splits dest!: bspec)

lemma all_draining_unusable:
  "list_all bs_is_draining (map (backend_snapshot r) bs) \<Longrightarrow> b \<in> set bs \<Longrightarrow> \<not> usable_backend r b"
  by (simp add: list_all_iff backend_snapshot_def usable_backend_def)

lemma unusable_select:
  assumes "router_reach M r" "map_of (routes r) k = Some route"
    and "\<forall>b\<in>set (rt_backends route). \<not> usable_backend r b" "fst (resolve_cached M m p r) = Some k"
  shows "select_backend M m p src src_port r = Done (None, snd (resolve_cached M m p r))"
proof -
  note inv = router_reach_inv [OF assms(1)]
  have "maglev_build_compact_table (rt_backends route) = Done (rt_maglev_table route)"
    using inv assms(2) by (simp add: router_inv_def)
  then have "find (usable_backend r) (flow_candidates route f) = None" for f
    using flow_candidates_set(1) assms(3) by (force simp: find_None_iff)
  then show ?thesis using assms(2,4) by (simp add: select_backend_choose [OF inv] choose_backend_def)
qed

lemma builtin_rule_of_id:
  assumes "rule \<in> set with_builtin_rules" "rule_id rule \<in> {''RAUTA-BE-001'', ''RAUTA-BE-002''}"
  shows "rule = NoHealthyBackends \<or> rule = AllBackendsDraining"
proof -
  have ids: "rule_id CircuitBreakerCascade = ''RAUTA-CB-001''" "rule_id CircuitBreakerOpen = ''RAUTA-CB-002''"
    "rule_id RateLimitExhausted = ''RAUTA-RL-001''" "rule_id LowCacheHitRate = ''RAUTA-CACHE-001''"
    "rule_id ListenerConflict = ''RAUTA-LISTEN-001''"
    by (simp_all add: builtin_rules)
  show ?thesis using assms ids unfolding with_builtin_rules_eq by auto
qed

lemma route_diagnosis:
  assumes "d \<in> set (rule_evaluate NoHealthyBackends ctx) \<or> d \<in> set (rule_evaluate AllBackendsDraining ctx)"
  shows "\<exists>rs\<in>set (dc_routes ctx). (no_healthy rs \<or> all_draining rs) \<and>
    starts_with (hd (dg_causal_chain d)) (''Route '' @ rs_method rs @ '' '' @ rs_pattern rs)"
proof -
  obtain rs t where "rs \<in> set (dc_routes ctx)" "no_healthy rs \<or> all_draining rs"
    "hd (dg_causal_chain d) = (''Route '' @ rs_method rs @ '' '' @ rs_pattern rs) @ t"
    using assms by (auto simp: NoHealthyBackends_def AllBackendsDraining_def Let_def)
  then show ?thesis by (metis starts_with_append)
qed

lemma backend_diagnosis:
  assumes "d \<in> set (lq_diagnose now symptom q)" "dg_rule_id d \<in> {''RAUTA-BE-001'', ''RAUTA-BE-002''}"
  shows "\<exists>rs\<in>set (list_routes (lq_router q)). (no_healthy rs \<or> all_draining rs) \<and>
    starts_with (hd (dg_causal_chain d)) (''Route '' @ rs_method rs @ '' '' @ rs_pattern rs)"
proof -
  from assms(1) obtain rule where rule: "rule \<in> set with_builtin_rules" "d \<in> set (rule_evaluate rule (lq_context now q))"
    using diagnose_symptom_subset by (fastforce simp: lq_diagnose_def set_diagnose)
  have "rule_id rule \<in> {''RAUTA-BE-001'', ''RAUTA-BE-002''}"
    using conjunct1 [OF diagnosis_of_rule [OF rule]] assms(2) by argo
  then have "rule = NoHealthyBackends \<or> rule = AllBackendsDraining"
    by (rule builtin_rule_of_id [OF rule(1)])
  then show ?thesis using rule(2) route_diagnosis [of d "lq_context now q"] by (auto simp: lq_context_def)
qed

text \<open>
  A route that the diagnostics report as having no healthy backends, or only draining ones, serves
  no request: every request that resolves to it gets no backend. The report names the method and
  the pattern of the route.
\<close>

theorem diagnosed_route_rejects:
  assumes "router_reach M (lq_router q)" "d \<in> set (lq_diagnose now symptom q)"
    and "dg_rule_id d \<in> {''RAUTA-BE-001'', ''RAUTA-BE-002''}"
  shows "\<exists>k route. map_of (routes (lq_router q)) k = Some route \<and>
    starts_with (hd (dg_causal_chain d)) (''Route '' @ method_to_str (rk_method k) @ '' '' @ rt_pattern route) \<and>
    (\<forall>m p src src_port. fst (resolve_cached M m p (lq_router q)) = Some k \<longrightarrow>
       (\<exists>r'. select_backend M m p src src_port (lq_router q) = Done (None, r')))"
proof -
  let ?r = "lq_router q"
  obtain rs where rs: "rs \<in> set (list_routes ?r)" "no_healthy rs \<or> all_draining rs"
    "starts_with (hd (dg_causal_chain d)) (''Route '' @ rs_method rs @ '' '' @ rs_pattern rs)"
    using backend_diagnosis [OF assms(2,3)] by blast
  then obtain k route where kr: "(k, route) \<in> set (routes ?r)" "rs_method rs = method_to_str (rk_method k)"
    "rs_pattern rs = rt_pattern route" "rs_backends rs = map (backend_snapshot ?r) (rt_backends route)"
    by (auto simp: list_routes_def)
  then have k: "map_of (routes ?r) k = Some route"
    using router_reach_inv [OF assms(1)] by (simp add: router_inv_def)
  have "\<forall>b\<in>set (rt_backends route). \<not> usable_backend ?r b"
    using rs(2) kr(4) no_healthy_unusable [of ?r] all_draining_unusable [of ?r]
    by (auto simp: no_healthy_def all_draining_def)
  note this = unusable_select [OF assms(1) k this]
  with rs(3) [unfolded kr(2,3)] k show ?thesis by (intro exI [of _ k] exI [of _ route]) auto
qed

text \<open>
  A diagnosis request without a symptom finds nothing, whatever the state of the gateway: the default
  symptom \<open>degraded\<close> occurs in no identifier and in no symptom of the built-in rules.
\<close>

theorem default_diagnosis_empty:
  "handle_admin_request J now ''POST'' ''/api/v1/diagnose'' None q = json_result J (js_diagnoses J [])"
proof -
  have "\<not> rule_matches (to_lower ''degraded'') rule" if "rule \<in> set with_builtin_rules" for rule
    using that by (auto simp: with_builtin_rules_eq builtin_rules rule_matches_def ascii_lower_def
        starts_with_def Let_def)
  then have "lq_diagnose now ''degraded'' q = []"
    by (simp add: lq_diagnose_def diagnose_symptom_eq filter_False)
  then show ?thesis by (simp add: handle_admin_request_def handle_diagnose_def diagnose_param_def)
qed

lemma listener_conflict_silent: "rule_evaluate ListenerConflict (lq_context now q) = []"
  by (simp add: ListenerConflict_def lq_context_def lq_snapshot_def port_counts_def)

section \<open>Instances\<close>

definition checked_config :: HealthCheckConfig where
  "checked_config = hc_config_default\<lparr>enabled := True\<rparr>"

lemma checked_route:
  "\<exists>r t. router_reach list_matchit r \<and>
     add_route list_matchit True GET ''/a'' [b] (with_health_config list_matchit checked_config) = Done (Inr (), r) \<and>
     routes r = [(key_of GET ''/a'', plain_route ''/a'' [b] t)] \<and> health r = healthdata_new \<and>
     health_checker r = start_checking True [b] ''/a'' (hc_new checked_config) \<and> route_cache r = lru_new 128"
proof -
  have r0: "router_reach list_matchit (with_health_config list_matchit checked_config)"
    by (rule router_reach.start)
  obtain t where t: "maglev_build_compact_table [b] = Done t"
    using compact_build [of "[b]"] by (auto simp: MAX_BACKENDS_def)
  let ?r = "(with_health_config list_matchit checked_config)\<lparr>routes := [(key_of GET ''/a'', plain_route ''/a'' [b] t)],
      prefix_router := [(''GET:/a'', key_of GET ''/a''), (''GET:/a/{*rest}'', key_of GET ''/a'')],
      health_checker := start_checking True [b] ''/a'' (hc_new checked_config)\<rparr>"
  have "add_route list_matchit True GET ''/a'' [b] (with_health_config list_matchit checked_config) = Done (Inr (), ?r)"
    by (simp add: add_route_def t with_health_config_def Let_def route_eval lru_invalidate_def lru_new_def)
  with router_reach.add [OF r0 this] show ?thesis
    by (intro exI [of _ ?r] exI [of _ t]) (simp add: with_health_config_def ROUTE_CACHE_MAX_SIZE_def)
qed

lemma quiet_rules:
  fixes now start :: instant
  assumes "routes r = [(k, plain_route p [b] t)]" "health r = healthdata_new" "route_cache r = lru_new n"
  defines "ctx \<equiv> lq_context now (lq_new r cbm_default rl_new start)"
  shows "rule_evaluate CircuitBreakerCascade ctx = []" "rule_evaluate CircuitBreakerOpen ctx = []"
    "rule_evaluate RateLimitExhausted ctx = []" "rule_evaluate NoHealthyBackends ctx = []"
    "rule_evaluate AllBackendsDraining ctx = []" "rule_evaluate LowCacheHitRate ctx = []"
proof -
  have parts: "dc_circuit_breakers ctx = []" "dc_rate_limiters ctx = []"
    by (simp_all add: ctx_def lq_context_def lq_new_def cbm_default_def cbm_new_def cbm_snapshot_all_def rl_new_def
        rl_snapshot_all_def)
  show "rule_evaluate CircuitBreakerCascade ctx = []" "rule_evaluate CircuitBreakerOpen ctx = []"
    "rule_evaluate RateLimitExhausted ctx = []"
    by (simp_all add: CircuitBreakerCascade_def CircuitBreakerOpen_def RateLimitExhausted_def open_breakers_def parts)
  have rs: "list_routes r = [rs] \<Longrightarrow> dc_routes ctx = [rs]" for rs by (simp add: ctx_def lq_context_def lq_new_def)
  show "rule_evaluate NoHealthyBackends ctx = []" "rule_evaluate AllBackendsDraining ctx = []"
    using assms(1,2) rs
    by (simp_all add: NoHealthyBackends_def AllBackendsDraining_def no_healthy_def all_draining_def list_routes_def
        plain_route_def backend_snapshot_def healthdata_new_def is_backend_draining_def)
  show "rule_evaluate LowCacheHitRate ctx = []"
    using assms(3)
    by (simp add: LowCacheHitRate_def ctx_def lq_context_def lq_snapshot_def lq_new_def cache_stats_internal_def
        get_cache_stats_def lru_stats_def lru_new_def Let_def)
qed

text \<open>
  The diagnostics do not see an outage that the active health checks cause. There is a gateway with
  one route and one backend whose probes fail, so that no request for the route gets a backend,
  and for which all rules together report nothing.
\<close>

theorem undiagnosed_outage:
  "\<exists>q b. router_reach list_matchit (lq_router q) \<and>
     tasks (health_checker (lq_router q)) = [(b, ''/a'')] \<and>
     (\<exists>r'. select_backend list_matchit GET ''/a'' src src_port (lq_router q) = Done (None, r')) \<and>
     (\<forall>now. diagnose with_builtin_rules (lq_context now q) = [])"
proof -
  let ?b = "backend_new 1 80 1"
  let ?p = "failed_probe ?b"
  obtain r0 t where r0: "router_reach list_matchit r0" "routes r0 = [(key_of GET ''/a'', plain_route ''/a'' [?b] t)]"
    "health r0 = healthdata_new" "health_checker r0 = start_checking True [?b] ''/a'' (hc_new checked_config)"
    "route_cache r0 = lru_new 128"
    using checked_route [of ?b] by blast
  define r where "r = r0\<lparr>health_checker := run_probe ?p (run_probe ?p (run_probe ?p (health_checker r0)))\<rparr>"
  have reach: "router_reach list_matchit r"
    using router_reach.probe [OF router_reach.probe [OF router_reach.probe [OF r0(1), of ?p], of ?p], of ?p]
    by (simp add: r_def)
  have unhealthy: "hc_is_healthy ?b (health_checker r) = False"
    using r0(4) by (simp add: r_def hc_is_healthy_state run_probe_state)
      (simp add: advance_def failed_probe_def bhs_record_failure_def state_of_def start_checking_def
        checked_config_def hc_config_default_def hc_new_def track_def bhs_new_def Let_def)
  have "tasks (health_checker r) = [(?b, ''/a'')]"
    using r0(4) by (simp add: r_def run_probe_def check_backend_def start_checking_def checked_config_def
        hc_config_default_def hc_new_def failed_probe_def Let_def)
  moreover have "\<exists>r'. select_backend list_matchit GET ''/a'' src src_port r = Done (None, r')"
  proof -
    have k: "map_of (routes r) (key_of GET ''/a'') = Some (plain_route ''/a'' [?b] t)" by (simp add: r_def r0(2))
    have "\<forall>b\<in>set (rt_backends (plain_route ''/a'' [?b] t)). \<not> usable_backend r b"
      using unhealthy by (simp add: plain_route_def usable_backend_def)
    from unusable_select [OF reach k this one_route_resolved [of r ?b t]] show ?thesis
      using r0 by (simp add: r_def)
  qed
  moreover have "diagnose with_builtin_rules (lq_context now (lq_new r cbm_default rl_new 0)) = []" for now
    using r0 by (simp add: with_builtin_rules_eq quiet_rules listener_conflict_silent r_def)
  ultimately show ?thesis using reach by (intro exI [of _ "lq_new r cbm_default rl_new 0"] exI [of _ ?b]) (simp add: lq_new_def)
qed

theorem diagnosed_route_rejects_witness:
  "\<exists>q d k. router_reach list_matchit (lq_router q) \<and> d \<in> set (lq_diagnose 0 ''no-healthy-backends'' q) \<and>
     map_of (routes (lq_router q)) k \<noteq> None \<and>
     (\<forall>m p src src_port. fst (resolve_cached list_matchit m p (lq_router q)) = Some k \<longrightarrow>
        (\<exists>r'. select_backend list_matchit m p src src_port (lq_router q) = Done (None, r')))"
proof -
  have new: "routes (router_new list_matchit) = []" by (simp add: router_new_def with_health_config_def)
  obtain r where r: "add_route list_matchit False GET ''/a'' [] (router_new list_matchit) = Done (Inr (), r)"
    "routes r = [(key_of GET ''/a'', plain_route ''/a'' [] (replicate COMPACT_MAGLEV_SIZE 0))]"
    using add_route_empty [of "router_new list_matchit" GET "''/a''" list_matchit] new by (auto simp: route_eval)
  have reach: "router_reach list_matchit r"
    by (rule router_reach.add [OF router_reach.start [of _ hc_config_default] r(1) [unfolded router_new_def]])
  let ?q = "lq_new r cbm_default rl_new 0"
  have "rule_matches (to_lower ''no-healthy-backends'') NoHealthyBackends"
    by (simp add: rule_matches_def NoHealthyBackends_def contains_str_iff exI [of _ "[]"])
  then have "set (rule_evaluate NoHealthyBackends (lq_context 0 ?q)) \<subseteq> set (lq_diagnose 0 ''no-healthy-backends'' ?q)"
    by (auto simp: lq_diagnose_def diagnose_symptom_eq set_diagnose with_builtin_rules_eq)
  moreover have "rule_evaluate NoHealthyBackends (lq_context 0 ?q) \<noteq> []"
    by (simp add: NoHealthyBackends_def lq_context_def lq_new_def list_routes_def r(2) no_healthy_def plain_route_def)
  then obtain d where "d \<in> set (rule_evaluate NoHealthyBackends (lq_context 0 ?q))"
    by (cases "rule_evaluate NoHealthyBackends (lq_context 0 ?q)") auto
  moreover from this have "dg_rule_id d = ''RAUTA-BE-001''" by (auto simp: NoHealthyBackends_def Let_def)
  ultimately have d: "d \<in> set (lq_diagnose 0 ''no-healthy-backends'' ?q)" "dg_rule_id d = ''RAUTA-BE-001''" by blast+
  have "router_reach list_matchit (lq_router ?q)" using reach by (simp add: lq_new_def)
  with diagnosed_route_rejects [OF this d(1)] d show ?thesis by (metis insertI1 option.distinct(1))
qed

end
