(* ===== verification/Backend_Pool.thy ===== *)
theory Backend_Pool
  imports Common_Types "HOL-Library.AList"
begin

text \<open>
  The pools of HTTP/2 connections (\<open>control/src/proxy/backend_pool.rs\<close>) and the workers that own
  them (\<open>control/src/proxy/worker.rs\<close>). A sender of hyper is an abstract value; whether it is ready, and
  what a connection attempt ends with, are arguments of the calls. The Prometheus calls are recorded
  in order. The lemmas cover the rotation over the connections, the limits, and what becomes of a
  pool whose connections have died or whose backend has failed and recovered.
\<close>

section \<open>Pools\<close>

record BackendKey =
  bk_ip :: "u8 list"
  bk_port :: u16

definition backendkey_from :: "backend \<Rightarrow> BackendKey" where
  "backendkey_from b = \<lparr>bk_ip = ip b, bk_port = port b\<rparr>"

datatype ConnectionState = Active | Draining | Failed

datatype HealthState = PoolHealthy | Degraded | PoolUnhealthy

datatype PoolError =
    CircuitBreakerOpen
  | ConnectionFailed string
  | HandshakeFailed string
  | NoCapacity
  | QueueTimeout

record PoolMetrics =
  requests_total :: u64
  requests_queued :: u64
  connections_created :: u64
  connections_failed :: u64

datatype pool_metric =
    PoolMaxStreams string string int
  | PoolActive string string int
  | PoolCreated string string
  | PoolFailed string string
  | PoolQueued string string

record 's Http2Connection =
  hc_sender :: 's
  hc_active_streams :: u32
  hc_max_streams :: u32
  hc_total_requests :: u64
  hc_state :: ConnectionState
  hc_created_at :: instant
  hc_last_used :: instant
  hc_consecutive_errors :: u32
  hc_last_error :: "instant option"

record 's Http2Pool =
  hp_backend :: backend
  hp_worker_id :: nat
  hp_connections :: "'s Http2Connection list"
  hp_max_connections :: nat
  hp_max_streams_per_conn :: u32
  hp_next_conn_index :: nat
  hp_header_table_size :: u32
  hp_health_state :: HealthState
  hp_consecutive_failures :: u32
  hp_last_success :: instant
  hp_metrics :: PoolMetrics
  hp_prom :: "pool_metric list"

fun show_socketaddr :: "socketaddr \<Rightarrow> string" where
  "show_socketaddr (SocketV4 a p) = show_ipv4 a @ '':'' @ show_u16 p"
| "show_socketaddr (SocketV6 a p flowinfo scope_id) =
     ''['' @ show_ipv6 a @ (if scope_id = 0 then [] else ''%'' @ show_nat (unat scope_id)) @ '']:'' @ show_u16 p"

definition format_backend :: "backend \<Rightarrow> string" where
  "format_backend b = show_socketaddr (to_socket_addr b)"

lemma format_backend_eq: "format_backend b = show_backend b"
  by (simp add: format_backend_def to_socket_addr_def show_backend_def)

definition pool_log :: "pool_metric list \<Rightarrow> 's Http2Pool \<Rightarrow> 's Http2Pool" where
  "pool_log es p = p\<lparr>hp_prom := hp_prom p @ es\<rparr>"

definition pool_new :: "backend \<Rightarrow> nat \<Rightarrow> instant \<Rightarrow> 's Http2Pool" where
  "pool_new b worker_id now =
     \<lparr>hp_backend = b, hp_worker_id = worker_id, hp_connections = [], hp_max_connections = 8,
      hp_max_streams_per_conn = 500, hp_next_conn_index = 0, hp_header_table_size = 8192,
      hp_health_state = PoolHealthy, hp_consecutive_failures = 0, hp_last_success = now,
      hp_metrics = \<lparr>requests_total = 0, requests_queued = 0, connections_created = 0, connections_failed = 0\<rparr>,
      hp_prom = [PoolMaxStreams (show_backend b) (show_nat worker_id) 500]\<rparr>"

definition pool_record_success :: "instant \<Rightarrow> 's Http2Pool \<Rightarrow> 's Http2Pool" where
  "pool_record_success now p =
     (let p = p\<lparr>hp_consecutive_failures := 0, hp_last_success := now\<rparr>
      in if hp_health_state p = Degraded then p\<lparr>hp_health_state := PoolHealthy\<rparr> else p)"

definition pool_record_failure :: "'s Http2Pool \<Rightarrow> 's Http2Pool" where
  "pool_record_failure p =
     (let p = p\<lparr>hp_consecutive_failures := hp_consecutive_failures p + 1,
               hp_metrics := (hp_metrics p)\<lparr>connections_failed := connections_failed (hp_metrics p) + 1\<rparr>\<rparr>;
          p = pool_log [PoolFailed (format_backend (hp_backend p)) (show_nat (hp_worker_id p))] p;
          p = (if hp_consecutive_failures p \<ge> 5 \<and> hp_health_state p = PoolHealthy
               then p\<lparr>hp_health_state := Degraded, hp_max_connections := max (hp_max_connections p) 1 div 2\<rparr>
               else p)
      in if hp_consecutive_failures p \<ge> 10 then p\<lparr>hp_health_state := PoolUnhealthy\<rparr> else p)"

text \<open>What a connection attempt ends with, under the timeout of five seconds.\<close>

datatype 's connect = ConnTimeout | ConnError string | HandshakeError string | ConnOk 's

definition create_connection :: "instant \<Rightarrow> 's connect \<Rightarrow> 's Http2Pool \<Rightarrow>
    (PoolError + 's Http2Connection) \<times> 's Http2Pool" where
  "create_connection now res p =
     (case res of
        ConnTimeout \<Rightarrow> (Inl (ConnectionFailed ''Connection timeout after 5s''), pool_record_failure p)
      | ConnError e \<Rightarrow> (Inl (ConnectionFailed e), pool_record_failure p)
      | HandshakeError e \<Rightarrow> (Inl (HandshakeFailed e), pool_record_failure p)
      | ConnOk s \<Rightarrow>
          let p = pool_record_success now p;
              p = p\<lparr>hp_metrics := (hp_metrics p)\<lparr>connections_created := connections_created (hp_metrics p) + 1\<rparr>\<rparr>;
              p = pool_log [PoolCreated (format_backend (hp_backend p)) (show_nat (hp_worker_id p)),
                    PoolActive (format_backend (hp_backend p)) (show_nat (hp_worker_id p))
                      (int (length (hp_connections p)) + 1)] p
          in (Inr \<lparr>hc_sender = s, hc_active_streams = 0, hc_max_streams = hp_max_streams_per_conn p,
                  hc_total_requests = 0, hc_state = Active, hc_created_at = now, hc_last_used = now,
                  hc_consecutive_errors = 0, hc_last_error = None\<rparr>, p))"

text \<open>
  \<open>prewarm\<close> opens as many connections as the limit was at its start, and stops at the first failure;
  \<open>res i\<close> is what attempt \<open>i\<close> ends with.
\<close>

fun prewarm_loop :: "instant \<Rightarrow> (nat \<Rightarrow> 's connect) \<Rightarrow> nat list \<Rightarrow> 's Http2Pool \<Rightarrow> 's Http2Pool" where
  "prewarm_loop now res [] p = p"
| "prewarm_loop now res (i # is) p =
     (case create_connection now (res i) p of
        (Inr conn, p') \<Rightarrow> prewarm_loop now res is (p'\<lparr>hp_connections := hp_connections p' @ [conn]\<rparr>)
      | (Inl e, p') \<Rightarrow> p')"

definition prewarm :: "instant \<Rightarrow> (nat \<Rightarrow> 's connect) \<Rightarrow> 's Http2Pool \<Rightarrow> 's Http2Pool" where
  "prewarm now res p = prewarm_loop now res [0..<hp_max_connections p] p"

text \<open>The search for a ready connection, in rotation from \<open>next_conn_index\<close>.\<close>

fun find_ready :: "('s \<Rightarrow> bool) \<Rightarrow> 's Http2Connection list \<Rightarrow> nat list \<Rightarrow> nat option" where
  "find_ready ready conns [] = None"
| "find_ready ready conns (idx # rest) =
     (if hc_state (conns ! idx) = Active \<and> ready (hc_sender (conns ! idx)) then Some idx
      else find_ready ready conns rest)"

text \<open>
  \<open>get_connection\<close> up to the point where it waits for a new connection: an answer, or \<open>None\<close> when it has
  to connect, and the pool as it is then.
\<close>

definition get_connection_start :: "instant \<Rightarrow> ('s \<Rightarrow> bool) \<Rightarrow> 's Http2Pool \<Rightarrow>
    (PoolError + 's) option \<times> 's Http2Pool" where
  "get_connection_start now ready p =
     (if hp_health_state p = PoolUnhealthy \<and> \<not> now - hp_last_success p > 30000000000
      then (Some (Inl CircuitBreakerOpen), p)
      else
        let p = (if hp_health_state p = PoolUnhealthy
                 then p\<lparr>hp_health_state := Degraded, hp_consecutive_failures := 0\<rparr> else p);
            before_cleanup = length (hp_connections p);
            p = p\<lparr>hp_connections := filter (\<lambda>c. hc_state c \<noteq> Failed) (hp_connections p)\<rparr>;
            after_cleanup = length (hp_connections p);
            p = (if before_cleanup \<noteq> after_cleanup
                 then pool_log [PoolActive (format_backend (hp_backend p)) (show_nat (hp_worker_id p)) (int after_cleanup)] p
                 else p);
            conns = hp_connections p; num_conns = length conns
        in case find_ready ready conns (map (\<lambda>i. (hp_next_conn_index p + i) mod num_conns) [0..<num_conns]) of
             Some idx \<Rightarrow>
               (Some (Inr (hc_sender (conns ! idx))),
                p\<lparr>hp_connections := conns[idx := (conns ! idx)\<lparr>hc_last_used := now\<rparr>],
                  hp_next_conn_index := (idx + 1) mod num_conns\<rparr>)
           | None \<Rightarrow>
               if length (hp_connections p) < hp_max_connections p then (None, p)
               else
                 (Some (Inl NoCapacity),
                  pool_log [PoolQueued (format_backend (hp_backend p)) (show_nat (hp_worker_id p))]
                    (p\<lparr>hp_metrics := (hp_metrics p)\<lparr>requests_queued := requests_queued (hp_metrics p) + 1\<rparr>\<rparr>)))"

definition get_connection :: "instant \<Rightarrow> ('s \<Rightarrow> bool) \<Rightarrow> 's connect \<Rightarrow> 's Http2Pool \<Rightarrow>
    (PoolError + 's) \<times> 's Http2Pool" where
  "get_connection now ready res p =
     (case get_connection_start now ready p of
        (Some r, p) \<Rightarrow> (r, p)
      | (None, p) \<Rightarrow>
          (case create_connection now res p of
             (Inl e, p) \<Rightarrow> (Inl e, p)
           | (Inr conn, p) \<Rightarrow>
               (Inr (hc_sender conn), p\<lparr>hp_connections := hp_connections p @ [conn\<lparr>hc_last_used := now\<rparr>]\<rparr>)))"

definition should_close :: "instant \<Rightarrow> ('s \<Rightarrow> bool) \<Rightarrow> 's Http2Connection \<Rightarrow> bool" where
  "should_close now ready c \<longleftrightarrow>
     hc_state c = Failed \<or> now - hc_created_at c > 3600000000000 \<or> hc_total_requests c > 10000 \<or>
     \<not> ready (hc_sender c)"

section \<open>The pools of a worker\<close>

record 's BackendConnectionPools =
  bp_worker_id :: nat
  bp_pools :: "(BackendKey \<times> 's Http2Pool) list"

definition pools_new :: "nat \<Rightarrow> 's BackendConnectionPools" where
  "pools_new worker_id = \<lparr>bp_worker_id = worker_id, bp_pools = []\<rparr>"

definition get_or_create_pool :: "instant \<Rightarrow> backend \<Rightarrow> 's BackendConnectionPools \<Rightarrow>
    's Http2Pool \<times> 's BackendConnectionPools" where
  "get_or_create_pool now b ps =
     (case map_of (bp_pools ps) (backendkey_from b) of
        Some p \<Rightarrow> (p, ps)
      | None \<Rightarrow>
          let p = pool_new b (bp_worker_id ps) now
          in (p, ps\<lparr>bp_pools := AList.update (backendkey_from b) p (bp_pools ps)\<rparr>))"

definition prewarm_pool :: "instant \<Rightarrow> (nat \<Rightarrow> 's connect) \<Rightarrow> backend \<Rightarrow> 's BackendConnectionPools \<Rightarrow>
    's BackendConnectionPools" where
  "prewarm_pool now res b ps =
     (case map_of (bp_pools ps) (backendkey_from b) of
        None \<Rightarrow> ps
      | Some p \<Rightarrow>
          if hp_connections p = []
          then ps\<lparr>bp_pools := AList.update (backendkey_from b) (prewarm now res p) (bp_pools ps)\<rparr>
          else ps)"

text \<open>
  \<open>Worker::get_backend_connection\<close>, under the lock of the worker: the connections that pre-warming
  opens, and the one that \<open>get_connection\<close> may open after it.
\<close>

definition get_backend_connection :: "instant \<Rightarrow> ('s \<Rightarrow> bool) \<Rightarrow> (nat \<Rightarrow> 's connect) \<Rightarrow> 's connect \<Rightarrow> backend \<Rightarrow>
    's BackendConnectionPools \<Rightarrow> (PoolError + 's) \<times> 's BackendConnectionPools" where
  "get_backend_connection now ready pre res b ps =
     (let ps = prewarm_pool now pre b ps;
          (p, ps) = get_or_create_pool now b ps;
          (r, p') = get_connection now ready res p
      in (r, ps\<lparr>bp_pools := AList.update (backendkey_from b) p' (bp_pools ps)\<rparr>))"

section \<open>Histories of calls\<close>

text \<open>One call of \<open>get_connection\<close>: its time, the senders that are ready, and the outcome of a connection attempt.\<close>

record 's pool_call =
  pc_now :: instant
  pc_ready :: "'s \<Rightarrow> bool"
  pc_connect :: "'s connect"

fun run_gets :: "'s pool_call list \<Rightarrow> 's Http2Pool \<Rightarrow> (PoolError + 's) list \<times> 's Http2Pool" where
  "run_gets [] p = ([], p)"
| "run_gets (c # cs) p =
     (let (r, p) = get_connection (pc_now c) (pc_ready c) (pc_connect c) p; (rs, p) = run_gets cs p
      in (r # rs, p))"

definition pool_inv :: "'s Http2Pool \<Rightarrow> bool" where
  "pool_inv p \<longleftrightarrow>
     length (hp_connections p) \<le> 8 \<and> hp_max_connections p \<le> 8 \<and>
     list_all (\<lambda>c. hc_state c = Active) (hp_connections p)"

lemma pool_log_simps [simp]:
  "hp_connections (pool_log es p) = hp_connections p" "hp_max_connections (pool_log es p) = hp_max_connections p"
  "hp_health_state (pool_log es p) = hp_health_state p" "hp_next_conn_index (pool_log es p) = hp_next_conn_index p"
  "hp_consecutive_failures (pool_log es p) = hp_consecutive_failures p" "hp_backend (pool_log es p) = hp_backend p"
  "hp_worker_id (pool_log es p) = hp_worker_id p"
  by (simp_all add: pool_log_def)

lemma record_failure_frame [simp]:
  "hp_connections (pool_record_failure p) = hp_connections p"
  "hp_next_conn_index (pool_record_failure p) = hp_next_conn_index p"
  by (simp_all add: pool_record_failure_def Let_def)

lemma record_failure_max: "hp_max_connections (pool_record_failure p) \<le> max (hp_max_connections p) 1"
  by (simp add: pool_record_failure_def Let_def)

lemma record_success_frame [simp]:
  "hp_connections (pool_record_success now p) = hp_connections p"
  "hp_max_connections (pool_record_success now p) = hp_max_connections p"
  "hp_next_conn_index (pool_record_success now p) = hp_next_conn_index p"
  by (simp_all add: pool_record_success_def Let_def)

lemma create_connection_cases:
  assumes "create_connection now res p = (r, p')"
  shows "(\<exists>e. r = Inl e \<and> p' = pool_record_failure p) \<or>
    (\<exists>c s. r = Inr c \<and> res = ConnOk s \<and> hc_state c = Active \<and> hc_sender c = s \<and>
       hp_connections p' = hp_connections p \<and> hp_max_connections p' = hp_max_connections p)"
  using assms by (auto simp: create_connection_def Let_def split: connect.splits)

lemma find_ready_in: "find_ready ready conns is = Some idx \<Longrightarrow> idx \<in> set is"
  by (induction "is") (auto split: if_splits)

lemma find_ready_None:
  "(\<forall>i\<in>set is. \<not> ready (hc_sender (conns ! i))) \<Longrightarrow> find_ready ready conns is = None"
  by (induction "is") auto

lemma filter_active: "list_all (\<lambda>c. hc_state c = Active) cs \<Longrightarrow> filter (\<lambda>c. hc_state c \<noteq> Failed) cs = cs"
  by (induction cs) auto

lemma create_connection_inv:
  assumes "pool_inv p" "create_connection now res p = (r, p')"
  shows "pool_inv p' \<and> hp_connections p' = hp_connections p"
  using assms create_connection_cases [OF assms(2)] record_failure_max [of p]
  by (auto simp: pool_inv_def)

text \<open>
  In a pool with active connections only, the clean-up does nothing; \<open>recovered\<close> is the pool after the
  check of its breaker.
\<close>

definition recovered :: "'s Http2Pool \<Rightarrow> 's Http2Pool" where
  "recovered p = (if hp_health_state p = PoolUnhealthy
     then p\<lparr>hp_health_state := Degraded, hp_consecutive_failures := 0\<rparr> else p)"

definition rotation :: "'s Http2Pool \<Rightarrow> nat list" where
  "rotation p = map (\<lambda>i. (hp_next_conn_index p + i) mod length (hp_connections p)) [0..<length (hp_connections p)]"

lemma recovered_simps [simp]:
  "hp_connections (recovered p) = hp_connections p" "hp_max_connections (recovered p) = hp_max_connections p"
  "hp_next_conn_index (recovered p) = hp_next_conn_index p" "pool_inv (recovered p) = pool_inv p"
  "rotation (recovered p) = rotation p"
  by (simp_all add: recovered_def pool_inv_def rotation_def)

lemma get_connection_active:
  assumes "pool_inv p"
  shows "get_connection now ready res p =
    (if hp_health_state p = PoolUnhealthy \<and> \<not> now - hp_last_success p > 30000000000 then (Inl CircuitBreakerOpen, p)
     else let conns = hp_connections p in
       case find_ready ready conns (rotation p) of
         Some idx \<Rightarrow> (Inr (hc_sender (conns ! idx)),
           (recovered p)\<lparr>hp_connections := conns[idx := (conns ! idx)\<lparr>hc_last_used := now\<rparr>],
             hp_next_conn_index := (idx + 1) mod length conns\<rparr>)
       | None \<Rightarrow>
           if length conns < hp_max_connections p then
             (case create_connection now res (recovered p) of
                (Inl e, p') \<Rightarrow> (Inl e, p')
              | (Inr conn, p') \<Rightarrow> (Inr (hc_sender conn), p'\<lparr>hp_connections := hp_connections p' @ [conn\<lparr>hc_last_used := now\<rparr>]\<rparr>))
           else
             (Inl NoCapacity, pool_log [PoolQueued (format_backend (hp_backend p)) (show_nat (hp_worker_id p))]
               ((recovered p)\<lparr>hp_metrics := (hp_metrics p)\<lparr>requests_queued := requests_queued (hp_metrics p) + 1\<rparr>\<rparr>)))"
proof -
  have kept: "filter (\<lambda>c. hc_state c \<noteq> Failed) (hp_connections p) = hp_connections p"
    using assms by (intro filter_active) (simp add: pool_inv_def)
  have same: "(recovered p)\<lparr>hp_connections := hp_connections p\<rparr> = recovered p"
    "hp_backend (recovered p) = hp_backend p" "hp_worker_id (recovered p) = hp_worker_id p"
    "hp_metrics (recovered p) = hp_metrics p"
    by (simp_all add: recovered_def)
  show ?thesis
    by (simp add: get_connection_def get_connection_start_def Let_def recovered_def [symmetric] rotation_def kept same
        split: option.split)
qed

lemma active_update:
  "list_all (\<lambda>c. hc_state c = Active) cs \<Longrightarrow> i < length cs \<Longrightarrow>
     list_all (\<lambda>c. hc_state c = Active) (cs[i := (cs ! i)\<lparr>hc_last_used := now\<rparr>])"
  by (simp add: list_all_length nth_list_update)

lemma rotation_lt: "i \<in> set (rotation p) \<Longrightarrow> i < length (hp_connections p)"
  by (cases "hp_connections p = []") (auto simp: rotation_def)

lemma get_connection_inv [inv_intros]:
  assumes inv: "pool_inv p"
  shows "pool_inv (snd (get_connection now ready res p))"
proof (cases "hp_health_state p = PoolUnhealthy \<and> \<not> now - hp_last_success p > 30000000000")
  case False
  show ?thesis
  proof (cases "find_ready ready (hp_connections p) (rotation p)")
    case (Some idx)
    then have "idx < length (hp_connections p)" using find_ready_in rotation_lt by blast
    then show ?thesis
      using False Some inv active_update [of "hp_connections p" idx now]
      by (simp add: get_connection_active [OF inv] Let_def) (simp add: pool_inv_def)
  next
    case None
    obtain r p' where c: "create_connection now res (recovered p) = (r, p')" by fastforce
    from inv have "pool_inv (recovered p)" by simp
    from create_connection_inv [OF this c] create_connection_cases [OF c] None False inv c show ?thesis
      by (cases r) (auto simp: get_connection_active [OF inv] Let_def pool_inv_def)
  qed
qed (simp add: get_connection_active [OF inv] inv)

lemma pool_new_inv [inv_intros]: "pool_inv (pool_new b w now)"
  by (simp add: pool_inv_def pool_new_def)

lemma run_gets_inv [inv_intros]: "pool_inv p \<Longrightarrow> pool_inv (snd (run_gets cs p))"
proof (induction cs arbitrary: p)
  case (Cons c cs)
  from Cons.IH [OF get_connection_inv [OF Cons.prems]] show ?case by (simp add: split_def Let_def)
qed simp

lemma run_gets_append: "snd (run_gets (cs @ ds) p) = snd (run_gets ds (snd (run_gets cs p)))"
  by (induction cs arbitrary: p) (simp_all add: split_def Let_def)

section \<open>Connections that have died\<close>

lemma dead_get:
  assumes inv: "pool_inv p" and full: "hp_max_connections p \<le> length (hp_connections p)"
    and dead: "\<forall>c\<in>set (hp_connections p). \<not> ready (hc_sender c)"
  shows "\<exists>e p'. get_connection now ready res p = (Inl e, p') \<and> e \<in> {CircuitBreakerOpen, NoCapacity} \<and>
    hp_connections p' = hp_connections p \<and> hp_max_connections p' = hp_max_connections p"
proof -
  have "find_ready ready (hp_connections p) (rotation p) = None"
    using dead rotation_lt [of _ p] by (intro find_ready_None) auto
  with full show ?thesis by (simp add: get_connection_active [OF inv] Let_def)
qed

text \<open>
  C28: A pool whose connections have all died stays unusable: nothing ever marks a connection as failed,
  so dead connections are never removed, and once there are as many of them as the limit allows,
  every later request is turned away, whether or not the backend would accept connections again.
\<close>

theorem dead_pool_stays_dead:
  assumes "pool_inv p" "hp_max_connections p \<le> length (hp_connections p)"
    and "\<forall>call\<in>set calls. \<forall>c\<in>set (hp_connections p). \<not> pc_ready call (hc_sender c)"
  shows "\<forall>r\<in>set (fst (run_gets calls p)). r \<in> {Inl CircuitBreakerOpen, Inl NoCapacity}"
  using assms
proof (induction calls arbitrary: p)
  case (Cons call calls)
  obtain e p' where g: "get_connection (pc_now call) (pc_ready call) (pc_connect call) p = (Inl e, p')"
    "e \<in> {CircuitBreakerOpen, NoCapacity}" "hp_connections p' = hp_connections p"
    "hp_max_connections p' = hp_max_connections p"
    using dead_get [OF Cons.prems(1,2), of "pc_ready call"] Cons.prems(3) by (metis list.set_intros(1))
  have "pool_inv p'"
    using get_connection_inv [OF Cons.prems(1), of "pc_now call" "pc_ready call" "pc_connect call"] g(1) by simp
  from Cons.IH [OF this] Cons.prems g show ?case by (auto simp: Let_def split: prod.splits)
qed simp

definition open_call :: "nat \<Rightarrow> nat pool_call" where
  "open_call i = \<lparr>pc_now = 0, pc_ready = (\<lambda>_. False), pc_connect = ConnOk i\<rparr>"

lemma open_call_simps [simp]:
  "pc_now (open_call i) = 0" "pc_ready (open_call i) = (\<lambda>_. False)" "pc_connect (open_call i) = ConnOk i"
  by (simp_all add: open_call_def)

lemma open_calls:
  "length is \<le> 8 \<Longrightarrow> let p = snd (run_gets (map open_call is) (pool_new (backend_new 1 80 1) 0 0))
     in map hc_sender (hp_connections p) = is \<and> hp_next_conn_index p = 0 \<and> hp_max_connections p = 8 \<and> hp_health_state p = PoolHealthy"
proof (induction "is" rule: rev_induct)
  case (snoc i "is")
  let ?p = "snd (run_gets (map open_call is) (pool_new (backend_new 1 80 1) 0 0))"
  have inv: "pool_inv ?p" by (intro run_gets_inv pool_new_inv)
  have "find_ready (\<lambda>_. False) (hp_connections ?p) js = None" for js by (rule find_ready_None) simp
  moreover from snoc have "length (hp_connections ?p) \<le> 7" by (auto simp: Let_def dest: arg_cong [where f = length])
  ultimately show ?case
    using snoc by (simp add: run_gets_append get_connection_active [OF inv] create_connection_def
        recovered_def pool_record_success_def Let_def split_def)
qed (simp add: pool_new_def)

theorem dead_pool_stays_dead_witness:
  "let p = snd (run_gets (map open_call [0..<8]) (pool_new (backend_new 1 80 1) 0 0))
   in length (hp_connections p) = 8 \<and> (\<forall>r\<in>set (fst (run_gets [open_call 8, open_call 9] p)). r \<in> {Inl CircuitBreakerOpen, Inl NoCapacity})"
proof -
  let ?p = "snd (run_gets (map open_call [0..<8]) (pool_new (backend_new 1 80 1) 0 0)) :: nat Http2Pool"
  have inv: "pool_inv ?p" by (intro run_gets_inv pool_new_inv)
  have "map hc_sender (hp_connections ?p) = [0..<8]" "hp_max_connections ?p = 8"
    using open_calls [of "[0..<8]"] by (simp_all add: Let_def del: upt_rec_numeral)
  moreover from this(1) have "length (hp_connections ?p) = 8" by (metis diff_zero length_map length_upt)
  ultimately have "length (hp_connections ?p) = 8 \<and> hp_max_connections ?p = 8" by simp
  then show ?thesis
    using dead_pool_stays_dead [OF inv, of "[open_call 8, open_call 9]"] by (simp add: Let_def)
qed

section \<open>Failures and recovery\<close>

text \<open>Five failures in a row and then a success: the pool degrades and recovers.\<close>

definition degrade_and_recover :: "instant \<Rightarrow> 's Http2Pool \<Rightarrow> 's Http2Pool" where
  "degrade_and_recover now p = pool_record_success now ((pool_record_failure ^^ 5) p)"

lemma record_failure_count:
  "hp_consecutive_failures (pool_record_failure p) = hp_consecutive_failures p + 1"
  by (simp add: pool_record_failure_def Let_def)

lemma record_failure_healthy:
  assumes "hp_consecutive_failures p < 4" "hp_health_state p = PoolHealthy"
  shows "hp_health_state (pool_record_failure p) = PoolHealthy" "hp_max_connections (pool_record_failure p) = hp_max_connections p"
  using assms by (simp_all add: pool_record_failure_def Let_def word_le_nat_alt word_less_nat_alt unat_word_ariths)

lemma failures_below:
  assumes "hp_consecutive_failures p = 0" "hp_health_state p = PoolHealthy" "n \<le> 4"
  shows "hp_consecutive_failures ((pool_record_failure ^^ n) p) = of_nat n \<and>
    hp_health_state ((pool_record_failure ^^ n) p) = PoolHealthy \<and>
    hp_max_connections ((pool_record_failure ^^ n) p) = hp_max_connections p"
  using assms(3)
proof (induction n)
  case (Suc n)
  moreover from Suc.prems have "(of_nat n :: u32) < 4" by (simp add: word_less_nat_alt unat_of_nat)
  ultimately show ?case
    using record_failure_healthy [of "(pool_record_failure ^^ n) p"] by (simp add: record_failure_count)
qed (use assms in simp)

lemma degrade_and_recover_halves:
  assumes "hp_consecutive_failures p = 0" "hp_health_state p = PoolHealthy"
  shows "hp_max_connections (degrade_and_recover now p) = max (hp_max_connections p) 1 div 2"
    "hp_health_state (degrade_and_recover now p) = PoolHealthy" "hp_consecutive_failures (degrade_and_recover now p) = 0"
proof -
  define q where "q = (pool_record_failure ^^ 4) p"
  have q: "hp_consecutive_failures q = 4" "hp_health_state q = PoolHealthy" "hp_max_connections q = hp_max_connections p"
    using failures_below [OF assms, of 4] by (simp_all add: q_def)
  have "(pool_record_failure ^^ 5) p = pool_record_failure q"
    using fun_cong [OF funpow.simps(2) [of 4 pool_record_failure], of p] by (simp add: q_def)
  moreover have "hp_health_state (pool_record_failure q) = Degraded"
    "hp_max_connections (pool_record_failure q) = max (hp_max_connections p) 1 div 2"
    using q by (simp_all add: pool_record_failure_def Let_def)
  ultimately show "hp_max_connections (degrade_and_recover now p) = max (hp_max_connections p) 1 div 2"
    "hp_health_state (degrade_and_recover now p) = PoolHealthy" "hp_consecutive_failures (degrade_and_recover now p) = 0"
    by (simp_all add: degrade_and_recover_def pool_record_success_def Let_def)
qed

lemma cycles:
  assumes "hp_consecutive_failures p = 0" "hp_health_state p = PoolHealthy"
  shows "hp_health_state ((degrade_and_recover now ^^ n) p) = PoolHealthy \<and>
    hp_consecutive_failures ((degrade_and_recover now ^^ n) p) = 0 \<and>
    hp_max_connections ((degrade_and_recover now ^^ n) p) = ((\<lambda>m. max m 1 div 2) ^^ n) (hp_max_connections p)"
  by (induction n) (simp_all add: assms degrade_and_recover_halves)

lemma pool_new_fields:
  "hp_consecutive_failures (pool_new b w start) = 0" "hp_health_state (pool_new b w start) = PoolHealthy"
  "hp_max_connections (pool_new b w start) = 8" "hp_connections (pool_new b w start) = []"
  by (simp_all add: pool_new_def)

lemma four_halvings: "((\<lambda>m. max m 1 div 2) ^^ 4) (8 :: nat) = 0"
  by code_simp

text \<open>
  The limit of a pool is halved each time its backend degrades and is never raised again: after the
  backend has failed five times in a row and recovered, four times over, the limit is 0 although
  the pool counts as healthy, and no connection is opened any more.
\<close>

theorem degraded_pool_loses_capacity:
  fixes s :: 's
  shows "let p = (degrade_and_recover now ^^ 4) (pool_new b w start)
   in hp_health_state p = PoolHealthy \<and> hp_max_connections p = 0 \<and>
      fst (get_connection now' ready (ConnOk s) p) = Inl NoCapacity"
proof -
  let ?new = "pool_new b w start :: 's Http2Pool"
  let ?p = "(degrade_and_recover now ^^ 4) ?new"
  have c: "hp_health_state ?p = PoolHealthy" "hp_max_connections ?p = 0"
    using cycles [of ?new 4 now] four_halvings by (simp_all add: pool_new_fields)
  have conns: "hp_connections ((pool_record_failure ^^ n) q) = hp_connections q" for n and q :: "'s Http2Pool"
    by (induction n) simp_all
  have "hp_connections ((degrade_and_recover now ^^ n) ?new) = []" for n
    by (induction n) (simp_all add: degrade_and_recover_def conns pool_new_fields)
  with c show ?thesis by (simp add: Let_def get_connection_active pool_inv_def rotation_def)
qed

section \<open>Rotation\<close>

lemma find_ready_all:
  "is \<noteq> [] \<Longrightarrow> (\<And>i. i \<in> set is \<Longrightarrow> hc_state (conns ! i) = Active \<and> ready (hc_sender (conns ! i))) \<Longrightarrow>
     find_ready ready conns is = Some (hd is)"
  by (cases "is") auto

lemma get_ready:
  assumes inv: "pool_inv p" and up: "hp_health_state p \<noteq> PoolUnhealthy" "hp_connections p \<noteq> []"
    and ready: "\<forall>c\<in>set (hp_connections p). ready (hc_sender c)" and nxt: "hp_next_conn_index p < length (hp_connections p)"
  shows "\<exists>p'. get_connection now ready res p = (Inr (hc_sender (hp_connections p ! hp_next_conn_index p)), p') \<and>
    map hc_sender (hp_connections p') = map hc_sender (hp_connections p) \<and> hp_health_state p' = hp_health_state p \<and>
    hp_next_conn_index p' = (hp_next_conn_index p + 1) mod length (hp_connections p) \<and> pool_inv p'"
proof -
  let ?n = "length (hp_connections p)"
  have "hd (rotation p) = hp_next_conn_index p" "rotation p \<noteq> []"
    using up(2) nxt by (simp_all add: rotation_def hd_map)
  then have "find_ready ready (hp_connections p) (rotation p) = Some (hp_next_conn_index p)"
    using find_ready_all [of "rotation p" "hp_connections p" ready] rotation_lt [of _ p] ready inv
    by (simp add: pool_inv_def list_all_iff)
  moreover have "map hc_sender ((hp_connections p)[i := (hp_connections p ! i)\<lparr>hc_last_used := now\<rparr>]) =
      map hc_sender (hp_connections p)" if "i < ?n" for i
    using that by (simp add: map_update nth_map list_update_same_conv)
  ultimately show ?thesis
    using up nxt get_connection_inv [OF inv, of now ready res]
    by (simp add: get_connection_active [OF inv] recovered_def Let_def)
qed

text \<open>
  While all connections of a healthy pool are ready, requests go through them in turn: any run of
  as many requests as there are connections uses each connection exactly once.
\<close>

theorem pool_round_robin:
  assumes "pool_inv p" "hp_health_state p \<noteq> PoolUnhealthy" "hp_next_conn_index p < length (hp_connections p)"
    and "\<forall>call\<in>set calls. \<forall>c\<in>set (hp_connections p). pc_ready call (hc_sender c)"
    and "length calls = length (hp_connections p)"
  shows "fst (run_gets calls p) = map Inr (rotate (hp_next_conn_index p) (map hc_sender (hp_connections p)))"
proof -
  let ?ss = "map hc_sender (hp_connections p)"
  have step: "fst (run_gets cs q) = map (\<lambda>i. Inr (?ss ! ((hp_next_conn_index q + i) mod length ?ss))) [0..<length cs]"
    if "pool_inv q" "hp_health_state q \<noteq> PoolUnhealthy" "map hc_sender (hp_connections q) = ?ss"
      "hp_next_conn_index q < length ?ss" "set cs \<subseteq> set calls" for cs q
    using that
  proof (induction cs arbitrary: q)
    case (Cons c cs)
    have "\<forall>y\<in>set ?ss. pc_ready c y" using Cons.prems(5) assms(4) by auto
    then have "\<forall>y\<in>set (map hc_sender (hp_connections q)). pc_ready c y" by (simp only: Cons.prems(3))
    then have "\<forall>x\<in>set (hp_connections q). pc_ready c (hc_sender x)" by simp
    moreover have len: "length (hp_connections q) = length ?ss" using Cons.prems(3) by (metis length_map)
    ultimately obtain q' where q': "get_connection (pc_now c) (pc_ready c) (pc_connect c) q =
        (Inr (hc_sender (hp_connections q ! hp_next_conn_index q)), q')"
      "map hc_sender (hp_connections q') = ?ss" "hp_health_state q' = hp_health_state q"
      "hp_next_conn_index q' = (hp_next_conn_index q + 1) mod length ?ss" "pool_inv q'"
      using get_ready [of q "pc_ready c" "pc_now c" "pc_connect c"] Cons.prems by fastforce
    have "hc_sender (hp_connections q ! hp_next_conn_index q) = ?ss ! hp_next_conn_index q"
      using Cons.prems(3,4) len by (metis nth_map)
    moreover have "hp_health_state q' \<noteq> PoolUnhealthy" "hp_next_conn_index q' < length ?ss" "set cs \<subseteq> set calls"
      using q'(3,4) Cons.prems by (auto intro: mod_less_divisor)
    from Cons.IH [OF q'(5) this(1) q'(2) this(2,3)] have "fst (run_gets cs q') =
        map (\<lambda>i. Inr (?ss ! ((hp_next_conn_index q + Suc i) mod length ?ss))) [0..<length cs]"
      by (simp add: q'(4) mod_add_left_eq del: length_map)
    ultimately show ?case
      using q'(1) Cons.prems(4) by (simp add: split_def Let_def upt_conv_Cons map_Suc_upt [symmetric] comp_def del: upt_Suc)
  qed simp
  show ?thesis
    using step [of p calls] assms
    by (intro nth_equalityI) (simp_all add: nth_rotate add.commute)
qed

theorem pool_round_robin_witness:
  "let p = snd (run_gets (map open_call [0..<2]) (pool_new (backend_new 1 80 1) 0 0));
       call = \<lparr>pc_now = 0, pc_ready = (\<lambda>_. True), pc_connect = ConnTimeout\<rparr>
   in fst (run_gets [call, call] p) = [Inr 0, Inr 1]"
proof -
  let ?p = "snd (run_gets (map open_call [0..<2]) (pool_new (backend_new 1 80 1) 0 0)) :: nat Http2Pool"
    and ?call = "\<lparr>pc_now = 0, pc_ready = (\<lambda>_. True), pc_connect = ConnTimeout\<rparr> :: nat pool_call"
  have inv: "pool_inv ?p" by (intro run_gets_inv pool_new_inv)
  have p: "map hc_sender (hp_connections ?p) = [0, 1]" "hp_next_conn_index ?p = 0" "hp_health_state ?p = PoolHealthy"
    using open_calls [of "[0..<2]"] by (simp_all add: Let_def numeral_2_eq_2)
  then have "length (hp_connections ?p) = 2" by (metis length_Cons length_map list.size(3) numeral_2_eq_2)
  with pool_round_robin [OF inv, of "[?call, ?call]"] p show ?thesis by (simp add: Let_def)
qed

end
