(* ===== verification/Http1_Pool.thy ===== *)
theory Http1_Pool
  imports Common_Types "HOL-Library.AList"
begin

text \<open>
  The pool of idle HTTP/1.1 connections (\<open>control/src/proxy/http1_pool.rs\<close>), generic in the sender:
  connections are put on the end of the list of their backend and taken from there, up to a limit
  and for a limited time. Every operation runs under the lock of the pool.
\<close>

record Http1PoolConfig =
  max_idle_per_backend :: nat
  idle_timeout :: duration

definition http1_config_default :: Http1PoolConfig where
  "http1_config_default = \<lparr>max_idle_per_backend = 16, idle_timeout = 60000000000\<rparr>"

record 's PooledConnection =
  pc_sender :: 's
  pc_created_at :: instant
  pc_last_used :: instant

record 's Http1Pool =
  h1_config :: Http1PoolConfig
  h1_pools :: "(socketaddr \<times> 's PooledConnection list) list"

record PoolStats =
  idle_connections :: nat
  max_idle :: nat

definition http1_with_config :: "Http1PoolConfig \<Rightarrow> 's Http1Pool" where
  "http1_with_config config = \<lparr>h1_config = config, h1_pools = []\<rparr>"

definition http1_new :: "'s Http1Pool" where
  "http1_new = http1_with_config http1_config_default"

definition try_get :: "instant \<Rightarrow> socketaddr \<Rightarrow> 's Http1Pool \<Rightarrow> 's option \<times> 's Http1Pool" where
  "try_get now b p =
     (case map_of (h1_pools p) b of
        None \<Rightarrow> (None, p)
      | Some pool \<Rightarrow>
          if pool = [] then (None, p)
          else
            let conn = last pool; p = p\<lparr>h1_pools := AList.update b (butlast pool) (h1_pools p)\<rparr>
            in if now - pc_last_used conn > idle_timeout (h1_config p) then (None, p)
               else (Some (pc_sender conn), p))"

definition put :: "instant \<Rightarrow> socketaddr \<Rightarrow> 's \<Rightarrow> 's Http1Pool \<Rightarrow> 's Http1Pool" where
  "put now b sender p =
     (let pool = (case map_of (h1_pools p) b of Some pool \<Rightarrow> pool | None \<Rightarrow> []);
          p = p\<lparr>h1_pools := AList.update b pool (h1_pools p)\<rparr>
      in if length pool \<ge> max_idle_per_backend (h1_config p) then p
         else p\<lparr>h1_pools := AList.update b
                  (pool @ [\<lparr>pc_sender = sender, pc_created_at = now, pc_last_used = now\<rparr>]) (h1_pools p)\<rparr>)"

definition http1_stats :: "socketaddr \<Rightarrow> 's Http1Pool \<Rightarrow> PoolStats" where
  "http1_stats b p =
     \<lparr>idle_connections = (case map_of (h1_pools p) b of Some pool \<Rightarrow> length pool | None \<Rightarrow> 0),
      max_idle = max_idle_per_backend (h1_config p)\<rparr>"

definition total_idle :: "'s Http1Pool \<Rightarrow> nat" where
  "total_idle p = sum_list (map (\<lambda>(_, pool). length pool) (h1_pools p))"

section \<open>Limits and round trips\<close>

definition idle_of :: "socketaddr \<Rightarrow> 's Http1Pool \<Rightarrow> 's PooledConnection list" where
  "idle_of b p = (case map_of (h1_pools p) b of Some pool \<Rightarrow> pool | None \<Rightarrow> [])"

definition http1_inv :: "'s Http1Pool \<Rightarrow> bool" where
  "http1_inv p \<longleftrightarrow>
     distinct (map fst (h1_pools p)) \<and>
     (\<forall>b. length (idle_of b p) \<le> max_idle_per_backend (h1_config p) \<and> sorted (map pc_last_used (idle_of b p)))"

lemma idle_of_put:
  "idle_of b' (put now b s p) =
     (if b' = b \<and> length (idle_of b p) < max_idle_per_backend (h1_config p)
      then idle_of b p @ [\<lparr>pc_sender = s, pc_created_at = now, pc_last_used = now\<rparr>] else idle_of b' p)"
  by (auto simp: put_def idle_of_def Let_def update_conv' split: option.splits)

lemma put_config [simp]: "h1_config (put now b s p) = h1_config p"
  by (simp add: put_def Let_def)

lemma try_get_state:
  "idle_of b' (snd (try_get now b p)) = (if b' = b then butlast (idle_of b p) else idle_of b' p)"
  "h1_config (snd (try_get now b p)) = h1_config p"
  by (auto simp: try_get_def idle_of_def Let_def update_conv' split: option.splits)

lemma sorted_butlast: "sorted xs \<Longrightarrow> sorted (butlast xs)"
  by (cases xs rule: rev_cases) (simp_all add: sorted_append)

text \<open>Operations that read the clock after all earlier ones keep the limit and the order of the last uses.\<close>

lemma put_inv [inv_intros]:
  assumes "http1_inv p" "\<forall>b. \<forall>c\<in>set (idle_of b p). pc_last_used c \<le> now"
  shows "http1_inv (put now b s p)"
proof -
  have "distinct (map fst (h1_pools (put now b s p)))"
    using assms(1) by (simp add: http1_inv_def put_def Let_def distinct_update)
  then show ?thesis
    using assms by (auto simp: http1_inv_def idle_of_put sorted_append)
qed

lemma try_get_inv [inv_intros]: "http1_inv p \<Longrightarrow> http1_inv (snd (try_get now b p))"
proof -
  assume inv: "http1_inv p"
  then have "distinct (map fst (h1_pools (snd (try_get now b p))))"
    by (auto simp: http1_inv_def try_get_def Let_def distinct_update split: option.split)
  then show ?thesis
    using inv by (auto simp: http1_inv_def try_get_state map_butlast intro: sorted_butlast le_trans [OF diff_le_self])
qed

text \<open>A connection put back below the limit is the next one taken, until it expires.\<close>

lemma put_try_get:
  assumes "length (idle_of b p) < max_idle_per_backend (h1_config p)"
  shows "fst (try_get now' b (put now b s p)) = (if now' - now > idle_timeout (h1_config p) then None else Some s)"
    and "idle_of b' (snd (try_get now' b (put now b s p))) = idle_of b' p"
proof -
  have "map_of (h1_pools (put now b s p)) b = Some (idle_of b p @ [\<lparr>pc_sender = s, pc_created_at = now, pc_last_used = now\<rparr>])"
    using assms by (simp add: put_def idle_of_def Let_def update_conv')
  then show "fst (try_get now' b (put now b s p)) = (if now' - now > idle_timeout (h1_config p) then None else Some s)"
    by (simp add: try_get_def Let_def)
  show "idle_of b' (snd (try_get now' b (put now b s p))) = idle_of b' p"
    using assms by (simp add: try_get_state idle_of_put)
qed

text \<open>A full pool keeps its old connections and drops the fresh one.\<close>

lemma put_full: "length (idle_of b p) \<ge> max_idle_per_backend (h1_config p) \<Longrightarrow> idle_of b' (put now b s p) = idle_of b' p"
  by (simp add: idle_of_put)

end
