(* ===== verification/Http_Types.thy ===== *)
theory Http_Types
  imports Filters Rust_Text
begin

text \<open>
  Requests, responses and errors of the proxy. The \<open>http\<close> and \<open>hyper\<close> crates are parameters: a record of
  the operations on header maps and the parsers the proxy calls. What is documented of header maps
  is a predicate over this record: the values of a name after an insertion, an addition and a
  removal. A list of pairs satisfies it. With it the header modifiers of a route are shown to change
  the values of each name as the filter configuration says.
\<close>

section \<open>Errors of the proxy\<close>

datatype RautaError = RouteConfig string | Kubernetes string | Io string

datatype ProxyError =
    ErrTimeout string
  | ErrBackend string
  | ErrBodyTooLarge nat nat
  | ErrFilter string

fun pe_status_code :: "ProxyError \<Rightarrow> u16" where
  "pe_status_code (ErrTimeout _) = 504"
| "pe_status_code (ErrBackend _) = 502"
| "pe_status_code (ErrBodyTooLarge _ _) = 413"
| "pe_status_code (ErrFilter _) = 500"

fun is_timeout :: "ProxyError \<Rightarrow> bool" where
  "is_timeout (ErrTimeout _) = True"
| "is_timeout _ = False"

fun pe_status_str :: "ProxyError \<Rightarrow> string" where
  "pe_status_str (ErrTimeout _) = ''504''"
| "pe_status_str (ErrBackend _) = ''502''"
| "pe_status_str (ErrBodyTooLarge _ _) = ''413''"
| "pe_status_str (ErrFilter _) = ''500''"

fun show_proxyerror :: "ProxyError \<Rightarrow> string" where
  "show_proxyerror (ErrTimeout m) = m"
| "show_proxyerror (ErrBackend m) = m"
| "show_proxyerror (ErrBodyTooLarge sz mx) =
     ''Request body too large: '' @ show_nat sz @ '' bytes (max '' @ show_nat mx @ '')''"
| "show_proxyerror (ErrFilter m) = m"

definition pe_from_string :: "string \<Rightarrow> ProxyError" where
  "pe_from_string s = ErrBackend s"

fun show_rautaerror :: "RautaError \<Rightarrow> string" where
  "show_rautaerror (RouteConfig m) = ''Route configuration error: '' @ m"
| "show_rautaerror (Kubernetes m) = ''Kubernetes error: '' @ m"
| "show_rautaerror (Io m) = ''IO error: '' @ m"

section \<open>Header maps\<close>

text \<open>
  The parsers answer the canonical form or the text of an error; \<open>ht_to_str\<close> is
  \<open>HeaderValue::to_str\<close>, \<open>ht_uri\<close> and \<open>ht_method\<close> give the error of an invalid URI or method;
  \<open>ht_pairs\<close> lists all names with all values in iteration order.
\<close>

record 'h http =
  ht_name :: "string \<Rightarrow> string + string"
  ht_value :: "string \<Rightarrow> string + string"
  ht_to_str :: "string \<Rightarrow> string option"
  ht_uri :: "string \<Rightarrow> string option"
  ht_method :: "string \<Rightarrow> string option"
  ht_empty :: 'h
  ht_insert :: "string \<Rightarrow> string \<Rightarrow> 'h \<Rightarrow> 'h"
  ht_append :: "string \<Rightarrow> string \<Rightarrow> 'h \<Rightarrow> 'h"
  ht_remove :: "string \<Rightarrow> 'h \<Rightarrow> 'h"
  ht_pairs :: "'h \<Rightarrow> (string \<times> string) list"

definition header_values :: "'h http \<Rightarrow> string \<Rightarrow> 'h \<Rightarrow> string list" where
  "header_values H n h = map snd (filter (\<lambda>(n', _). n' = n) (ht_pairs H h))"

definition header_get :: "'h http \<Rightarrow> string \<Rightarrow> 'h \<Rightarrow> string option" where
  "header_get H n h = (case header_values H n h of [] \<Rightarrow> None | v # _ \<Rightarrow> Some v)"

definition headers_documented :: "'h http \<Rightarrow> bool" where
  "headers_documented H \<longleftrightarrow>
     ht_pairs H (ht_empty H) = [] \<and>
     (\<forall>n v h m. header_values H m (ht_insert H n v h) = (if m = n then [v] else header_values H m h)) \<and>
     (\<forall>n v h m. header_values H m (ht_append H n v h) =
        (if m = n then header_values H m h @ [v] else header_values H m h)) \<and>
     (\<forall>n h m. header_values H m (ht_remove H n h) = (if m = n then [] else header_values H m h))"

lemma headers_documentedD:
  assumes "headers_documented H"
  shows "header_values H m (ht_insert H n v h) = (if m = n then [v] else header_values H m h)"
    "header_values H m (ht_append H n v h) = (if m = n then header_values H m h @ [v] else header_values H m h)"
    "header_values H m (ht_remove H n h) = (if m = n then [] else header_values H m h)"
    "header_values H m (ht_empty H) = []"
  using assms by (simp_all add: headers_documented_def header_values_def [of H m "ht_empty H"])

record 'h Request =
  rq_method :: string
  rq_scheme :: "string option"
  rq_uri_host :: "string option"
  rq_uri_port :: "u16 option"
  rq_path :: string
  rq_path_and_query :: "string option"
  rq_headers :: 'h

record 'h Response =
  rp_status :: u16
  rp_headers :: 'h
  rp_body :: string

text \<open>\<open>Response::builder()\<close>: every header is parsed and appended; the first invalid one is the error of \<open>body\<close>.\<close>

fun build_headers :: "'h http \<Rightarrow> (string \<times> string) list \<Rightarrow> 'h \<Rightarrow> string + 'h" where
  "build_headers H [] h = Inr h"
| "build_headers H ((n, v) # nvs) h =
     (case ht_name H n of
        Inl e \<Rightarrow> Inl e
      | Inr n' \<Rightarrow> (case ht_value H v of Inl e \<Rightarrow> Inl e | Inr v' \<Rightarrow> build_headers H nvs (ht_append H n' v' h)))"

definition build_response :: "'h http \<Rightarrow> u16 \<Rightarrow> (string \<times> string) list \<Rightarrow> string \<Rightarrow> string + 'h Response" where
  "build_response H status hs body =
     (case build_headers H hs (ht_empty H) of
        Inl e \<Rightarrow> Inl e
      | Inr h \<Rightarrow> Inr \<lparr>rp_status = status, rp_headers = h, rp_body = body\<rparr>)"

fun unwrap :: "string + 'a \<Rightarrow> 'a outcome" where
  "unwrap (Inr x) = Done x"
| "unwrap (Inl e) = Panic e"

section \<open>Header modifiers\<close>

text \<open>
  \<open>apply_header_filters\<close> changes the header map in place, so the modifications before an invalid one
  remain; the result carries the map as it is left.
\<close>

fun apply_header_filters :: "'h http \<Rightarrow> HeaderModifierOp list \<Rightarrow> 'h \<Rightarrow> (string + unit) \<times> 'h" where
  "apply_header_filters H [] h = (Inr (), h)"
| "apply_header_filters H (SetHeader name v # ops) h =
     (case ht_name H name of
        Inl e \<Rightarrow> (Inl (''Invalid header name '' @ [CHR 0x27] @ name @ [CHR 0x27] @ '': '' @ e), h)
      | Inr n \<Rightarrow>
          (case ht_value H v of
             Inl e \<Rightarrow> (Inl (''Invalid header value '' @ [CHR 0x27] @ v @ [CHR 0x27] @ '': '' @ e), h)
           | Inr v' \<Rightarrow> apply_header_filters H ops (ht_insert H n v' h)))"
| "apply_header_filters H (AddHeader name v # ops) h =
     (case ht_name H name of
        Inl e \<Rightarrow> (Inl (''Invalid header name '' @ [CHR 0x27] @ name @ [CHR 0x27] @ '': '' @ e), h)
      | Inr n \<Rightarrow>
          (case ht_value H v of
             Inl e \<Rightarrow> (Inl (''Invalid header value '' @ [CHR 0x27] @ v @ [CHR 0x27] @ '': '' @ e), h)
           | Inr v' \<Rightarrow> apply_header_filters H ops (ht_append H n v' h)))"
| "apply_header_filters H (RemoveHeader name # ops) h =
     (case ht_name H name of
        Inl e \<Rightarrow> (Inl (''Invalid header name '' @ [CHR 0x27] @ name @ [CHR 0x27] @ '': '' @ e), h)
      | Inr n \<Rightarrow> apply_header_filters H ops (ht_remove H n h))"

definition apply_request_filters :: "'h http \<Rightarrow> RequestHeaderModifier \<Rightarrow> 'h Request \<Rightarrow> (string + unit) \<times> 'h Request" where
  "apply_request_filters H filters req =
     (let (r, h) = apply_header_filters H (operations filters) (rq_headers req) in (r, req\<lparr>rq_headers := h\<rparr>))"

definition apply_response_filters :: "'h http \<Rightarrow> ResponseHeaderModifier \<Rightarrow> 'h Response \<Rightarrow>
    (string + unit) \<times> 'h Response" where
  "apply_response_filters H filters resp =
     (let (r, h) = apply_header_filters H (operations filters) (rp_headers resp) in (r, resp\<lparr>rp_headers := h\<rparr>))"

text \<open>The reference: what the modifications do to the values of one name.\<close>

fun modified_values :: "'h http \<Rightarrow> string \<Rightarrow> HeaderModifierOp list \<Rightarrow> string list \<Rightarrow> string list" where
  "modified_values H m [] vs = vs"
| "modified_values H m (SetHeader name v # ops) vs =
     modified_values H m ops (if ht_name H name = Inr m then [projr (ht_value H v)] else vs)"
| "modified_values H m (AddHeader name v # ops) vs =
     modified_values H m ops (if ht_name H name = Inr m then vs @ [projr (ht_value H v)] else vs)"
| "modified_values H m (RemoveHeader name # ops) vs =
     modified_values H m ops (if ht_name H name = Inr m then [] else vs)"

fun valid_op :: "'h http \<Rightarrow> HeaderModifierOp \<Rightarrow> bool" where
  "valid_op H (SetHeader n v) \<longleftrightarrow> \<not> isl (ht_name H n) \<and> \<not> isl (ht_value H v)"
| "valid_op H (AddHeader n v) \<longleftrightarrow> \<not> isl (ht_name H n) \<and> \<not> isl (ht_value H v)"
| "valid_op H (RemoveHeader n) \<longleftrightarrow> \<not> isl (ht_name H n)"

text \<open>
  C16: The header modifiers of a route do what their configuration says: when every operation has a valid
  name and value, the modification succeeds, and the values of each header name afterwards are
  those the set, add and remove operations for this name leave in their order; names that no
  operation mentions keep their values. With an invalid operation the result is an error.
\<close>

theorem header_filters_spec:
  assumes "headers_documented H"
  shows "(if list_all (valid_op H) ops
     then fst (apply_header_filters H ops h) = Inr () \<and>
       header_values H m (snd (apply_header_filters H ops h)) = modified_values H m ops (header_values H m h)
     else \<exists>e. fst (apply_header_filters H ops h) = Inl e)"
proof (induction ops arbitrary: h)
  case (Cons op ops)
  then show ?case
    by (cases op) (auto simp: headers_documentedD [OF assms] split: sum.splits)
qed simp

section \<open>Header maps as lists\<close>

definition list_http :: "(string \<times> string) list http" where
  "list_http =
     \<lparr>ht_name = (\<lambda>s. if s = [] \<or> CHR '' '' \<in> set s then Inl ''invalid HTTP header name'' else Inr (to_lower s)),
      ht_value = (\<lambda>s. if {CHR 0x0A, CHR 0x0D} \<inter> set s = {} then Inr s else Inl ''failed to parse header value''),
      ht_to_str = (\<lambda>s. if {CHR 0x0A, CHR 0x0D} \<inter> set s = {} then Some s else None), ht_uri = (\<lambda>_. None), ht_method = (\<lambda>_. None), ht_empty = [],
      ht_insert = (\<lambda>n v h. filter (\<lambda>(n', _). n' \<noteq> n) h @ [(n, v)]),
      ht_append = (\<lambda>n v h. h @ [(n, v)]),
      ht_remove = (\<lambda>n h. filter (\<lambda>(n', _). n' \<noteq> n) h), ht_pairs = id\<rparr>"

lemma list_http_documented: "headers_documented list_http"
proof -
  have "filter (\<lambda>(n', _). n' = m) (filter (\<lambda>(n', _). n' \<noteq> n) h) =
      (if m = n then [] else filter (\<lambda>(n', _). n' = m) h)" for m n and h :: "(string \<times> string) list"
    by (induction h) auto
  then show ?thesis by (simp add: headers_documented_def header_values_def list_http_def)
qed

theorem header_filters_spec_witness:
  "fst (apply_header_filters list_http [SetHeader ''X-Env'' ''prod'', RemoveHeader ''Cookie''] [(''cookie'', ''a'')]) = Inr () \<and>
   header_values list_http ''cookie''
     (snd (apply_header_filters list_http [SetHeader ''X-Env'' ''prod'', RemoveHeader ''Cookie''] [(''cookie'', ''a'')])) = []"
proof -
  let ?ops = "[SetHeader ''X-Env'' ''prod'', RemoveHeader ''Cookie'']"
  have "list_all (valid_op list_http) ?ops"
    and "ht_name list_http ''Cookie'' = Inr ''cookie''"
    by (simp_all add: list_http_def) code_simp
  then show ?thesis
    using header_filters_spec [OF list_http_documented, of ?ops "[(''cookie'', ''a'')]" "''cookie''"] by simp
qed

end
