(* ===== verification/Forwarder.thy ===== *)
theory Forwarder
  imports Http_Types Backend_Pool Route_Match
begin

text \<open>
  Forwarding a request to its backend (\<open>control/src/proxy/forwarder.rs\<close>): reading the body, building
  the backend request, the choice of the protocol by the cache, the connection pools of the workers,
  the fallback to HTTP/1.1, the two timeouts and the hop-by-hop headers. What the network does is
  an environment argument: the outcome of reading the body, of connection attempts, of sending on a
  connection, and of the HTTP/1.1 client; and the await point at which a timer fires, if one does.
  A client that stops sending its body and a backend that never answers are outcomes too: the request
  then waits for its next timer, or for ever when none is running. An attempt to connect always ends,
  since it has a limit of five seconds of its own.
\<close>

definition is_hop_by_hop_header :: "string \<Rightarrow> bool" where
  "is_hop_by_hop_header name \<longleftrightarrow>
     eq_ignore_ascii_case name ''connection'' \<or> eq_ignore_ascii_case name ''keep-alive'' \<or>
     eq_ignore_ascii_case name ''proxy-authenticate'' \<or> eq_ignore_ascii_case name ''proxy-authorization'' \<or>
     eq_ignore_ascii_case name ''te'' \<or> eq_ignore_ascii_case name ''trailer'' \<or>
     eq_ignore_ascii_case name ''transfer-encoding'' \<or> eq_ignore_ascii_case name ''upgrade''"

definition ipv4_to_string :: "u32 \<Rightarrow> string" where
  "ipv4_to_string a =
     show_nat (unat (drop_bit 24 a AND 0xFF)) @ ''.'' @ show_nat (unat (drop_bit 16 a AND 0xFF)) @ ''.'' @
     show_nat (unat (drop_bit 8 a AND 0xFF)) @ ''.'' @ show_nat (unat (a AND 0xFF))"

section \<open>The environment\<close>

record 'h BackendRequest =
  br_method :: string
  br_uri :: string
  br_headers :: 'h
  br_body :: string

text \<open>What reading the request's body under the limit ends with; \<open>BodyPending\<close>: it does not end.\<close>

datatype body_read = BodyRead string | BodyLimit | BodyReadError string | BodyPending

text \<open>The points where the forwarding waits, and the two timers.\<close>

datatype await_point = AwaitBody | AwaitPrewarm nat | AwaitConnect | AwaitSend | AwaitFallback | AwaitClient
datatype timer = BackendTimer | OverallTimer

text \<open>
  The answers of the network, none where it never answers; the point where a timer fires although the
  network would have answered; and which of two timers that run is over first.
\<close>

record ('h, 's) fwd_env =
  fe_now :: instant
  fe_body :: body_read
  fe_ready :: "'s \<Rightarrow> bool"
  fe_prewarm :: "nat \<Rightarrow> 's connect"
  fe_connect :: "'s connect"
  fe_send :: "'s \<Rightarrow> 'h BackendRequest \<Rightarrow> (string + 'h Response) option"
  fe_client :: "'h BackendRequest \<Rightarrow> (string + 'h Response) option"
  fe_elapsed :: "(timer \<times> await_point) option"
  fe_first :: timer

record 's fwd_state =
  fs_pools :: "'s BackendConnectionPools"
  fs_workers :: "'s BackendConnectionPools list option"
  fs_protocol_cache :: "(string \<times> bool) list"

text \<open>
  A step of the forwarding: it has an answer, or the named timer has fired, or it waits for ever.
  Which timers run is given by \<open>running\<close>.
\<close>

datatype 'a async = Ready 'a | Elapsed timer | Stalled

definition fires :: "timer set \<Rightarrow> await_point \<Rightarrow> ('h, 's) fwd_env \<Rightarrow> timer option" where
  "fires running pt env =
     (case fe_elapsed env of
        Some (t, pt') \<Rightarrow> if pt' = pt \<and> t \<in> running then Some t else None
      | None \<Rightarrow> None)"

fun other_timer :: "timer \<Rightarrow> timer" where
  "other_timer BackendTimer = OverallTimer"
| "other_timer OverallTimer = BackendTimer"

text \<open>Waiting at a point for an answer of the network.\<close>

definition await :: "timer set \<Rightarrow> await_point \<Rightarrow> ('h, 's) fwd_env \<Rightarrow> 'a option \<Rightarrow> 'a async" where
  "await running pt env answer =
     (case fires running pt env of
        Some t \<Rightarrow> Elapsed t
      | None \<Rightarrow>
          (case answer of
             Some x \<Rightarrow> Ready x
           | None \<Rightarrow>
               if fe_first env \<in> running then Elapsed (fe_first env)
               else if other_timer (fe_first env) \<in> running then Elapsed (other_timer (fe_first env))
               else Stalled))"

fun show_poolerror :: "PoolError \<Rightarrow> string" where
  "show_poolerror CircuitBreakerOpen = ''Circuit breaker is open''"
| "show_poolerror (ConnectionFailed e) = ''Connection failed: '' @ e"
| "show_poolerror (HandshakeFailed e) = ''HTTP/2 handshake failed: '' @ e"
| "show_poolerror NoCapacity = ''No connections have capacity''"
| "show_poolerror QueueTimeout = ''Queue timeout''"

section \<open>The backend request\<close>

definition MAX_BODY_SIZE :: nat where "MAX_BODY_SIZE = 10 * 1024 * 1024"

definition bodiless :: "string \<Rightarrow> bool" where
  "bodiless m \<longleftrightarrow> m \<in> {''GET'', ''HEAD'', ''DELETE''}"

definition collected :: "body_read \<Rightarrow> (ProxyError + string) option" where
  "collected b =
     (case b of
        BodyRead bytes \<Rightarrow> Some (Inr bytes)
      | BodyLimit \<Rightarrow> Some (Inl (ErrBodyTooLarge 0 MAX_BODY_SIZE))
      | BodyReadError e \<Rightarrow> Some (Inl (ErrBackend (''Failed to read request body: '' @ e)))
      | BodyPending \<Rightarrow> None)"

definition read_body :: "timer set \<Rightarrow> ('h, 's) fwd_env \<Rightarrow> string \<Rightarrow> (ProxyError + string) async" where
  "read_body running env method =
     (if bodiless method then Ready (Inr []) else await running AwaitBody env (collected (fe_body env)))"

definition backend_uri :: "backend \<Rightarrow> 'h Request \<Rightarrow> string" where
  "backend_uri b req =
     ''http://'' @ show_backend b @ (case rq_path_and_query req of Some pq \<Rightarrow> pq | None \<Rightarrow> ''/'')"

definition forwarded_headers :: "'h http \<Rightarrow> 'h \<Rightarrow> (string \<times> string) list" where
  "forwarded_headers H h =
     filter (\<lambda>(n, _). n \<noteq> ''host'' \<and> \<not> is_hop_by_hop_header n) (ht_pairs H h)"

text \<open>
  \<open>Request::builder()\<close> with a parsed method, a URI and headers that are values already, but for the host;
  \<open>body\<close> reports the first error.
\<close>

definition build_request :: "'h http \<Rightarrow> string \<Rightarrow> string \<Rightarrow> (string \<times> string) list \<Rightarrow> string \<Rightarrow> string \<Rightarrow>
    string + 'h BackendRequest" where
  "build_request H method uri hs host body =
     (case ht_uri H uri of
        Some e \<Rightarrow> Inl e
      | None \<Rightarrow>
          (case build_headers H [(''Host'', host)] (fold (\<lambda>(n, v). ht_append H n v) hs (ht_empty H)) of
             Inl e \<Rightarrow> Inl e
           | Inr h \<Rightarrow> Inr \<lparr>br_method = method, br_uri = uri, br_headers = h, br_body = body\<rparr>))"

section \<open>Sending\<close>

text \<open>
  The connection for HTTP/2: from the pool of the worker, or from the shared pools when there are no
  workers. Indexing outside of the workers panics. A timer can fire while a connection is opened:
  attempt \<open>k\<close> of the pre-warming, or the one of \<open>get_connection\<close>; the pools are then left as they are at
  that point.
\<close>

definition worker_error :: "PoolError \<Rightarrow> string" where
  "worker_error e =
     (if e = CircuitBreakerOpen then ''Circuit breaker open''
      else ''Failed to get HTTP/2 connection from worker: '' @ show_poolerror e)"

definition pool_error :: "PoolError \<Rightarrow> string" where
  "pool_error e =
     (if e = CircuitBreakerOpen then ''Circuit breaker open''
      else ''Failed to get HTTP/2 connection: '' @ show_poolerror e)"

definition map_error :: "('e \<Rightarrow> string) \<Rightarrow> 'e + 'a \<Rightarrow> string + 'a" where
  "map_error f r = (case r of Inl e \<Rightarrow> Inl (f e) | Inr x \<Rightarrow> Inr x)"

text \<open>\<open>get_connection\<close> on the pool of a backend, under the running timers.\<close>

definition pool_connection :: "timer set \<Rightarrow> ('h, 's) fwd_env \<Rightarrow> backend \<Rightarrow> 's BackendConnectionPools \<Rightarrow>
    (PoolError + 's) async \<times> 's BackendConnectionPools" where
  "pool_connection running env b ps =
     (let (p, ps) = get_or_create_pool (fe_now env) b ps;
          (answer, p') = get_connection_start (fe_now env) (fe_ready env) p
      in case (answer, fires running AwaitConnect env) of
           (None, Some t) \<Rightarrow> (Elapsed t, ps\<lparr>bp_pools := AList.update (backendkey_from b) p' (bp_pools ps)\<rparr>)
         | _ \<Rightarrow>
             (let (r, p') = get_connection (fe_now env) (fe_ready env) (fe_connect env) p
              in (Ready r, ps\<lparr>bp_pools := AList.update (backendkey_from b) p' (bp_pools ps)\<rparr>)))"

text \<open>The pre-warming cut off at an attempt, when the pool of the backend exists and is empty.\<close>

definition prewarm_elapsed :: "timer set \<Rightarrow> ('h, 's) fwd_env \<Rightarrow> backend \<Rightarrow> 's BackendConnectionPools \<Rightarrow>
    (timer \<times> 's BackendConnectionPools) option" where
  "prewarm_elapsed running env b ps =
     (case (map_of (bp_pools ps) (backendkey_from b), fe_elapsed env) of
        (Some p, Some (t, AwaitPrewarm k)) \<Rightarrow>
          if t \<in> running \<and> hp_connections p = [] \<and> k < hp_max_connections p \<and>
             list_all (\<lambda>i. case fe_prewarm env i of ConnOk _ \<Rightarrow> True | _ \<Rightarrow> False) [0..<k]
          then Some (t, ps\<lparr>bp_pools := AList.update (backendkey_from b)
                 (prewarm_loop (fe_now env) (fe_prewarm env) [0..<k] p) (bp_pools ps)\<rparr>)
          else None
      | _ \<Rightarrow> None)"

definition get_sender :: "timer set \<Rightarrow> ('h, 's) fwd_env \<Rightarrow> backend \<Rightarrow> nat option \<Rightarrow> 's fwd_state \<Rightarrow>
    ((string + 's) async \<times> 's fwd_state) outcome" where
  "get_sender running env b worker_index st =
     (case (fs_workers st, worker_index) of
        (Some ws, Some idx) \<Rightarrow>
          if idx \<ge> length ws then Panic ''index out of bounds''
          else (case prewarm_elapsed running env b (ws ! idx) of
              Some (t, ps) \<Rightarrow> Done (Elapsed t, st\<lparr>fs_workers := Some (ws[idx := ps])\<rparr>)
            | None \<Rightarrow>
                (case pool_connection running env b (prewarm_pool (fe_now env) (fe_prewarm env) b (ws ! idx)) of
                   (Elapsed t, ps) \<Rightarrow> Done (Elapsed t, st\<lparr>fs_workers := Some (ws[idx := ps])\<rparr>)
                 | (Stalled, ps) \<Rightarrow> Done (Stalled, st\<lparr>fs_workers := Some (ws[idx := ps])\<rparr>)
                 | (Ready r, ps) \<Rightarrow>
                     Done (Ready (map_error worker_error r), st\<lparr>fs_workers := Some (ws[idx := ps])\<rparr>)))
      | _ \<Rightarrow>
          (case pool_connection running env b (fs_pools st) of
             (Elapsed t, ps) \<Rightarrow> Done (Elapsed t, st\<lparr>fs_pools := ps\<rparr>)
           | (Stalled, ps) \<Rightarrow> Done (Stalled, st\<lparr>fs_pools := ps\<rparr>)
           | (Ready r, ps) \<Rightarrow> Done (Ready (map_error pool_error r), st\<lparr>fs_pools := ps\<rparr>)))"

text \<open>The HTTP/1.1 client, with the text its errors are reported with.\<close>

definition client_request :: "timer set \<Rightarrow> await_point \<Rightarrow> ('h, 's) fwd_env \<Rightarrow> 'h BackendRequest \<Rightarrow>
    (string + 'h Response) async" where
  "client_request running pt env req =
     (case await running pt env (fe_client env req) of
        Ready (Inl e) \<Rightarrow> Ready (Inl (''Backend connection failed: '' @ e))
      | r \<Rightarrow> r)"

text \<open>
  The fallback after a failed HTTP/2 request to a backend of unknown protocol: the backend is
  remembered as HTTP/1.1, and the request is sent again with its method, the host and the body.
\<close>

definition http1_fallback :: "'h http \<Rightarrow> timer set \<Rightarrow> ('h, 's) fwd_env \<Rightarrow> backend \<Rightarrow> string \<Rightarrow> string \<Rightarrow> string \<Rightarrow>
    's fwd_state \<Rightarrow> (string + 'h Response) async \<times> 's fwd_state" where
  "http1_fallback H running env b method uri fallback_body st =
     (let st = st\<lparr>fs_protocol_cache := AList.update (show_backend b) False (fs_protocol_cache st)\<rparr>
      in case ht_method H method of
           Some e \<Rightarrow> (Ready (Inl (''Invalid method: '' @ e)), st)
         | None \<Rightarrow>
             (case build_request H method uri [] (show_backend b) fallback_body of
                Inl e \<Rightarrow> (Ready (Inl (''Failed to build fallback request: '' @ e)), st)
              | Inr req \<Rightarrow> (client_request running AwaitFallback env req, st)))"

text \<open>The future that runs under the backend timeout.\<close>

definition send_to_backend :: "'h http \<Rightarrow> timer set \<Rightarrow> ('h, 's) fwd_env \<Rightarrow> backend \<Rightarrow> nat option \<Rightarrow>
    'h BackendRequest \<Rightarrow> bool \<Rightarrow> string option \<Rightarrow> 's fwd_state \<Rightarrow>
    ((string + 'h Response) async \<times> 's fwd_state) outcome" where
  "send_to_backend H running env b worker_index req use_http2 body_for_fallback st =
     (if use_http2 then
        (case get_sender running env b worker_index st of
           Panic m \<Rightarrow> Panic m
         | Diverges \<Rightarrow> Diverges
         | Done (Elapsed t, st) \<Rightarrow> Done (Elapsed t, st)
         | Done (Stalled, st) \<Rightarrow> Done (Stalled, st)
         | Done (Ready (Inl e), st) \<Rightarrow> Done (Ready (Inl e), st)
         | Done (Ready (Inr sender), st) \<Rightarrow>
             (case await running AwaitSend env (fe_send env sender req) of
                Ready (Inl e) \<Rightarrow>
                  (case body_for_fallback of
                     Some body \<Rightarrow> Done (http1_fallback H running env b (br_method req) (br_uri req) body st)
                   | None \<Rightarrow> Done (Ready (Inl (''HTTP/2 backend connection failed: '' @ e)), st))
              | r \<Rightarrow> Done (r, st)))
      else Done (client_request running AwaitClient env req, st))"

section \<open>\<open>forward_to_backend\<close>\<close>

definition strip_hop_by_hop :: "'h http \<Rightarrow> 'h \<Rightarrow> 'h" where
  "strip_hop_by_hop H h =
     fold (ht_remove H) (filter is_hop_by_hop_header (remdups (map fst (ht_pairs H h)))) h"

text \<open>What becomes of the result of the backend future: a fired backend timer, an error text, a response.\<close>

definition forward_result :: "'h http \<Rightarrow> duration option \<Rightarrow> ((string + 'h Response) async \<times> 's fwd_state) outcome \<Rightarrow>
    ((ProxyError + 'h Response) async \<times> 's fwd_state) outcome" where
  "forward_result H backend_timeout res =
     map_outcome (\<lambda>(r, st).
       (case r of
          Stalled \<Rightarrow> Stalled
        | Elapsed OverallTimer \<Rightarrow> Elapsed OverallTimer
        | Elapsed BackendTimer \<Rightarrow>
            Ready (Inl (ErrTimeout (''Backend request exceeded '' @
              show_nat (as_millis (the backend_timeout)) @ ''ms timeout'')))
        | Ready (Inl e) \<Rightarrow> Ready (Inl (pe_from_string e))
        | Ready (Inr resp) \<Rightarrow> Ready (Inr (resp\<lparr>rp_headers := strip_hop_by_hop H (rp_headers resp)\<rparr>)), st)) res"

definition forward_to_backend :: "'h http \<Rightarrow> bool \<Rightarrow> ('h, 's) fwd_env \<Rightarrow> 'h Request \<Rightarrow> backend \<Rightarrow> nat option \<Rightarrow>
    Timeout option \<Rightarrow> 's fwd_state \<Rightarrow> ((ProxyError + 'h Response) async \<times> 's fwd_state) outcome" where
  "forward_to_backend H overall env req b worker_index timeout_config st =
     (let outer = (if overall then {OverallTimer} else {}) in
      case read_body outer env (rq_method req) of
        Elapsed t \<Rightarrow> Done (Elapsed t, st)
      | Stalled \<Rightarrow> Done (Stalled, st)
      | Ready (Inl e) \<Rightarrow> Done (Ready (Inl e), st)
      | Ready (Inr body_bytes) \<Rightarrow>
          let uri = backend_uri b req;
              protocol_cached = map_of (fs_protocol_cache st) (show_backend b);
              backend_timeout = Option.bind timeout_config to_backend_request;
              running = outer \<union> (if backend_timeout = None then {} else {BackendTimer})
          in case build_request H (rq_method req) uri (forwarded_headers H (rq_headers req)) (show_backend b) body_bytes of
               Inl e \<Rightarrow> Done (Ready (Inl (pe_from_string (''Failed to build backend request: '' @ e))), st)
             | Inr backend_req \<Rightarrow>
                 forward_result H backend_timeout
                   (send_to_backend H running env b worker_index backend_req (protocol_cached \<noteq> Some False)
                      (if protocol_cached = None then Some body_bytes else None) st))"

lemma forward_result_response:
  "forward_result H bt res = Done (Ready (Inr resp), st) \<longleftrightarrow>
     (\<exists>r. res = Done (Ready (Inr r), st) \<and> resp = r\<lparr>rp_headers := strip_hop_by_hop H (rp_headers r)\<rparr>)"
proof (cases res)
  case (Done x)
  then show ?thesis
    by (cases "(x, fst x)" rule: prod.exhaust; cases "fst x"; cases x)
      (auto simp: forward_result_def split: sum.splits timer.splits)
qed (simp_all add: forward_result_def)

lemma forward_result_state: "forward_result H bt res = Done (r, st) \<Longrightarrow> \<exists>r'. res = Done (r', st)"
  by (auto simp: forward_result_def map_outcome_Done)

lemma forward_result_done: "res = Done (r', st) \<Longrightarrow> \<exists>r. forward_result H bt res = Done (r, st)"
  by (simp add: forward_result_def)

lemma forward_response:
  assumes "forward_to_backend H overall env req b worker_index timeout_config st = Done (Ready (Inr resp), st')"
  shows "\<exists>running body breq r.
    build_request H (rq_method req) (backend_uri b req) (forwarded_headers H (rq_headers req)) (show_backend b) body = Inr breq \<and>
    send_to_backend H running env b worker_index breq (map_of (fs_protocol_cache st) (show_backend b) \<noteq> Some False)
      (if map_of (fs_protocol_cache st) (show_backend b) = None then Some body else None) st = Done (Ready (Inr r), st') \<and>
    resp = r\<lparr>rp_headers := strip_hop_by_hop H (rp_headers r)\<rparr>"
  using assms
  by (auto simp: forward_to_backend_def Let_def forward_result_response split: if_splits async.splits sum.splits)

section \<open>Without timers\<close>

lemma fires_none [simp]: "fires {} pt env = None" "fe_elapsed env = None \<Longrightarrow> fires running pt env = None"
  by (simp_all add: fires_def split: option.split)

lemma await_Ready: "await running pt env answer = Ready x \<longleftrightarrow> fires running pt env = None \<and> answer = Some x"
  by (auto simp: await_def split: option.splits if_splits)

lemma await_untimed [simp]: "fires running pt env = None \<Longrightarrow> await running pt env (Some x) = Ready x"
  by (simp add: await_def)

lemma pool_connection_untimed:
  "fires running AwaitConnect env = None \<Longrightarrow>
     pool_connection running env b ps =
       (let (p, ps) = get_or_create_pool (fe_now env) b ps;
            (r, p') = get_connection (fe_now env) (fe_ready env) (fe_connect env) p
        in (Ready r, ps\<lparr>bp_pools := AList.update (backendkey_from b) p' (bp_pools ps)\<rparr>))"
  by (simp add: pool_connection_def Let_def split_def split: option.split)

text \<open>Without a timer, the connection of a worker is the one \<open>get_backend_connection\<close> gives.\<close>

lemma get_sender_worker:
  assumes "fe_elapsed env = None" "fs_workers st = Some ws" "idx < length ws"
  shows "get_sender running env b (Some idx) st =
    (let (r, ps) = get_backend_connection (fe_now env) (fe_ready env) (fe_prewarm env) (fe_connect env) b (ws ! idx)
     in Done (Ready (map_error worker_error r), st\<lparr>fs_workers := Some (ws[idx := ps])\<rparr>))"
  using assms
  by (simp add: get_sender_def prewarm_elapsed_def pool_connection_untimed get_backend_connection_def Let_def split_def
      split: option.split)

section \<open>Waiting for ever\<close>

text \<open>The network is silent at some point: the body does not end, or a request is never answered.\<close>

definition fwd_silent :: "('h, 's) fwd_env \<Rightarrow> bool" where
  "fwd_silent env \<longleftrightarrow> fe_body env = BodyPending \<or> (\<exists>s q. fe_send env s q = None) \<or> (\<exists>q. fe_client env q = None)"

lemma await_Stalled: "await running pt env answer = Stalled \<longleftrightarrow> running = {} \<and> answer = None"
proof -
  have "fe_first env \<notin> running \<and> other_timer (fe_first env) \<notin> running \<longleftrightarrow> running = {}"
    by (cases "fe_first env") (auto, (metis timer.exhaust)+)
  then show ?thesis by (auto simp: await_def split: option.split)
qed

lemma client_request_Stalled:
  "client_request running pt env q = Stalled \<longleftrightarrow> running = {} \<and> fe_client env q = None"
  unfolding await_Stalled [where pt = pt and env = env, symmetric]
  by (auto simp: client_request_def split: async.split sum.split)

lemma get_sender_not_stalled: "get_sender running env b wi st \<noteq> Done (Stalled, st')"
proof -
  have "pool_connection running env b ps \<noteq> (Stalled, ps')" for ps ps'
    by (auto simp: pool_connection_def Let_def split: prod.splits option.splits)
  then show ?thesis by (auto simp: get_sender_def split: option.splits if_splits prod.splits async.splits)
qed

lemma send_stalled:
  assumes "send_to_backend H running env b wi q h2 fb st = Done (Stalled, st')"
  shows "running = {} \<and> fwd_silent env"
proof (cases h2)
  case True
  then obtain s st0 where "get_sender running env b wi st = Done (Ready (Inr s), st0)"
    using assms get_sender_not_stalled [of running env b wi st]
    by (auto simp: send_to_backend_def split: outcome.splits prod.splits async.splits sum.splits)
  with True assms show ?thesis
    by (auto simp: send_to_backend_def http1_fallback_def Let_def await_Stalled client_request_Stalled fwd_silent_def
        split: async.splits sum.splits option.splits)
next
  case False
  with assms show ?thesis by (auto simp: send_to_backend_def client_request_Stalled fwd_silent_def)
qed

lemma forward_result_stalled: "forward_result H bt res = Done (Stalled, st') \<Longrightarrow> res = Done (Stalled, st')"
  by (cases res) (auto simp: forward_result_def split: async.splits timer.splits sum.splits)

text \<open>Forwarding waits for ever only without timers, and only when the network is silent.\<close>

lemma forward_stalled:
  assumes "forward_to_backend H overall env req b wi tc st = Done (Stalled, st')"
  shows "\<not> overall \<and> Option.bind tc to_backend_request = None \<and> fwd_silent env \<or>
    \<not> overall \<and> fe_body env = BodyPending \<and> \<not> bodiless (rq_method req)"
  using assms
  by (auto simp: forward_to_backend_def read_body_def collected_def Let_def await_Stalled
      dest!: forward_result_stalled send_stalled split: if_splits async.splits sum.splits body_read.splits)

section \<open>Hop-by-hop headers\<close>

lemma remove_all_values:
  "headers_documented H \<Longrightarrow>
     header_values H m (fold (ht_remove H) ns h) = (if m \<in> set ns then [] else header_values H m h)"
  by (induction ns arbitrary: h) (auto simp: headers_documentedD)

lemma header_values_names: "m \<notin> fst ` set (ht_pairs H h) \<Longrightarrow> header_values H m h = []"
  by (force simp: header_values_def filter_empty_conv)

lemma strip_hop_by_hop_values:
  assumes "headers_documented H"
  shows "header_values H m (strip_hop_by_hop H h) = (if is_hop_by_hop_header m then [] else header_values H m h)"
  using assms header_values_names [of m H h] by (auto simp: strip_hop_by_hop_def remove_all_values)

text \<open>
  C15: A response of the backend reaches the client without its hop-by-hop headers, in whatever way it was
  obtained, and with the values of all other headers and the status unchanged.
\<close>

theorem response_hop_by_hop_stripped:
  assumes "headers_documented H"
    and "forward_to_backend H overall env req b worker_index timeout_config st = Done (Ready (Inr resp), st')"
  shows "\<exists>resp'. rp_status resp = rp_status resp' \<and> rp_body resp = rp_body resp' \<and>
    ((\<exists>s breq. fe_send env s breq = Some (Inr resp')) \<or> (\<exists>breq. fe_client env breq = Some (Inr resp'))) \<and>
    (\<forall>m. header_values H m (rp_headers resp) =
       (if is_hop_by_hop_header m then [] else header_values H m (rp_headers resp')))"
proof -
  have client: "\<exists>breq. fe_client env breq = Some (Inr r)" if "client_request running pt env breq = Ready (Inr r)" for running pt breq r
    using that by (auto simp: client_request_def await_Ready split: async.splits sum.splits)
  have sent: "(\<exists>s breq. fe_send env s breq = Some (Inr r)) \<or> (\<exists>breq. fe_client env breq = Some (Inr r))"
    if "send_to_backend H running env b worker_index breq h2 fb st = Done (Ready (Inr r), st'')" for running breq h2 fb r st''
    using that client
    by (auto simp: send_to_backend_def http1_fallback_def await_Ready Let_def
        split: if_splits outcome.splits prod.splits async.splits sum.splits option.splits)
  obtain r where "resp = r\<lparr>rp_headers := strip_hop_by_hop H (rp_headers r)\<rparr>"
    "(\<exists>s breq. fe_send env s breq = Some (Inr r)) \<or> (\<exists>breq. fe_client env breq = Some (Inr r))"
    using forward_response [OF assms(2)] sent by metis
  then show ?thesis
    by (intro exI [of _ r]) (simp add: strip_hop_by_hop_values [OF assms(1)])
qed

section \<open>The fallback to HTTP/1.1\<close>

text \<open>
  When the first request to a backend fails over HTTP/2 and is repeated over HTTP/1.1, the request
  that the backend then answers carries no header of the client at all, only the host: credentials,
  content type and every header a filter has set are lost.
\<close>

theorem fallback_drops_headers:
  assumes "headers_documented H" "ht_name H ''Host'' = Inr ''host''"
    and "map_of (fs_protocol_cache st) (show_backend b) = None" "\<forall>s breq. \<exists>e. fe_send env s breq = Some (Inl e)"
    and "forward_to_backend H overall env req b worker_index timeout_config st = Done (Ready (Inr resp), st')"
  shows "\<exists>breq resp'. fe_client env breq = Some (Inr resp') \<and> rp_status resp = rp_status resp' \<and>
    br_method breq = rq_method req \<and> (\<forall>m. m \<noteq> ''host'' \<longrightarrow> header_values H m (br_headers breq) = [])"
proof -
  have built: "br_method breq = m \<and> br_uri breq = uri" if "build_request H m uri hs host body = Inr breq" for m uri hs host body breq
    using that by (auto simp: build_request_def split: option.splits sum.splits)
  have host_only: "header_values H m (br_headers breq) = []"
    if "build_request H meth uri [] host body = Inr breq" "m \<noteq> ''host''" for meth uri host body breq m
    using that assms(1,2) by (auto simp: build_request_def headers_documentedD split: option.splits sum.splits)
  have fb: "\<exists>breq. fe_client env breq = Some (Inr r) \<and> br_method breq = meth \<and>
      (\<forall>m. m \<noteq> ''host'' \<longrightarrow> header_values H m (br_headers breq) = [])"
    if "http1_fallback H running env b meth uri body st0 = (Ready (Inr r), st'')" for running meth uri body st0 st'' r
  proof -
    from that obtain breq where "build_request H meth uri [] (show_backend b) body = Inr breq"
      "client_request running AwaitFallback env breq = Ready (Inr r)"
      by (auto simp: http1_fallback_def Let_def split: option.splits sum.splits)
    moreover from this(2) have "fe_client env breq = Some (Inr r)"
      by (auto simp: client_request_def await_Ready split: async.splits sum.splits)
    ultimately show ?thesis using built host_only by metis
  qed
  have sent: "\<exists>breq'. fe_client env breq' = Some (Inr r) \<and> br_method breq' = br_method breq \<and>
      (\<forall>m. m \<noteq> ''host'' \<longrightarrow> header_values H m (br_headers breq') = [])"
    if "send_to_backend H running env b worker_index breq True (Some body) st = Done (Ready (Inr r), st'')"
    for running breq body r st''
  proof -
    from that obtain s st0 where "get_sender running env b worker_index st = Done (Ready (Inr s), st0)"
      by (auto simp: send_to_backend_def split: outcome.splits prod.splits async.splits sum.splits)
    moreover obtain e where "fe_send env s breq = Some (Inl e)" using assms(4) by blast
    moreover from calculation that have "fires running AwaitSend env = None"
      by (auto simp: send_to_backend_def await_def split: option.splits)
    ultimately show ?thesis using that fb by (auto simp: send_to_backend_def)
  qed
  obtain running breq body r where "send_to_backend H running env b worker_index breq True (Some body) st = Done (Ready (Inr r), st')"
    "rp_status resp = rp_status r" "br_method breq = rq_method req"
    using forward_response [OF assms(5)] assms(3) built by auto
  with sent show ?thesis by metis
qed

text \<open>No request ever records that a backend speaks HTTP/2.\<close>

lemma get_sender_protocol:
  "get_sender running env b wi st = Done (r, st') \<Longrightarrow> fs_protocol_cache st' = fs_protocol_cache st"
  by (auto simp: get_sender_def split: option.splits if_splits prod.splits async.splits)

lemma protocol_never_http2:
  assumes "forward_to_backend H overall env req b worker_index timeout_config st = Done (r, st')"
    and "map_of (fs_protocol_cache st') k = Some True"
  shows "map_of (fs_protocol_cache st) k = Some True"
proof -
  have send: "fs_protocol_cache st'' = fs_protocol_cache st \<or> fs_protocol_cache st'' = AList.update (show_backend b) False (fs_protocol_cache st)"
    if "send_to_backend H running env b worker_index breq h2 fb st = Done (a, st'')" for running breq h2 fb a st''
    using that
    by (auto simp: send_to_backend_def http1_fallback_def Let_def dest: get_sender_protocol
        split: if_splits outcome.splits prod.splits async.splits sum.splits option.splits)
  have "fs_protocol_cache st' = fs_protocol_cache st \<or> fs_protocol_cache st' = AList.update (show_backend b) False (fs_protocol_cache st)"
    using assms(1)
    by (auto simp: forward_to_backend_def Let_def dest!: forward_result_state send split: if_splits async.splits sum.splits)
  then show ?thesis using assms(2) by (auto simp: update_conv' split: if_splits)
qed

definition failing_h2 :: "((string \<times> string) list, nat) fwd_env" where
  "failing_h2 =
     \<lparr>fe_now = 0, fe_body = BodyRead [], fe_ready = (\<lambda>_. True), fe_prewarm = (\<lambda>_. ConnTimeout), fe_connect = ConnOk 0,
      fe_send = (\<lambda>_ _. Some (Inl ''http2 error'')),
      fe_client = (\<lambda>_. Some (Inr \<lparr>rp_status = 200, rp_headers = [(''connection'', ''close'')], rp_body = ''ok''\<rparr>)),
      fe_elapsed = None, fe_first = BackendTimer\<rparr>"

definition plain_get :: "(string \<times> string) list Request" where
  "plain_get =
     \<lparr>rq_method = ''GET'', rq_scheme = None, rq_uri_host = None, rq_uri_port = None, rq_path = ''/a'',
      rq_path_and_query = Some ''/a'', rq_headers = [(''host'', ''example.com''), (''authorization'', ''secret'')]\<rparr>"

definition fwd_start :: "nat fwd_state" where
  "fwd_start = \<lparr>fs_pools = pools_new 0, fs_workers = None, fs_protocol_cache = []\<rparr>"

lemma list_http_host: "ht_name list_http ''Host'' = Inr ''host''"
  by (simp add: list_http_def) code_simp

lemma forward_failing_h2:
  "\<exists>st'. forward_to_backend list_http False failing_h2 plain_get (backend_new 1 80 1) None None fwd_start =
     Done (Ready (Inr \<lparr>rp_status = 200, rp_headers = [], rp_body = ''ok''\<rparr>), st')"
proof -
  let ?b = "backend_new 1 80 1"
  have "show_backend ?b = ''0.0.0.1:80''" by code_simp
  then have H: "ht_value list_http (show_backend ?b) = Inr (show_backend ?b)" "ht_uri list_http u = None"
    "ht_method list_http m = None" for u m
    by (simp_all add: list_http_def)
  have "strip_hop_by_hop list_http [(''connection'', ''close'')] = []"
    by (simp add: strip_hop_by_hop_def is_hop_by_hop_header_def eq_ignore_ascii_case_def list_http_def)
  with H show ?thesis
    by (simp add: forward_to_backend_def plain_get_def bodiless_def read_body_def fwd_start_def build_request_def
        list_http_host send_to_backend_def get_sender_def pool_connection_untimed failing_h2_def get_or_create_pool_def
        pools_new_def pool_new_def get_connection_def get_connection_start_def create_connection_def
        pool_record_success_def pool_log_def map_error_def http1_fallback_def client_request_def forward_result_def Let_def)
qed

theorem fallback_drops_headers_witness:
  "\<exists>breq resp'. fe_client failing_h2 breq = Some (Inr resp') \<and> rp_status resp' = 200 \<and> br_method breq = ''GET'' \<and>
     header_values list_http ''authorization'' (br_headers breq) = []"
proof -
  obtain st' where "forward_to_backend list_http False failing_h2 plain_get (backend_new 1 80 1) None None fwd_start =
     Done (Ready (Inr \<lparr>rp_status = 200, rp_headers = [], rp_body = ''ok''\<rparr>), st')"
    using forward_failing_h2 by blast
  from fallback_drops_headers [OF list_http_documented list_http_host _ _ this] show ?thesis
    by (auto simp: fwd_start_def failing_h2_def plain_get_def)
qed

theorem response_hop_by_hop_stripped_witness:
  "\<exists>resp st'. forward_to_backend list_http False failing_h2 plain_get (backend_new 1 80 1) None None fwd_start =
     Done (Ready (Inr resp), st') \<and> header_values list_http ''connection'' (rp_headers resp) = []"
proof -
  obtain st' where f: "forward_to_backend list_http False failing_h2 plain_get (backend_new 1 80 1) None None fwd_start =
     Done (Ready (Inr \<lparr>rp_status = 200, rp_headers = [], rp_body = ''ok''\<rparr>), st')"
    using forward_failing_h2 by blast
  have "is_hop_by_hop_header ''connection''" by (simp add: is_hop_by_hop_header_def eq_ignore_ascii_case_def)
  with response_hop_by_hop_stripped [OF list_http_documented f] f show ?thesis by auto
qed

end
