(* ===== verification/Request_Handler.thy ===== *)
theory Request_Handler
  imports Forwarder Router_Routing Breaker_Manager Rate_Limiter Gateway_Index
begin

text \<open>
  The request handler (\<open>control/src/proxy/request_handler.rs\<close>), which composes the router, the rate
  limiter, the circuit breakers, the forwarder and the filters of a route. The state of the gateway is
  one record; the clock readings, the network and the generated request identifier are an
  environment. The handler always answers with a response; an \<open>unwrap\<close> of an invalid response is a panic.
\<close>

section \<open>Workers\<close>

record WorkerSelector =
  ws_counter :: u64
  ws_num_workers :: nat

definition selector_new :: "nat \<Rightarrow> WorkerSelector" where
  "selector_new num_workers = \<lparr>ws_counter = 0, ws_num_workers = num_workers\<rparr>"

definition selector_select :: "WorkerSelector \<Rightarrow> (nat \<times> WorkerSelector) outcome" where
  "selector_select w =
     (if ws_num_workers w = 0 then Panic ''attempt to calculate the remainder with a divisor of zero''
      else Done (unat (ws_counter w) mod ws_num_workers w, w\<lparr>ws_counter := ws_counter w + 1\<rparr>))"

section \<open>State and environment\<close>

datatype http_metric =
    HttpRequests string string string string
  | HttpDuration string string string duration

record ('r, 's) gateway =
  g_router :: "'r Router"
  g_limiter :: RateLimiter
  g_breakers :: CircuitBreakerManager
  g_selector :: "WorkerSelector option"
  g_fwd :: "'s fwd_state"
  g_http :: "http_metric list"

text \<open>
  The environment of one request: the fresh identifier, the texts of the metrics endpoint, the uptime,
  the times of the clock readings in their order, the network during the first attempt, and the
  answers of the HTTP/1.1 client to the retries by their number, none where it never answers.
\<close>

record ('h, 's) request_env =
  re_uuid :: string
  re_metrics_text :: "string + string"
  re_format_type :: string
  re_pool_metrics :: "string option"
  re_gateway_index :: "GatewayIndex option"
  re_uptime_secs :: nat
  re_start :: instant
  re_rate_time :: instant
  re_rate_later :: instant
  re_allow_time :: instant
  re_done_time :: instant
  re_fwd :: "('h, 's) fwd_env"
  re_retry :: "nat \<Rightarrow> 'h BackendRequest \<Rightarrow> (string + 'h Response) option"

section \<open>Fixed responses\<close>

definition build_error_response :: "'h http \<Rightarrow> u16 \<Rightarrow> string \<Rightarrow> 'h Response outcome" where
  "build_error_response H code msg = unwrap (build_response H code [(''Content-Type'', ''text/plain'')] msg)"

definition build_not_found_response :: "'h http \<Rightarrow> string \<Rightarrow> 'h Response outcome" where
  "build_not_found_response H request_id = unwrap (build_response H 404 [(''X-Request-ID'', request_id)] ''Not Found'')"

definition build_rate_limit_response :: "'h http \<Rightarrow> 'h Response outcome" where
  "build_rate_limit_response H =
     unwrap (build_response H 429 [(''Content-Type'', ''text/plain''), (''Retry-After'', ''1'')] ''Rate limit exceeded'')"

definition build_circuit_breaker_response :: "'h http \<Rightarrow> 'h Response outcome" where
  "build_circuit_breaker_response H =
     unwrap (build_response H 503 [(''Content-Type'', ''text/plain''), (''Retry-After'', ''30'')]
       ''Backend temporarily unavailable (circuit breaker open)'')"

definition error_to_response :: "'h http \<Rightarrow> ProxyError \<Rightarrow> string \<Rightarrow> 'h Response outcome" where
  "error_to_response H e request_id =
     unwrap (build_response H (pe_status_code e) [(''Content-Type'', ''text/plain''), (''X-Request-ID'', request_id)]
       (show_proxyerror e))"

definition serve_metrics_endpoint :: "'h http \<Rightarrow> ('h, 's) request_env \<Rightarrow> 'h Response outcome" where
  "serve_metrics_endpoint H env =
     (case re_metrics_text env of
        Inl e \<Rightarrow> build_error_response H 500 (''Failed to encode metrics: '' @ e)
      | Inr text \<Rightarrow>
          let text = text @ (case re_pool_metrics env of Some t \<Rightarrow> t | None \<Rightarrow> []);
              gi = gateway_index_metrics (re_gateway_index env);
              text = (if gi \<noteq> [] then text @ [CHR 0x0A] @ gi else text)
          in unwrap (build_response H 200 [(''Content-Type'', re_format_type env)] text))"

definition serve_healthz_endpoint :: "'h http \<Rightarrow> 'h Response outcome" where
  "serve_healthz_endpoint H = unwrap (build_response H 200 [(''Content-Type'', ''text/plain'')] ''ok'')"

definition json_member :: "string \<Rightarrow> string \<Rightarrow> string" where
  "json_member k v = [CHR 0x22] @ k @ [CHR 0x22] @ '':'' @ v"

definition serve_status_endpoint :: "'h http \<Rightarrow> nat \<Rightarrow> 'r Router \<Rightarrow> 'h Response outcome" where
  "serve_status_endpoint H uptime r =
     unwrap (build_response H 200 [(''Content-Type'', ''application/json'')]
       (''{'' @ json_member ''status'' ([CHR 0x22] @ ''ok'' @ [CHR 0x22]) @ '','' @
        json_member ''uptime_seconds'' (show_nat uptime) @ '','' @ json_member ''routes'' (show_nat (route_count r)) @ ''}''))"

section \<open>Redirects\<close>

fun first_some :: "'a option list \<Rightarrow> 'a option" where
  "first_some [] = None"
| "first_some (None # xs) = first_some xs"
| "first_some (Some x # xs) = Some x"

definition redirect_location :: "'h http \<Rightarrow> 'h Request \<Rightarrow> RequestRedirect \<Rightarrow> string option" where
  "redirect_location H req rd =
     (let scheme = the (first_some [rd_scheme rd, rq_scheme req, Some ''http'']);
          port_part = (case first_some [rd_port rd, rq_uri_port req] of Some p \<Rightarrow> '':'' @ show_u16 p | None \<Rightarrow> []);
          path = (case rd_path rd of Some p \<Rightarrow> p | None \<Rightarrow> rq_path req)
      in map_option (\<lambda>host. scheme @ ''://'' @ host @ port_part @ path)
           (first_some [rd_hostname rd, rq_uri_host req,
              Option.bind (header_get H ''host'' (rq_headers req)) (ht_to_str H)]))"

definition build_redirect_response :: "'h http \<Rightarrow> 'h Request \<Rightarrow> RequestRedirect \<Rightarrow> ProxyError + 'h Response" where
  "build_redirect_response H req rd =
     (case redirect_location H req rd of
        None \<Rightarrow> Inl (pe_from_string ''Cannot determine redirect host'')
      | Some location \<Rightarrow>
          (case build_response H (of_nat (redirect_code (rd_status_code rd))) [(''Location'', location)] [] of
             Inl e \<Rightarrow> Inl (ErrBackend (''Failed to build redirect response: '' @ e))
           | Inr resp \<Rightarrow> Inr resp))"

section \<open>Attempts and retries\<close>

definition overall_timeout_error :: "duration \<Rightarrow> ProxyError" where
  "overall_timeout_error d = ErrTimeout (''Request exceeded '' @ show_nat (as_millis d) @ ''ms overall timeout'')"

text \<open>
  The first attempt, under the overall timeout if there is one. When it waits for ever, so does the
  handler.
\<close>

definition first_attempt :: "'h http \<Rightarrow> ('h, 's) fwd_env \<Rightarrow> 'h Request \<Rightarrow> RouteMatch \<Rightarrow> nat option \<Rightarrow>
    duration option \<Rightarrow> 's fwd_state \<Rightarrow> ((ProxyError + 'h Response) \<times> 's fwd_state) outcome" where
  "first_attempt H env req rm worker_index overall_timeout st =
     (case forward_to_backend H (overall_timeout \<noteq> None) env req (rm_backend rm) worker_index (rm_timeout rm) st of
        Panic m \<Rightarrow> Panic m
      | Diverges \<Rightarrow> Diverges
      | Done (Stalled, st) \<Rightarrow> Diverges
      | Done (Ready r, st) \<Rightarrow> Done (r, st)
      | Done (Elapsed _, st) \<Rightarrow> Done (Inl (overall_timeout_error (the overall_timeout)), st))"

definition execute_without_retry :: "'h http \<Rightarrow> ('h, 's) fwd_env \<Rightarrow> 'h Request \<Rightarrow> RouteMatch \<Rightarrow> nat option \<Rightarrow>
    duration option \<Rightarrow> 's fwd_state \<Rightarrow> ((ProxyError + 'h Response) \<times> 's fwd_state) outcome" where
  "execute_without_retry H env req rm worker_index overall_timeout st =
     first_attempt H env req rm worker_index overall_timeout st"

definition should_retry :: "RetryConfig \<Rightarrow> ProxyError + 'h Response \<Rightarrow> bool" where
  "should_retry cfg r =
     (case r of Inr resp \<Rightarrow> should_retry_status cfg (rp_status resp) | Inl _ \<Rightarrow> rc_retry_on_connection_error cfg)"

definition retry_headers :: "'h http \<Rightarrow> 'h \<Rightarrow> (string \<times> string) list" where
  "retry_headers H h =
     filter (\<lambda>(n, _). n \<notin> {''host'', ''content-length'', ''content-type'', ''content-encoding''} \<and>
       \<not> is_hop_by_hop_header n) (ht_pairs H h)"

text \<open>
  The loop over the later attempts. Next to the result it gives the delays that were slept before
  the attempts. No timer runs around it.
\<close>

fun retry_loop :: "'h http \<Rightarrow> RetryConfig \<Rightarrow> (nat \<Rightarrow> 'h BackendRequest \<Rightarrow> (string + 'h Response) option) \<Rightarrow>
    (string + 'h BackendRequest) \<Rightarrow> nat list \<Rightarrow> ProxyError + 'h Response \<Rightarrow>
    ((ProxyError + 'h Response) \<times> duration list) outcome" where
  "retry_loop H cfg client breq [] last_result = Done (last_result, [])"
| "retry_loop H cfg client breq (attempt # later) last_result =
     (let delay = calculate_delay cfg (of_nat attempt - 1)
      in case breq of
           Inl e \<Rightarrow> Done (Inl (ErrBackend (''Failed to build retry request: '' @ e)), [delay])
         | Inr req \<Rightarrow>
             (case client attempt req of
                None \<Rightarrow> Diverges
              | Some answer \<Rightarrow>
                  let retry_result = (case answer of
                          Inr resp \<Rightarrow> Inr resp
                        | Inl e \<Rightarrow> Inl (ErrBackend (''Retry request failed: '' @ e)))
                  in if \<not> should_retry cfg retry_result then Done (retry_result, [delay])
                     else map_outcome (\<lambda>(r, ds). (r, delay # ds)) (retry_loop H cfg client breq later retry_result)))"

definition execute_with_retry :: "'h http \<Rightarrow> ('h, 's) request_env \<Rightarrow> 'h Request \<Rightarrow> RouteMatch \<Rightarrow> string \<Rightarrow>
    nat option \<Rightarrow> duration option \<Rightarrow> RetryConfig \<Rightarrow> HttpMethod \<Rightarrow> 's fwd_state \<Rightarrow>
    ((ProxyError + 'h Response) \<times> duration list \<times> 's fwd_state) outcome" where
  "execute_with_retry H env req rm path worker_index overall_timeout cfg method st =
     (let max_attempts = rc_max_retries cfg + 1;
          original_headers = rq_headers req
      in case first_attempt H (re_fwd env) req rm worker_index overall_timeout st of
           Panic m \<Rightarrow> Panic m
         | Diverges \<Rightarrow> Diverges
         | Done (first_result, st) \<Rightarrow>
             if \<not> should_retry cfg first_result \<or> max_attempts \<le> 1 then Done (first_result, [], st)
             else
               let breq = build_request H (if method = HEAD then ''HEAD'' else ''GET'')
                     (''http://'' @ show_backend (rm_backend rm) @ path)
                     (retry_headers H original_headers) (show_backend (rm_backend rm)) []
               in map_outcome (\<lambda>(r, delays). (r, delays, st))
                    (retry_loop H cfg (re_retry env) breq [1..<unat max_attempts] first_result))"

definition execute_request_with_retry :: "'h http \<Rightarrow> ('h, 's) request_env \<Rightarrow> 'h Request \<Rightarrow> RouteMatch \<Rightarrow>
    HttpMethod \<Rightarrow> string \<Rightarrow> nat option \<Rightarrow> 's fwd_state \<Rightarrow> ((ProxyError + 'h Response) \<times> duration list \<times> 's fwd_state) outcome" where
  "execute_request_with_retry H env req rm method path worker_index st =
     (let overall = Option.bind (rm_timeout rm) to_request
      in case rm_retry rm of
           Some cfg \<Rightarrow>
             if method = GET \<or> method = HEAD
             then execute_with_retry H env req rm path worker_index overall cfg method st
             else map_outcome (\<lambda>(r, st). (r, [], st)) (execute_without_retry H (re_fwd env) req rm worker_index overall st)
         | None \<Rightarrow>
             map_outcome (\<lambda>(r, st). (r, [], st)) (execute_without_retry H (re_fwd env) req rm worker_index overall st))"

section \<open>Results\<close>

definition status_to_str :: "u16 \<Rightarrow> string" where
  "status_to_str s =
     (if s \<in> {200, 201, 204, 301, 302, 304, 400, 401, 403, 404, 500, 502, 503, 504} then show_nat (unat s) else ''other'')"

definition record_request_metrics :: "ProxyError + 'h Response \<Rightarrow> HttpMethod \<Rightarrow> string \<Rightarrow> nat option \<Rightarrow> duration \<Rightarrow>
    instant \<Rightarrow> backend \<Rightarrow> string \<Rightarrow> ('r, 's) gateway \<Rightarrow> ('r, 's) gateway" where
  "record_request_metrics result method route_pattern worker_index dur now b backend_id g =
     (let method_str = method_to_str method;
          worker_label = (case worker_index of Some i \<Rightarrow> show_nat i | None \<Rightarrow> ''none'');
          status_str = (case result of Inr resp \<Rightarrow> status_to_str (rp_status resp) | Inl e \<Rightarrow> pe_status_str e);
          g = g\<lparr>g_http := g_http g @ [HttpRequests method_str route_pattern status_str worker_label,
                 HttpDuration method_str route_pattern status_str dur]\<rparr>
      in case result of
           Inr resp \<Rightarrow>
             let g = g\<lparr>g_router := record_backend_response b (rp_status resp) (g_router g)\<rparr>
             in if rp_status resp \<ge> 500
                then g\<lparr>g_breakers := cbm_record_failure now backend_id (g_breakers g)\<rparr>
                else g\<lparr>g_breakers := cbm_record_success now backend_id (g_breakers g)\<rparr>
         | Inl e \<Rightarrow>
             (case e of
                ErrBodyTooLarge _ _ \<Rightarrow> g
              | _ \<Rightarrow> g\<lparr>g_router := record_backend_response b (pe_status_code e) (g_router g),
                      g_breakers := cbm_record_failure now backend_id (g_breakers g)\<rparr>))"

definition record_not_found_metrics :: "HttpMethod \<Rightarrow> duration \<Rightarrow> ('r, 's) gateway \<Rightarrow> ('r, 's) gateway" where
  "record_not_found_metrics method dur g =
     g\<lparr>g_http := g_http g @ [HttpRequests (method_to_str method) ''not_found'' ''404'' ''none'',
        HttpDuration (method_to_str method) ''not_found'' ''404'' dur]\<rparr>"

definition finalize_response :: "'h http \<Rightarrow> ProxyError + 'h Response \<Rightarrow> ResponseHeaderModifier option \<Rightarrow> string \<Rightarrow>
    'h Response outcome" where
  "finalize_response H result response_filters request_id =
     (case result of
        Inl e \<Rightarrow> error_to_response H e request_id
      | Inr resp \<Rightarrow>
          (case response_filters of
             None \<Rightarrow> Done resp
           | Some filters \<Rightarrow>
               (case apply_response_filters H filters resp of
                  (Inl e, _) \<Rightarrow> build_error_response H 500 (''Response filter error: '' @ e)
                | (Inr _, resp) \<Rightarrow> Done resp)))"

section \<open>\<open>handle_request\<close>\<close>

definition method_of :: "string \<Rightarrow> HttpMethod" where
  "method_of m =
     (if m = ''GET'' then GET else if m = ''POST'' then POST else if m = ''PUT'' then PUT
      else if m = ''DELETE'' then DELETE else if m = ''HEAD'' then HEAD else if m = ''OPTIONS'' then OPTIONS
      else if m = ''PATCH'' then PATCH else GET)"

definition request_id_of :: "'h http \<Rightarrow> 'h Request \<Rightarrow> string \<Rightarrow> string" where
  "request_id_of H req uuid =
     (case Option.bind (header_get H ''x-request-id'' (rq_headers req)) (ht_to_str H) of Some s \<Rightarrow> s | None \<Rightarrow> uuid)"

definition with_state :: "'g \<Rightarrow> 'a outcome \<Rightarrow> ('a \<times> 'g) outcome" where
  "with_state g r = map_outcome (\<lambda>x. (x, g)) r"

text \<open>The part of the handler for a request that has a route and whose worker has been chosen.\<close>

definition handle_match :: "'h http \<Rightarrow> ('h, 's) request_env \<Rightarrow> 'h Request \<Rightarrow> HttpMethod \<Rightarrow> string \<Rightarrow> RouteMatch \<Rightarrow>
    nat option \<Rightarrow> ('r, 's) gateway \<Rightarrow> ('h Response \<times> ('r, 's) gateway) outcome" where
  "handle_match H env req method request_id rm worker_index g =
     (case rm_redirect rm of
        Some rd \<Rightarrow>
          (case build_redirect_response H req rd of
             Inr resp \<Rightarrow> Done (resp, g)
           | Inl e \<Rightarrow> with_state g (build_error_response H 500 (''Redirect error: '' @ show_proxyerror e)))
      | None \<Rightarrow>
          (let (admitted, limiter) = check_rate_limit (re_rate_time env) (re_rate_later env) (rm_pattern rm) (g_limiter g);
               g = g\<lparr>g_limiter := limiter\<rparr>
           in if \<not> admitted then with_state g (build_rate_limit_response H)
              else
                (case (case rm_request_filters rm of
                         Some filters \<Rightarrow> apply_request_filters H filters req
                       | None \<Rightarrow> (Inr (), req)) of
                   (Inl e, _) \<Rightarrow> with_state g (build_error_response H 500 (''Filter error: '' @ e))
                 | (Inr _, req) \<Rightarrow>
                     (let backend_id = show_backend (rm_backend rm);
                          (allowed, breakers) = cbm_allow_request (re_allow_time env) backend_id (g_breakers g);
                          g = g\<lparr>g_breakers := breakers\<rparr>
                      in if \<not> allowed then with_state g (build_circuit_breaker_response H)
                         else
                           (case execute_request_with_retry H env req rm method
                                  (case rq_path_and_query req of Some pq \<Rightarrow> pq | None \<Rightarrow> rq_path req) worker_index (g_fwd g) of
                              Panic m \<Rightarrow> Panic m
                            | Diverges \<Rightarrow> Diverges
                            | Done (result, delays, fwd) \<Rightarrow>
                                (let g = record_request_metrics result method (rm_pattern rm) worker_index
                                       (re_done_time env - re_start env) (re_done_time env) (rm_backend rm) backend_id
                                       (g\<lparr>g_fwd := fwd\<rparr>)
                                 in with_state g (finalize_response H result (rm_response_filters rm) request_id)))))))"

definition handle_request :: "'r matchit \<Rightarrow> 'h http \<Rightarrow> ('h, 's) request_env \<Rightarrow> 'h Request \<Rightarrow> ('r, 's) gateway \<Rightarrow>
    ('h Response \<times> ('r, 's) gateway) outcome" where
  "handle_request M H env req g =
     (let request_id = request_id_of H req (re_uuid env); path = rq_path req in
      if path = ''/metrics'' \<and> rq_method req = ''GET'' then with_state g (serve_metrics_endpoint H env)
      else if path = ''/healthz'' \<and> rq_method req = ''GET'' then with_state g (serve_healthz_endpoint H)
      else if path = ''/status'' \<and> rq_method req = ''GET''
      then with_state g (serve_status_endpoint H (re_uptime_secs env) (g_router g))
      else
        let method = method_of (rq_method req) in
        case select_backend M method path None None (g_router g) of
          Panic m \<Rightarrow> Panic m
        | Diverges \<Rightarrow> Diverges
        | Done (None, r) \<Rightarrow>
            let g = record_not_found_metrics method (re_done_time env - re_start env) (g\<lparr>g_router := r\<rparr>)
            in with_state g (build_not_found_response H request_id)
        | Done (Some rm, r) \<Rightarrow>
            let g = g\<lparr>g_router := r\<rparr> in
            (case g_selector g of
               None \<Rightarrow> handle_match H env req method request_id rm None g
             | Some sel \<Rightarrow>
                 (case selector_select sel of
                    Panic m \<Rightarrow> Panic m
                  | Diverges \<Rightarrow> Diverges
                  | Done (idx, sel) \<Rightarrow> handle_match H env req method request_id rm (Some idx) (g\<lparr>g_selector := Some sel\<rparr>))))"

section \<open>The handler always answers\<close>

text \<open>
  What the handler relies on: its fixed header names and values are valid, and a value that was read
  from a header as text is valid again.
\<close>

definition http_texts_ok :: "'h http \<Rightarrow> bool" where
  "http_texts_ok H \<longleftrightarrow>
     (\<forall>n\<in>{''Content-Type'', ''X-Request-ID'', ''Retry-After''}. \<not> isl (ht_name H n)) \<and>
     (\<forall>v\<in>{''text/plain'', ''application/json'', ''1'', ''30''}. \<not> isl (ht_value H v)) \<and>
     (\<forall>v s. ht_to_str H v = Some s \<longrightarrow> \<not> isl (ht_value H s))"

definition env_ok :: "'h http \<Rightarrow> ('h, 's) request_env \<Rightarrow> bool" where
  "env_ok H env \<longleftrightarrow> \<not> isl (ht_value H (re_uuid env)) \<and> \<not> isl (ht_value H (re_format_type env))"

definition workers_ok :: "('r, 's) gateway \<Rightarrow> bool" where
  "workers_ok g \<longleftrightarrow>
     pred_option (\<lambda>sel. 0 < ws_num_workers sel \<and>
       map_option length (fs_workers (g_fwd g)) \<in> {None, Some (ws_num_workers sel)}) (g_selector g)"

lemma build_headers_ok:
  "list_all (\<lambda>(n, v). \<not> isl (ht_name H n) \<and> \<not> isl (ht_value H v)) hs \<Longrightarrow> \<exists>h'. build_headers H hs h = Inr h'"
proof (induction hs arbitrary: h)
  case (Cons nv hs)
  then show ?case by (cases nv) (auto split: sum.splits)
qed simp

lemma build_response_ok:
  assumes "list_all (\<lambda>(n, v). \<not> isl (ht_name H n) \<and> \<not> isl (ht_value H v)) hs"
  shows "\<exists>resp. unwrap (build_response H code hs body) = Done resp \<and> rp_status resp = code"
  using build_headers_ok [OF assms, of "ht_empty H"] by (auto simp: build_response_def)

lemma fixed_responses:
  assumes "http_texts_ok H"
  shows "\<exists>resp. build_error_response H code msg = Done resp \<and> rp_status resp = code"
    "\<exists>resp. build_rate_limit_response H = Done resp \<and> rp_status resp = 429"
    "\<exists>resp. build_circuit_breaker_response H = Done resp \<and> rp_status resp = 503"
    "\<exists>resp. serve_healthz_endpoint H = Done resp \<and> rp_status resp = 200"
    "\<exists>resp. serve_status_endpoint H up r = Done resp \<and> rp_status resp = 200"
  using assms
  by (auto simp: http_texts_ok_def build_error_response_def build_rate_limit_response_def
      build_circuit_breaker_response_def serve_healthz_endpoint_def serve_status_endpoint_def
      intro!: build_response_ok)

lemma id_responses:
  assumes "http_texts_ok H" "\<not> isl (ht_value H rid)"
  shows "\<exists>resp. error_to_response H e rid = Done resp \<and> rp_status resp = pe_status_code e"
    "\<exists>resp. build_not_found_response H rid = Done resp \<and> rp_status resp = 404"
  using assms
  by (auto simp: http_texts_ok_def error_to_response_def build_not_found_response_def intro!: build_response_ok)

lemma metrics_done:
  assumes "http_texts_ok H" "env_ok H env"
  shows "\<exists>resp. serve_metrics_endpoint H env = Done resp"
proof (cases "re_metrics_text env")
  case (Inl e)
  then show ?thesis using fixed_responses(1) [OF assms(1)] by (auto simp: serve_metrics_endpoint_def)
next
  case (Inr t)
  have "list_all (\<lambda>(n, v). \<not> isl (ht_name H n) \<and> \<not> isl (ht_value H v)) [(''Content-Type'', re_format_type env)]"
    using assms by (simp add: http_texts_ok_def env_ok_def)
  from build_response_ok [OF this] show ?thesis
    unfolding serve_metrics_endpoint_def Inr sum.case Let_def by blast
qed

lemma request_id_ok: "http_texts_ok H \<Longrightarrow> env_ok H env \<Longrightarrow> \<not> isl (ht_value H (request_id_of H req (re_uuid env)))"
  by (auto simp: request_id_of_def http_texts_ok_def env_ok_def split: option.splits bind_splits)

lemma finalize_ok:
  assumes "http_texts_ok H" "\<not> isl (ht_value H rid)"
  shows "\<exists>resp. finalize_response H result filters rid = Done resp"
  using fixed_responses(1) [OF assms(1)] id_responses(1) [OF assms]
  by (fastforce simp: finalize_response_def split: sum.split option.split prod.split)

lemma get_sender_done:
  assumes "case (fs_workers st, wi) of (Some ws, Some i) \<Rightarrow> i < length ws | _ \<Rightarrow> True"
  shows "\<exists>r st'. get_sender running env b wi st = Done (r, st') \<and>
    map_option length (fs_workers st') = map_option length (fs_workers st)"
  using assms by (auto simp: get_sender_def split: option.splits prod.split async.split)

lemma forward_done:
  assumes "case (fs_workers st, wi) of (Some ws, Some i) \<Rightarrow> i < length ws | _ \<Rightarrow> True"
  shows "\<exists>r st'. forward_to_backend H overall env req b wi tc st = Done (r, st') \<and>
    map_option length (fs_workers st') = map_option length (fs_workers st)"
proof -
  have send: "\<exists>r st'. send_to_backend H running env b wi breq h2 fb st = Done (r, st') \<and>
      map_option length (fs_workers st') = map_option length (fs_workers st)" for running breq h2 fb
    using get_sender_done [OF assms, of running env b]
    by (fastforce simp: send_to_backend_def http1_fallback_def Let_def split: async.split sum.split option.split)
  have "\<exists>r st'. forward_result H bt (send_to_backend H running env b wi breq h2 fb st) = Done (r, st') \<and>
      map_option length (fs_workers st') = map_option length (fs_workers st)" for bt running breq h2 fb
    using send [of running breq h2 fb] forward_result_done by fastforce
  then show ?thesis by (simp add: forward_to_backend_def Let_def split: async.split sum.split)
qed

text \<open>
  A silent network, during the first attempt or a retry; and a request that no timer bounds: its
  route has no timeout for the whole request, or it may be retried.
\<close>

definition silent :: "('h, 's) request_env \<Rightarrow> bool" where
  "silent env \<longleftrightarrow> fwd_silent (re_fwd env) \<or> (\<exists>attempt q. re_retry env attempt q = None)"

definition unbounded :: "RouteMatch \<Rightarrow> HttpMethod \<Rightarrow> bool" where
  "unbounded rm method \<longleftrightarrow> Option.bind (rm_timeout rm) to_request = None \<or>
     rm_retry rm \<noteq> None \<and> (method = GET \<or> method = HEAD)"

lemma retry_loop_cases:
  "(\<exists>x. retry_loop H cfg client breq as r = Done x) \<or>
   (retry_loop H cfg client breq as r = Diverges \<and> (\<exists>attempt q. client attempt q = None))"
proof (induction as arbitrary: r)
  case (Cons a as)
  show ?case
  proof (cases breq)
    case (Inr q)
    show ?thesis
    proof (cases "client a q")
      case (Some answer)
      let ?r = "case answer of Inr resp \<Rightarrow> Inr resp | Inl e \<Rightarrow> Inl (ErrBackend (''Retry request failed: '' @ e))"
      show ?thesis using Cons [of ?r] Inr Some by (cases "should_retry cfg ?r") (auto simp: Let_def)
    qed (use Inr in \<open>auto simp: Let_def\<close>)
  qed (simp add: Let_def)
qed simp

lemma first_attempt_cases:
  assumes "case (fs_workers st, wi) of (Some ws, Some i) \<Rightarrow> i < length ws | _ \<Rightarrow> True"
  shows "(\<exists>r st'. first_attempt H env req rm wi ot st = Done (r, st') \<and>
      map_option length (fs_workers st') = map_option length (fs_workers st)) \<or>
    (first_attempt H env req rm wi ot st = Diverges \<and> ot = None \<and> fwd_silent env)"
proof -
  obtain ar st' where fwd: "forward_to_backend H (ot \<noteq> None) env req (rm_backend rm) wi (rm_timeout rm) st = Done (ar, st')"
      "map_option length (fs_workers st') = map_option length (fs_workers st)"
    using forward_done [OF assms] by blast
  show ?thesis
  proof (cases ar)
    case Stalled
    with fwd(1) forward_stalled [OF fwd(1) [unfolded Stalled]] show ?thesis
      by (auto simp: first_attempt_def fwd_silent_def)
  qed (use fwd in \<open>simp_all add: first_attempt_def\<close>)
qed

lemma execute_cases:
  assumes "case (fs_workers st, wi) of (Some ws, Some i) \<Rightarrow> i < length ws | _ \<Rightarrow> True"
  shows "(\<exists>r ds st'. execute_request_with_retry H env req rm method path wi st = Done (r, ds, st') \<and>
      map_option length (fs_workers st') = map_option length (fs_workers st)) \<or>
    (execute_request_with_retry H env req rm method path wi st = Diverges \<and> silent env \<and> unbounded rm method)"
proof -
  let ?ot = "Option.bind (rm_timeout rm) to_request"
  note unfold = execute_request_with_retry_def execute_with_retry_def execute_without_retry_def split_def Let_def
  consider r st' where "first_attempt H (re_fwd env) req rm wi ?ot st = Done (r, st')"
      "map_option length (fs_workers st') = map_option length (fs_workers st)"
    | "first_attempt H (re_fwd env) req rm wi ?ot st = Diverges" "?ot = None" "fwd_silent (re_fwd env)"
    using first_attempt_cases [OF assms, where H = H and env = "re_fwd env" and req = req and rm = rm and ot = ?ot] by (elim disjE exE conjE) simp_all
  then show ?thesis
  proof cases
    case (1 r st')
    show ?thesis
    proof (cases "rm_retry rm")
      case (Some cfg)
      let ?loop = "retry_loop H cfg (re_retry env) (build_request H (if method = HEAD then ''HEAD'' else ''GET'')
        (''http://'' @ show_backend (rm_backend rm) @ path) (retry_headers H (rq_headers req))
        (show_backend (rm_backend rm)) []) [1..<unat (rc_max_retries cfg + 1)] r"
      have "(\<exists>x. ?loop = Done x) \<or> (?loop = Diverges \<and> (\<exists>attempt q. re_retry env attempt q = None))"
        by (rule retry_loop_cases)
      then have "(\<exists>x. ?loop = Done x) \<or> ?loop = Diverges \<and> silent env" by (simp only: silent_def) blast
      with 1 Some show ?thesis by (auto simp: unfold unbounded_def)
    qed (use 1 in \<open>simp add: unfold\<close>)
  next
    case 2
    then show ?thesis
      by (cases "rm_retry rm") (simp_all add: unfold silent_def unbounded_def)
  qed
qed

lemma record_request_metrics_frame [simp]:
  "g_fwd (record_request_metrics res m p wi d now b bid g) = g_fwd g"
  "g_selector (record_request_metrics res m p wi d now b bid g) = g_selector g"
  "g_limiter (record_request_metrics res m p wi d now b bid g) = g_limiter g"
  by (auto simp: record_request_metrics_def Let_def split: sum.split ProxyError.split)

lemma record_request_metrics_reach:
  "router_reach M (g_router g) \<Longrightarrow> router_reach M (g_router (record_request_metrics res m p wi d now b bid g))"
  by (auto simp: record_request_metrics_def Let_def split: sum.split ProxyError.split intro: router_reach.response)

lemma handle_match_cases:
  assumes ok: "http_texts_ok H" "\<not> isl (ht_value H rid)" and reach: "router_reach M (g_router g)"
    and wi: "case (fs_workers (g_fwd g), wi) of (Some ws, Some i) \<Rightarrow> i < length ws | _ \<Rightarrow> True"
  shows "(\<exists>resp g'. handle_match H env req method rid rm wi g = Done (resp, g') \<and> router_reach M (g_router g') \<and>
      g_selector g' = g_selector g \<and> map_option length (fs_workers (g_fwd g')) = map_option length (fs_workers (g_fwd g))) \<or>
    (handle_match H env req method rid rm wi g = Diverges \<and> silent env \<and> unbounded rm method)"
proof -
  obtain adm lim where rl: "check_rate_limit (re_rate_time env) (re_rate_later env) (rm_pattern rm) (g_limiter g) = (adm, lim)"
    by fastforce
  obtain al br where cb: "cbm_allow_request (re_allow_time env) (show_backend (rm_backend rm)) (g_breakers g) = (al, br)"
    by fastforce
  obtain fr req' where fl: "(case rm_request_filters rm of Some filters \<Rightarrow> apply_request_filters H filters req | None \<Rightarrow> (Inr (), req)) = (fr, req')"
    by fastforce
  let ?ex = "execute_request_with_retry H env req' rm method
    (case rq_path_and_query req' of Some pq \<Rightarrow> pq | None \<Rightarrow> rq_path req') wi (g_fwd g)"
  obtain er where er: "build_error_response H c msg = Done (er c msg)" for c msg
    using fixed_responses(1) [OF ok(1)] by metis
  show ?thesis
  proof (cases "rm_redirect rm")
    case (Some rd)
    then show ?thesis
      using reach by (simp add: handle_match_def with_state_def er split: sum.split)
  next
    case None
    note unfold = handle_match_def with_state_def None rl fl cb Let_def
    consider "\<not> adm" | e where "adm" "fr = Inl e" | "adm" "fr = Inr ()" "\<not> al" | "adm" "fr = Inr ()" "al"
      by (cases fr) auto
    then show ?thesis
    proof cases
      case 1
      then show ?thesis using fixed_responses(2) [OF ok(1)] reach by (auto simp: unfold)
    next
      case 2
      then show ?thesis using reach by (simp add: unfold er)
    next
      case 3
      then show ?thesis using fixed_responses(3) [OF ok(1)] reach by (auto simp: unfold)
    next
      case 4
      consider r ds st' where "?ex = Done (r, ds, st')"
          "map_option length (fs_workers st') = map_option length (fs_workers (g_fwd g))"
        | "?ex = Diverges" "silent env" "unbounded rm method"
        using execute_cases [OF wi, where H = H and env = env and req = req' and rm = rm] by blast
      then show ?thesis
      proof cases
        case (1 r ds st')
        moreover obtain resp where "finalize_response H r (rm_response_filters rm) rid = Done resp"
          using finalize_ok [OF ok] by blast
        ultimately show ?thesis using 4 reach by (simp add: unfold record_request_metrics_reach)
      next
        case 2
        with 4 show ?thesis by (simp add: unfold)
      qed
    qed
  qed
qed

abbreviation own_endpoint :: "'h Request \<Rightarrow> bool" where
  "own_endpoint req \<equiv> rq_path req \<in> {''/metrics'', ''/healthz'', ''/status''} \<and> rq_method req = ''GET''"

lemma own_endpoint_done:
  assumes "http_texts_ok H" "env_ok H env" "own_endpoint req"
  shows "\<exists>resp. handle_request M H env req g = Done (resp, g)"
proof -
  obtain resp where "serve_status_endpoint H (re_uptime_secs env) (g_router g) = Done resp"
    using fixed_responses(5) [OF assms(1)] by blast
  then show ?thesis
    using assms(3) metrics_done [OF assms(1,2)] fixed_responses(4) [OF assms(1)]
    by (auto simp: handle_request_def with_state_def)
qed

lemma handle_request_routes:
  assumes "\<not> own_endpoint req"
    "select_backend M (method_of (rq_method req)) (rq_path req) None None (g_router g) = Done (rm, r')"
  shows "handle_request M H env req g =
    (let m = method_of (rq_method req); rid = request_id_of H req (re_uuid env) in
     case rm of
       None \<Rightarrow> with_state (record_not_found_metrics m (re_done_time env - re_start env) (g\<lparr>g_router := r'\<rparr>)) (build_not_found_response H rid)
     | Some rm \<Rightarrow>
         (case g_selector g of
            None \<Rightarrow> handle_match H env req m rid rm None (g\<lparr>g_router := r'\<rparr>)
          | Some sel \<Rightarrow>
              (case selector_select sel of
                 Panic m \<Rightarrow> Panic m
               | Diverges \<Rightarrow> Diverges
               | Done (idx, sel) \<Rightarrow> handle_match H env req m rid rm (Some idx) (g\<lparr>g_router := r', g_selector := Some sel\<rparr>))))"
  using assms by (auto simp: handle_request_def Let_def split: option.split)

lemma worker_choice:
  assumes "workers_ok g"
  obtains wi sel where
    "(case g_selector g of
        None \<Rightarrow> k None g
      | Some sel \<Rightarrow>
          (case selector_select sel of
             Panic m \<Rightarrow> Panic m
           | Diverges \<Rightarrow> Diverges
           | Done (idx, sel) \<Rightarrow> k (Some idx) (g\<lparr>g_selector := Some sel\<rparr>))) = k wi (g\<lparr>g_selector := sel\<rparr>)"
    "case (fs_workers (g_fwd g), wi) of (Some ws, Some i) \<Rightarrow> i < length ws | _ \<Rightarrow> True"
    "workers_ok (g\<lparr>g_selector := sel\<rparr>)"
proof (cases "g_selector g")
  case None
  then have "g\<lparr>g_selector := None\<rparr> = g" by (cases g) simp
  with None that [of None None] assms show ?thesis by (simp split: option.split)
next
  case (Some sel)
  then show ?thesis
    using that [of "Some (unat (ws_counter sel) mod ws_num_workers sel)" "Some (sel\<lparr>ws_counter := ws_counter sel + 1\<rparr>)"] assms
    by (auto simp: selector_select_def workers_ok_def split: option.split)
qed

lemma workers_ok_frame:
  "g_selector g' = g_selector g \<Longrightarrow> map_option length (fs_workers (g_fwd g')) = map_option length (fs_workers (g_fwd g)) \<Longrightarrow>
    workers_ok g' \<longleftrightarrow> workers_ok g"
  by (simp only: workers_ok_def)

text \<open>
  C5: For every request, every state the router can reach and every behaviour of the network, the limiter
  and the breakers, the request handler does not panic: it returns a response, and leaves a state
  in which this holds again, unless it waits for ever. It waits for ever only if the network is silent
  for ever at some point (the client stops sending its body, or the backend never answers), and only
  for a request that matches a route without a timeout for the whole request, or one that may be
  retried, because the timeout does not cover the retries.
\<close>

theorem handler_never_panics:
  assumes "http_texts_ok H" "env_ok H env" "router_reach M (g_router g)" "workers_ok g"
  shows "(\<exists>resp g'. handle_request M H env req g = Done (resp, g') \<and> router_reach M (g_router g') \<and> workers_ok g') \<or>
    (handle_request M H env req g = Diverges \<and> silent env \<and>
     (\<exists>rm r'. select_backend M (method_of (rq_method req)) (rq_path req) None None (g_router g) = Done (Some rm, r') \<and>
        unbounded rm (method_of (rq_method req))))"
proof -
  let ?m = "method_of (rq_method req)" and ?rid = "request_id_of H req (re_uuid env)"
  note rid = request_id_ok [OF assms(1,2), of req]
  obtain rm r' where sel: "select_backend M ?m (rq_path req) None None (g_router g) = Done (rm, r')"
    using select_backend_choose [OF router_reach_inv [OF assms(3)]] by blast
  then have reach: "router_reach M r'" using router_reach.select [OF assms(3)] by blast
  have ok: "workers_ok (g\<lparr>g_router := r'\<rparr>)" using assms(4) by (simp add: workers_ok_def)
  consider "own_endpoint req" | "\<not> own_endpoint req" "rm = None" | rm' where "\<not> own_endpoint req" "rm = Some rm'"
    by (cases rm) auto
  then show ?thesis
  proof cases
    case 1
    then show ?thesis using own_endpoint_done [OF assms(1,2) 1] assms(3,4) by fastforce
  next
    case 2
    then show ?thesis
      using id_responses(2) [OF assms(1) rid] reach assms(4)
      by (auto simp: handle_request_routes [OF 2(1) sel] with_state_def record_not_found_metrics_def workers_ok_def Let_def)
  next
    case 3
    obtain wi s where wi: "handle_request M H env req g = handle_match H env req ?m ?rid rm' wi (g\<lparr>g_router := r', g_selector := s\<rparr>)"
        "case (fs_workers (g_fwd g), wi) of (Some ws, Some i) \<Rightarrow> i < length ws | _ \<Rightarrow> True"
        "workers_ok (g\<lparr>g_router := r', g_selector := s\<rparr>)"
      by (rule worker_choice [OF ok, of "handle_match H env req ?m ?rid rm'"])
        (simp_all add: handle_request_routes [OF 3(1) sel] 3(2) Let_def)
    from handle_match_cases [OF assms(1) rid, of M "g\<lparr>g_router := r', g_selector := s\<rparr>" wi env req ?m rm'] reach wi(2)
    consider resp g' where "handle_match H env req ?m ?rid rm' wi (g\<lparr>g_router := r', g_selector := s\<rparr>) = Done (resp, g')"
        "router_reach M (g_router g')" "g_selector g' = s"
        "map_option length (fs_workers (g_fwd g')) = map_option length (fs_workers (g_fwd g))"
      | "handle_match H env req ?m ?rid rm' wi (g\<lparr>g_router := r', g_selector := s\<rparr>) = Diverges" "silent env" "unbounded rm' ?m"
      by auto
    then show ?thesis
    proof cases
      case 1
      then show ?thesis
        using wi(1,3) workers_ok_frame [of _ "g\<lparr>g_router := r', g_selector := s\<rparr>"] by simp
    next
      case 2
      then show ?thesis using wi(1) sel 3(2) by simp
    qed
  qed
qed

section \<open>A gateway with one route\<close>

definition plain_env :: "((string \<times> string) list, nat) request_env" where
  "plain_env =
     \<lparr>re_uuid = ''id-1'', re_metrics_text = Inr [], re_format_type = ''text/plain'', re_pool_metrics = None,
      re_gateway_index = None, re_uptime_secs = 0, re_start = 0, re_rate_time = 0, re_rate_later = 0, re_allow_time = 0,
      re_done_time = 0, re_fwd = failing_h2, re_retry = (\<lambda>_ _. Some (Inl ''refused''))\<rparr>"

definition plain_gateway :: "'r Router \<Rightarrow> ('r, nat) gateway" where
  "plain_gateway r =
     \<lparr>g_router = r, g_limiter = rl_new, g_breakers = cbm_new 5 30000000000, g_selector = None, g_fwd = fwd_start, g_http = []\<rparr>"

lemma list_http_texts: "http_texts_ok list_http"
  by (auto simp: http_texts_ok_def list_http_def split: if_splits)

lemma plain_env_ok: "env_ok list_http plain_env"
  by (simp add: env_ok_def list_http_def plain_env_def)

lemma plain_workers_ok: "workers_ok (plain_gateway r)"
  by (simp add: workers_ok_def plain_gateway_def)

lemma plain_env_answers: "\<not> silent plain_env"
  by (simp add: silent_def fwd_silent_def plain_env_def failing_h2_def)

theorem handler_never_panics_witness:
  "\<exists>r resp g'. router_reach list_matchit r \<and> routes r \<noteq> [] \<and>
     handle_request list_matchit list_http plain_env plain_get (plain_gateway r) = Done (resp, g')"
proof -
  obtain r t where r: "router_reach list_matchit r" "routes r = [(key_of GET ''/a'', plain_route ''/a'' [backend_new 1 80 1] t)]"
    using one_route [of "backend_new 1 80 1"] by blast
  then have "router_reach list_matchit (g_router (plain_gateway r))" by (simp add: plain_gateway_def)
  then show ?thesis
    using handler_never_panics [OF list_http_texts plain_env_ok _ plain_workers_ok, of list_matchit r plain_get] r plain_env_answers
    by auto
qed

end
