(* ===== verification/Request_Paths.thy ===== *)
theory Request_Paths
  imports Request_Handler
begin

text \<open>
  What a request can meet on its way through \<open>handle_request\<close>: rejection by the limiter or the
  breaker, a route with no usable backend, the retries, and the account that the breaker keeps of
  the requests it admitted.
\<close>

section \<open>Requests that are shed\<close>

lemma handle_match_limited:
  assumes "rm_redirect rm = None"
    "check_rate_limit (re_rate_time env) (re_rate_later env) (rm_pattern rm) (g_limiter g) = (False, l)"
  shows "handle_match H env req method rid rm wi g = with_state (g\<lparr>g_limiter := l\<rparr>) (build_rate_limit_response H)"
  using assms by (simp add: handle_match_def)

lemma handle_match_refused:
  assumes "rm_redirect rm = None"
    "check_rate_limit (re_rate_time env) (re_rate_later env) (rm_pattern rm) (g_limiter g) = (True, l)"
    "(case rm_request_filters rm of Some fs \<Rightarrow> apply_request_filters H fs req | None \<Rightarrow> (Inr (), req)) = (Inr (), req')"
    "cbm_allow_request (re_allow_time env) (show_backend (rm_backend rm)) (g_breakers g) = (False, br)"
  shows "handle_match H env req method rid rm wi g =
    with_state (g\<lparr>g_limiter := l, g_breakers := br\<rparr>) (build_circuit_breaker_response H)"
  using assms by (simp add: handle_match_def)

lemma handle_match_admitted:
  assumes "rm_redirect rm = None"
    "check_rate_limit (re_rate_time env) (re_rate_later env) (rm_pattern rm) (g_limiter g) = (True, l)"
    "(case rm_request_filters rm of Some fs \<Rightarrow> apply_request_filters H fs req | None \<Rightarrow> (Inr (), req)) = (Inr (), req')"
    "cbm_allow_request (re_allow_time env) (show_backend (rm_backend rm)) (g_breakers g) = (True, br)"
    "execute_request_with_retry H env req' rm method
       (case rq_path_and_query req' of Some pq \<Rightarrow> pq | None \<Rightarrow> rq_path req') wi (g_fwd g) = Done (res, ds, st)"
  shows "handle_match H env req method rid rm wi g =
    with_state (record_request_metrics res method (rm_pattern rm) wi (re_done_time env - re_start env) (re_done_time env)
        (rm_backend rm) (show_backend (rm_backend rm)) (g\<lparr>g_limiter := l, g_breakers := br, g_fwd := st\<rparr>))
      (finalize_response H res (rm_response_filters rm) rid)"
  using assms by (simp add: handle_match_def)

lemma handle_request_match:
  assumes "\<not> own_endpoint req"
    "select_backend M (method_of (rq_method req)) (rq_path req) None None (g_router g) = Done (Some rm, r')" "workers_ok g"
  shows "\<exists>wi s. handle_request M H env req g =
    handle_match H env req (method_of (rq_method req)) (request_id_of H req (re_uuid env)) rm wi (g\<lparr>g_router := r', g_selector := s\<rparr>)"
proof -
  have "workers_ok (g\<lparr>g_router := r'\<rparr>)" using assms(3) by (simp add: workers_ok_def)
  then show ?thesis
    by (rule worker_choice [of _ "handle_match H env req (method_of (rq_method req)) (request_id_of H req (re_uuid env)) rm"])
      (auto simp: handle_request_routes [OF assms(1,2)] Let_def)
qed

text \<open>
  C9: A request that the limiter rejects is answered with 429 and one that the breaker of its backend
  refuses with 503. In both cases no backend is contacted and nothing is recorded about it: the
  connection pools, the health of the backends and the request metrics stay as they are, and a request
  that the limiter rejects does not reach the breaker.
\<close>

theorem shed_before_backend:
  assumes "http_texts_ok H" "workers_ok g" "\<not> own_endpoint req"
    "select_backend M (method_of (rq_method req)) (rq_path req) None None (g_router g) = Done (Some rm, r')"
    "rm_redirect rm = None"
    "check_rate_limit (re_rate_time env) (re_rate_later env) (rm_pattern rm) (g_limiter g) = (admitted, l)"
    "(case rm_request_filters rm of Some fs \<Rightarrow> apply_request_filters H fs req | None \<Rightarrow> (Inr (), req)) = (Inr (), req')"
    "cbm_allow_request (re_allow_time env) (show_backend (rm_backend rm)) (g_breakers g) = (allowed, br)"
    "\<not> (admitted \<and> allowed)"
  shows "\<exists>resp g'. handle_request M H env req g = Done (resp, g') \<and>
    rp_status resp = (if admitted then 503 else 429) \<and>
    g_fwd g' = g_fwd g \<and> g_http g' = g_http g \<and> g_router g' = r' \<and> g_limiter g' = l \<and>
    g_breakers g' = (if admitted then br else g_breakers g)"
proof -
  obtain wi s where h: "handle_request M H env req g =
      handle_match H env req (method_of (rq_method req)) (request_id_of H req (re_uuid env)) rm wi (g\<lparr>g_router := r', g_selector := s\<rparr>)"
    using handle_request_match [OF assms(3,4,2)] by blast
  show ?thesis
  proof (cases admitted)
    case True
    with assms show ?thesis
      using fixed_responses(3) [OF assms(1)] by (auto simp: h handle_match_refused with_state_def)
  next
    case False
    with assms show ?thesis
      using fixed_responses(2) [OF assms(1)] by (auto simp: h handle_match_limited with_state_def)
  qed
qed

section \<open>Requests without a backend\<close>

text \<open>
  A request whose route exists but has no usable backend is answered like a request without a
  route: 404, counted under \<open>not_found\<close>, with no backend contacted, no matter whether the route is a
  redirect.
\<close>

theorem route_without_backend_not_found:
  assumes "http_texts_ok H" "env_ok H env" "router_reach M (g_router g)" "\<not> own_endpoint req"
    "fst (resolve_cached M (method_of (rq_method req)) (rq_path req) (g_router g)) = Some k"
    "map_of (routes (g_router g)) k = Some route"
    "\<forall>b\<in>set (rt_backends route). \<not> usable_backend (g_router g) b"
  shows "\<exists>resp g'. handle_request M H env req g = Done (resp, g') \<and> rp_status resp = 404 \<and>
    g_fwd g' = g_fwd g \<and> g_breakers g' = g_breakers g \<and> g_limiter g' = g_limiter g"
proof -
  let ?m = "method_of (rq_method req)" and ?flow = "compute_flow_hash (fnv1a_hash (as_bytes (rq_path req))) None None"
  note inv = router_reach_inv [OF assms(3)] and rid = request_id_ok [OF assms(1,2), of req]
  have "maglev_build_compact_table (rt_backends route) = Done (rt_maglev_table route)"
    using inv assms(6) by (simp add: router_inv_def)
  from flow_candidates_set(1) [OF this, of ?flow] assms(7)
  have "find (usable_backend (g_router g)) (flow_candidates route ?flow) = None" by (auto simp: find_None_iff)
  then have "select_backend M ?m (rq_path req) None None (g_router g) =
      Done (None, snd (resolve_cached M ?m (rq_path req) (g_router g)))"
    by (simp add: select_backend_choose [OF inv] assms(5,6) choose_backend_def)
  from handle_request_routes [OF assms(4) this] id_responses(2) [OF assms(1) rid] show ?thesis
    by (auto simp: with_state_def record_not_found_metrics_def Let_def)
qed

section \<open>Retries\<close>

text \<open>The result of an attempt that is answered.\<close>

definition retry_outcome :: "(nat \<Rightarrow> 'h BackendRequest \<Rightarrow> (string + 'h Response) option) \<Rightarrow> 'h BackendRequest \<Rightarrow> nat \<Rightarrow> ProxyError + 'h Response" where
  "retry_outcome client q a =
     (case the (client a q) of Inr resp \<Rightarrow> Inr resp | Inl e \<Rightarrow> Inl (ErrBackend (''Retry request failed: '' @ e)))"

text \<open>The attempts that are made: up to the first one whose result is not to be retried.\<close>

definition tried :: "RetryConfig \<Rightarrow> (nat \<Rightarrow> ProxyError + 'h Response) \<Rightarrow> nat list \<Rightarrow> nat list" where
  "tried cfg f as = take (Suc (length (takeWhile (\<lambda>a. should_retry cfg (f a)) as))) as"

lemma retry_loop_tried:
  assumes "retry_loop H cfg client (Inr q) as r = Done (res, ds)" "as \<noteq> []"
  shows "res = retry_outcome client q (last (tried cfg (retry_outcome client q) as)) \<and>
    ds = map (\<lambda>a. calculate_delay cfg (of_nat a - 1)) (tried cfg (retry_outcome client q) as)"
  using assms
proof (induction as arbitrary: r ds)
  case (Cons a as)
  let ?r = "retry_outcome client q a"
  obtain answer where ans: "client a q = Some answer" using Cons.prems by (cases "client a q") (simp_all add: Let_def)
  show ?case
  proof (cases "should_retry cfg ?r")
    case True
    then obtain ds' where ds: "retry_loop H cfg client (Inr q) as ?r = Done (res, ds')"
        "ds = calculate_delay cfg (of_nat a - 1) # ds'"
      using Cons.prems ans by (auto simp: Let_def retry_outcome_def map_outcome_Done)
    show ?thesis
    proof (cases "as = []")
      case False
      with Cons.IH [OF ds(1)] ds(2) True show ?thesis by (auto simp: tried_def)
    qed (use ds True in \<open>simp add: tried_def\<close>)
  next
    case False
    with Cons.prems ans show ?thesis by (auto simp: Let_def retry_outcome_def tried_def)
  qed
qed simp

lemma tried_cases: "tried cfg f as = as \<or> (tried cfg f as \<noteq> [] \<and> \<not> should_retry cfg (f (last (tried cfg f as))))"
proof (induction as)
  case (Cons a as)
  then show ?case by (auto simp: tried_def)
qed (simp add: tried_def)

lemma tried_upt: "\<exists>k\<le>n. tried cfg f [1..<Suc n] = map Suc [0..<k]"
proof -
  have "tried cfg f [1..<Suc n] = map Suc (take (Suc (length (takeWhile (\<lambda>a. should_retry cfg (f a)) [1..<Suc n]))) [0..<n])"
    by (simp only: tried_def One_nat_def map_Suc_upt [symmetric] take_map)
  moreover have "take j [0..<n] = [0..<min j n]" for j
    by (cases "j \<le> n") (simp_all add: take_upt)
  ultimately show ?thesis by (metis min.cobounded2)
qed

lemma execute_with_retry_result:
  assumes "execute_with_retry H env req rm path wi ot cfg method st = Done (res, delays, st')"
  shows "length delays \<le> unat (rc_max_retries cfg) \<and>
    delays = map (\<lambda>i. calculate_delay cfg (of_nat i)) [0..<length delays] \<and>
    (should_retry cfg res \<and> unat (rc_max_retries cfg) < 2 ^ 32 - 1 \<longrightarrow>
       length delays = unat (rc_max_retries cfg) \<or> (\<exists>e. res = Inl (ErrBackend (''Failed to build retry request: '' @ e))))"
proof -
  let ?n = "unat (rc_max_retries cfg)"
  obtain first st1 where first: "first_attempt H (re_fwd env) req rm wi ot st = Done (first, st1)"
    using assms by (cases "first_attempt H (re_fwd env) req rm wi ot st") (auto simp: execute_with_retry_def Let_def)
  show ?thesis
  proof (cases "\<not> should_retry cfg first \<or> rc_max_retries cfg + 1 \<le> 1")
    case True
    then have "?n < 2 ^ 32 - 1 \<Longrightarrow> should_retry cfg first \<Longrightarrow> ?n = 0"
      by (auto simp: word_le_nat_alt unat_word_ariths)
    with True assms first show ?thesis by (auto simp: execute_with_retry_def Let_def)
  next
    case False
    moreover have "?n < 2 ^ 32" using unsigned_less [of "rc_max_retries cfg"] by simp
    ultimately have n: "unat (rc_max_retries cfg + 1) = Suc ?n" "0 < ?n"
      by (auto simp: word_le_nat_alt unat_word_ariths mod_Suc split: if_splits)
    obtain breq where loop: "retry_loop H cfg (re_retry env) breq [1..<Suc ?n] first = Done (res, delays)"
      using assms False first n(1) by (auto simp: execute_with_retry_def Let_def map_outcome_Done split: prod.splits)
    have ne: "[1..<Suc ?n] \<noteq> []" using n(2) by simp
    show ?thesis
    proof (cases breq)
      case (Inl e)
      have "[1..<Suc ?n] = 1 # [Suc 1..<Suc ?n]" using n(2) by (intro upt_conv_Cons) simp
      with loop Inl have "res = Inl (ErrBackend (''Failed to build retry request: '' @ e))" "delays = [calculate_delay cfg 0]"
        by (simp_all add: Let_def)
      then show ?thesis using n(2) by simp
    next
      case (Inr q)
      let ?t = "tried cfg (retry_outcome (re_retry env) q) [1..<Suc ?n]"
      have r: "res = retry_outcome (re_retry env) q (last ?t)" "delays = map (\<lambda>a. calculate_delay cfg (of_nat a - 1)) ?t"
        using retry_loop_tried [OF loop [unfolded Inr] ne] by simp_all
      obtain k where k: "k \<le> ?n" "?t = map Suc [0..<k]" using tried_upt by blast
      have "length delays = ?n \<or> \<not> should_retry cfg res"
        using tried_cases [of cfg "retry_outcome (re_retry env) q" "[1..<Suc ?n]"] r by auto
      with k r show ?thesis by (auto simp: comp_def)
    qed
  qed
qed

text \<open>
  C14: When the execution of a request returns, at most \<open>max_retries\<close> attempts have followed the first
  one, and before each of them the gateway has slept the configured backoff, the one of attempt
  0, 1, 2 and so on in this order. Attempts follow only for a request whose method the proxy takes
  for \<open>GET\<close> or \<open>HEAD\<close> (it takes every method it does not know for \<open>GET\<close>). For such a request a result
  that asks for another attempt is returned only when all attempts are used up, when the request of
  an attempt could not be built, or when \<open>max_retries\<close> is \<open>2 ^ 32 - 1\<close>: then the number of attempts wraps
  to 0 and no attempt is made. A route without a retry policy has no further attempts.
\<close>

theorem retries_bounded:
  assumes "execute_request_with_retry H env req rm method path wi st = Done (res, delays, st')"
  shows "case rm_retry rm of
      None \<Rightarrow> delays = []
    | Some cfg \<Rightarrow> length delays \<le> unat (rc_max_retries cfg) \<and>
        delays = map (\<lambda>i. calculate_delay cfg (of_nat i)) [0..<length delays] \<and>
        (delays \<noteq> [] \<longrightarrow> method = GET \<or> method = HEAD) \<and>
        ((method = GET \<or> method = HEAD) \<and> should_retry cfg res \<and> unat (rc_max_retries cfg) < 2 ^ 32 - 1 \<longrightarrow>
           length delays = unat (rc_max_retries cfg) \<or> (\<exists>e. res = Inl (ErrBackend (''Failed to build retry request: '' @ e))))"
proof (cases "rm_retry rm")
  case None
  with assms show ?thesis
    by (auto simp: execute_request_with_retry_def map_outcome_Done split: prod.splits)
next
  case (Some cfg)
  show ?thesis
  proof (cases "method = GET \<or> method = HEAD")
    case False
    with assms Some show ?thesis
      by (auto simp: execute_request_with_retry_def map_outcome_Done split: prod.splits)
  next
    case True
    with assms Some have "execute_with_retry H env req rm path wi (Option.bind (rm_timeout rm) to_request) cfg method st = Done (res, delays, st')"
      by (simp add: execute_request_with_retry_def)
    from execute_with_retry_result [OF this] True Some show ?thesis by simp
  qed
qed

text \<open>
  The timeout for the whole request does not cover the retries: when the result of the first attempt,
  such as its timeout, asks for another attempt and the backend does not answer that one, the request
  is never answered, whatever timeouts the route has.
\<close>

theorem timeout_does_not_cover_retries:
  assumes "rm_retry rm = Some cfg" "method = GET \<or> method = HEAD" "1 \<le> unat (rc_max_retries cfg)" "unat (rc_max_retries cfg) < 2 ^ 32 - 1"
    and "first_attempt H (re_fwd env) req rm wi (Option.bind (rm_timeout rm) to_request) st = Done (first, st')" "should_retry cfg first"
    and "build_request H (if method = HEAD then ''HEAD'' else ''GET'') (''http://'' @ show_backend (rm_backend rm) @ path)
      (retry_headers H (rq_headers req)) (show_backend (rm_backend rm)) [] = Inr q" "re_retry env 1 q = None"
  shows "execute_request_with_retry H env req rm method path wi st = Diverges"
proof -
  have n: "unat (rc_max_retries cfg + 1) = Suc (unat (rc_max_retries cfg))"
    using assms(4) by (simp add: unat_word_ariths)
  then have "\<not> rc_max_retries cfg + 1 \<le> 1" using assms(3) by (simp add: word_le_nat_alt)
  moreover have "[1..<unat (rc_max_retries cfg + 1)] = 1 # [Suc 1..<unat (rc_max_retries cfg + 1)]"
    unfolding n using assms(3) by (intro upt_conv_Cons) simp
  ultimately show ?thesis
    using assms by (auto simp: execute_request_with_retry_def execute_with_retry_def Let_def simp del: upt_Suc)
qed

section \<open>Probes that are never settled\<close>

text \<open>Requests on one route are handled one after the other; the result is the list of status codes.\<close>

fun serve :: "'h http \<Rightarrow> RouteMatch \<Rightarrow> (('h, 's) request_env \<times> 'h Request) list \<Rightarrow> ('r, 's) gateway \<Rightarrow>
    (u16 list \<times> ('r, 's) gateway) outcome" where
  "serve H rm [] g = Done ([], g)"
| "serve H rm ((env, req) # later) g =
     (case handle_match H env req (method_of (rq_method req)) (request_id_of H req (re_uuid env)) rm None g of
        Done (resp, g') \<Rightarrow> map_outcome (\<lambda>(codes, g). (rp_status resp # codes, g)) (serve H rm later g')
      | Panic m \<Rightarrow> Panic m
      | Diverges \<Rightarrow> Diverges)"

text \<open>An upload whose body passes the limit while it is read.\<close>

definition oversized :: "('h, 's) request_env \<times> 'h Request \<Rightarrow> bool" where
  "oversized c \<longleftrightarrow> method_of (rq_method (snd c)) \<in> {POST, PUT, PATCH} \<and>
     fe_body (re_fwd (fst c)) = BodyLimit \<and> fe_elapsed (re_fwd (fst c)) = None"

text \<open>The breaker of a backend is half open and admits at most \<open>n\<close> more requests.\<close>

definition probes_left :: "string \<Rightarrow> nat \<Rightarrow> CircuitBreakerManager \<Rightarrow> bool" where
  "probes_left b n m \<longleftrightarrow>
     (case map_of (breakers m) b of
        Some cb \<Rightarrow> cb_inv cb \<and>
          (case abs_breaker (cb_packed cb) of SHalfOpen _ r \<Rightarrow> max_of cb - r \<le> n | _ \<Rightarrow> False)
      | None \<Rightarrow> False)"

lemma probes_left_zero: "probes_left b 0 m \<Longrightarrow> probes_left b n m"
  by (auto simp: probes_left_def split: option.splits breaker_spec.splits)

lemma max_of_allow [simp]: "max_of (snd (allow_request now cb)) = max_of cb"
  by (auto simp: allow_request_def split: decision.split)

lemma half_open_allow:
  assumes "probes_left b n m" "cbm_allow_request now b m = (a, m')"
  shows "if a then 0 < n \<and> probes_left b (n - 1) m' else probes_left b 0 m'"
proof -
  obtain cb u r where cb: "map_of (breakers m) b = Some cb" "cb_inv cb" "abs_breaker (cb_packed cb) = SHalfOpen u r" "max_of cb - r \<le> n"
    using assms(1) by (auto simp: probes_left_def split: option.split_asm breaker_spec.split_asm)
  have ok: "config_ok cb" "word_ok cb (cb_packed cb)" using cb(2) by (simp_all add: cb_inv_def)
  have "spec_allow (max_of cb) (should_attempt_reset cb now) (abs_breaker (cb_packed cb)) =
      (fst (allow_request now cb), abs_breaker (cb_packed (snd (allow_request now cb))))"
    using allow_decide_abs [OF ok, of "should_attempt_reset cb now"]
    by (auto simp: allow_request_def split: decision.splits)
  from this [symmetric] have "fst (allow_request now cb) \<longleftrightarrow> r < max_of cb"
      "abs_breaker (cb_packed (snd (allow_request now cb))) = SHalfOpen u (if r < max_of cb then r + 1 else r)"
    by (simp_all add: cb(3) split: if_splits)
  moreover have "a = fst (allow_request now cb)" "map_of (breakers m') b = Some (snd (allow_request now cb))"
    using assms(2) cb(1) by (auto simp: cbm_allow_request_def get_breaker_def put_breaker_def log_metrics_def Let_def update_conv' split: prod.splits)
  ultimately show ?thesis
    using cb(4) allow_request_inv [OF cb(2), of now] by (auto simp: probes_left_def)
qed

text \<open>A route without redirect, request filters and rate limit, as the limiter sees it.\<close>

definition open_route :: "RouteMatch \<Rightarrow> ('r, 's) gateway \<Rightarrow> bool" where
  "open_route rm g \<longleftrightarrow> rm_redirect rm = None \<and> rm_request_filters rm = None \<and>
     map_of (buckets (g_limiter g)) (rm_pattern rm) = None"

lemma serve_blocked:
  assumes "http_texts_ok H" "open_route rm g" "probes_left (show_backend (rm_backend rm)) 0 (g_breakers g)"
  shows "\<exists>resp g'. handle_match H env req method rid rm wi g = Done (resp, g') \<and> rp_status resp = 503 \<and>
    open_route rm g' \<and> probes_left (show_backend (rm_backend rm)) 0 (g_breakers g') \<and> g_fwd g' = g_fwd g"
proof -
  obtain br where br: "cbm_allow_request (re_allow_time env) (show_backend (rm_backend rm)) (g_breakers g) = (False, br)"
      "probes_left (show_backend (rm_backend rm)) 0 br"
    using half_open_allow [OF assms(3)]
    by (cases "cbm_allow_request (re_allow_time env) (show_backend (rm_backend rm)) (g_breakers g)") (force split: if_splits)
  then show ?thesis
    using assms(2) fixed_responses(3) [OF assms(1)]
    by (auto simp: open_route_def handle_match_def check_rate_limit_def with_state_def)
qed

lemma oversized_413:
  assumes "oversized (env, req)"
  shows "execute_request_with_retry H env req rm (method_of (rq_method req)) path wi st =
    Done (Inl (ErrBodyTooLarge 0 MAX_BODY_SIZE), [], st)"
proof -
  have "\<not> bodiless (rq_method req)" using assms by (auto simp: oversized_def bodiless_def method_of_def)
  with assms show ?thesis
    by (auto simp: oversized_def execute_request_with_retry_def execute_without_retry_def first_attempt_def
        forward_to_backend_def read_body_def collected_def Let_def split: option.split)
qed

lemma serve_oversized:
  assumes "http_texts_ok H" "env_ok H env" "open_route rm g" "probes_left (show_backend (rm_backend rm)) n (g_breakers g)"
    "oversized (env, req)"
  shows "\<exists>resp g'. handle_match H env req (method_of (rq_method req)) (request_id_of H req (re_uuid env)) rm wi g = Done (resp, g') \<and>
    rp_status resp \<in> {413, 503} \<and>
    open_route rm g' \<and> probes_left (show_backend (rm_backend rm)) (n - 1) (g_breakers g')"
proof -
  obtain a br where br: "cbm_allow_request (re_allow_time env) (show_backend (rm_backend rm)) (g_breakers g) = (a, br)"
    by fastforce
  obtain resp where resp: "finalize_response H (Inl (ErrBodyTooLarge 0 MAX_BODY_SIZE)) (rm_response_filters rm) (request_id_of H req (re_uuid env)) = Done resp"
      "rp_status resp = 413"
    using id_responses(1) [OF assms(1) request_id_ok [OF assms(1,2), of req], of "ErrBodyTooLarge 0 MAX_BODY_SIZE"]
    by (auto simp: finalize_response_def)
  show ?thesis
  proof (cases a)
    case True
    with half_open_allow [OF assms(4) br] assms(3) br resp show ?thesis
      by (auto simp: open_route_def handle_match_def check_rate_limit_def with_state_def oversized_413 [OF assms(5)]
          record_request_metrics_def Let_def)
  next
    case False
    with half_open_allow [OF assms(4) br] assms(3) br fixed_responses(3) [OF assms(1)] show ?thesis
      by (auto simp: open_route_def handle_match_def check_rate_limit_def with_state_def intro: probes_left_zero)
  qed
qed

lemma serve_all_blocked:
  assumes "http_texts_ok H" "open_route rm g" "probes_left (show_backend (rm_backend rm)) 0 (g_breakers g)"
  shows "\<exists>g'. serve H rm cs g = Done (replicate (length cs) 503, g') \<and> g_fwd g' = g_fwd g"
  using assms(2,3)
proof (induction cs arbitrary: g)
  case (Cons c cs)
  obtain env req where c: "c = (env, req)" by fastforce
  obtain resp g1 where g1: "handle_match H env req (method_of (rq_method req)) (request_id_of H req (re_uuid env)) rm None g = Done (resp, g1)"
      "rp_status resp = 503" "open_route rm g1" "probes_left (show_backend (rm_backend rm)) 0 (g_breakers g1)" "g_fwd g1 = g_fwd g"
    using serve_blocked [OF assms(1) Cons.prems] by blast
  with Cons.IH [OF g1(3,4)] show ?case by (auto simp: c)
qed simp

text \<open>
  C13: An upload that is cut off because its body is too large is admitted by the breaker like any other
  request, but its end is never reported to it. While a breaker is half open, as many such uploads as it
  has probes left use them up, and from then on every request for the backend is answered with 503,
  however much later it comes and whatever the state of the backend.
\<close>

theorem oversized_uploads_block_backend:
  assumes "http_texts_ok H" "\<forall>c\<in>set big. env_ok H (fst c) \<and> oversized c"
    "open_route rm g" "probes_left (show_backend (rm_backend rm)) (length big) (g_breakers g)"
  shows "\<exists>codes g'. serve H rm (big @ later) g = Done (codes @ replicate (length later) 503, g') \<and>
    length codes = length big \<and> set codes \<subseteq> {413, 503}"
  using assms(2-4)
proof (induction big arbitrary: g)
  case Nil
  then show ?case using serve_all_blocked [OF assms(1), of rm g later] by auto
next
  case (Cons c big)
  obtain env req where c: "c = (env, req)" by fastforce
  obtain resp g1 where g1: "handle_match H env req (method_of (rq_method req)) (request_id_of H req (re_uuid env)) rm None g = Done (resp, g1)"
      "rp_status resp \<in> {413, 503}" "open_route rm g1" "probes_left (show_backend (rm_backend rm)) (length big) (g_breakers g1)"
    using serve_oversized [OF assms(1) _ Cons.prems(2,3), of env req None] Cons.prems(1) c by auto
  obtain codes g' where "serve H rm (big @ later) g1 = Done (codes @ replicate (length later) 503, g')"
      "length codes = length big" "set codes \<subseteq> {413, 503}"
    using Cons.IH [OF _ g1(3,4)] Cons.prems(1) by auto
  with g1(1,2) show ?case
    by (intro exI [of _ "rp_status resp # codes"] exI [of _ g']) (auto simp: c)
qed

section \<open>Instances\<close>

definition one_backend :: backend where
  "one_backend = backend_new 1 80 1"

definition breaker_word :: "u64 \<Rightarrow> CircuitBreakerManager" where
  "breaker_word w =
     (cbm_new 5 30000000000)\<lparr>breakers := [(show_backend one_backend, (cb_new 5 30000000000 0)\<lparr>cb_packed := w, last_failure_us := 1\<rparr>)]\<rparr>"

lemma one_route_gateway:
  obtains r t where "router_reach list_matchit r" "routes r = [(key_of GET ''/a'', plain_route ''/a'' [one_backend] t)]"
    "select_backend list_matchit (method_of (rq_method plain_get)) (rq_path plain_get) None None r =
       Done (Some (route_match (plain_route ''/a'' [one_backend] t) one_backend), snd (resolve_cached list_matchit GET ''/a'' r))"
proof -
  obtain r t where r: "router_reach list_matchit r" "routes r = [(key_of GET ''/a'', plain_route ''/a'' [one_backend] t)]"
      "health r = healthdata_new" "health_checker r = hc_new hc_config_default" "route_cache r = lru_new 128"
    using one_route [of one_backend] by blast
  from one_route_selected [OF r] that [OF r(1,2)] show ?thesis by (simp add: plain_get_def method_of_def)
qed

lemma plain_match [simp]:
  "rm_redirect (route_match (plain_route p bs t) b) = None" "rm_request_filters (route_match (plain_route p bs t) b) = None"
  "rm_pattern (route_match (plain_route p bs t) b) = p" "rm_backend (route_match (plain_route p bs t) b) = b"
  by (simp_all add: route_match_def plain_route_def)

lemma plain_get_routed: "\<not> own_endpoint plain_get"
  by (simp add: plain_get_def)

theorem shed_before_backend_witness:
  "\<exists>r resp g'. router_reach list_matchit r \<and>
     handle_request list_matchit list_http plain_env plain_get
       ((plain_gateway r)\<lparr>g_breakers := breaker_word (pack_state STATE_OPEN 5 0 0)\<rparr>) = Done (resp, g') \<and>
     rp_status resp = 503 \<and> g_fwd g' = fwd_start"
proof -
  obtain r t where r: "router_reach list_matchit r"
    "select_backend list_matchit (method_of (rq_method plain_get)) (rq_path plain_get) None None r =
       Done (Some (route_match (plain_route ''/a'' [one_backend] t) one_backend), snd (resolve_cached list_matchit GET ''/a'' r))"
    by (rule one_route_gateway)
  let ?rm = "route_match (plain_route ''/a'' [one_backend] t) one_backend"
  let ?g = "(plain_gateway r)\<lparr>g_breakers := breaker_word (pack_state STATE_OPEN 5 0 0)\<rparr>"
  have ok: "workers_ok ?g" using plain_workers_ok [of r] by (simp add: workers_ok_def)
  obtain l where l: "check_rate_limit (re_rate_time plain_env) (re_rate_later plain_env) (rm_pattern ?rm) (g_limiter ?g) = (True, l)"
    by (simp add: check_rate_limit_def plain_gateway_def rl_new_def)
  obtain br where br: "cbm_allow_request (re_allow_time plain_env) (show_backend (rm_backend ?rm)) (g_breakers ?g) = (False, br)"
    by (simp add: cbm_allow_request_def breaker_word_def get_breaker_def allow_request_def allow_decide_def cb_new_def
        plain_env_def should_attempt_reset_def packed_simps Let_def)
  have sel: "select_backend list_matchit (method_of (rq_method plain_get)) (rq_path plain_get) None None (g_router ?g) =
      Done (Some ?rm, snd (resolve_cached list_matchit GET ''/a'' r))"
    using r(2) by (simp add: plain_gateway_def)
  from shed_before_backend [OF list_http_texts ok plain_get_routed sel _ l _ br, of plain_get] r(1) show ?thesis
    by (auto simp: plain_gateway_def)
qed

theorem route_without_backend_not_found_witness:
  "\<exists>r resp g'. routes r \<noteq> [] \<and>
     handle_request list_matchit list_http plain_env plain_get (plain_gateway r) = Done (resp, g') \<and> rp_status resp = 404"
proof -
  obtain r0 t where r0: "router_reach list_matchit r0" "routes r0 = [(key_of GET ''/a'', plain_route ''/a'' [one_backend] t)]"
      "route_cache r0 = lru_new 128"
    using one_route [of one_backend] by blast
  define r where "r = drain_backend one_backend 30000000000 0 r0"
  have r: "router_reach list_matchit r" "routes r = [(key_of GET ''/a'', plain_route ''/a'' [one_backend] t)]"
      "route_cache r = lru_new 128" "is_backend_draining one_backend r"
    using r0 router_reach.drain [OF r0(1)] by (simp_all add: r_def drain_backend_def is_backend_draining_def update_conv')
  let ?g = "plain_gateway r"
  have g: "router_reach list_matchit (g_router ?g)"
      "fst (resolve_cached list_matchit (method_of (rq_method plain_get)) (rq_path plain_get) (g_router ?g)) = Some (key_of GET ''/a'')"
      "map_of (routes (g_router ?g)) (key_of GET ''/a'') = Some (plain_route ''/a'' [one_backend] t)"
      "\<forall>b\<in>set (rt_backends (plain_route ''/a'' [one_backend] t)). \<not> usable_backend (g_router ?g) b"
    using r one_route_resolved [OF r(2,3)]
    by (simp_all add: plain_gateway_def plain_get_def method_of_def plain_route_def usable_backend_def)
  from route_without_backend_not_found [OF list_http_texts plain_env_ok g(1) plain_get_routed g(2-4)] r(2)
  show ?thesis by (intro exI [of _ r]) auto
qed

theorem retries_bounded_witness:
  "\<exists>res delays st'. execute_request_with_retry list_http plain_env plain_get
       (route_match ((plain_route ''/a'' [one_backend] [])\<lparr>rt_retry := Some retry_default\<rparr>) one_backend) GET ''/a'' None fwd_start =
         Done (res, delays, st') \<and> length delays \<le> unat (rc_max_retries retry_default)"
proof -
  let ?rm = "route_match ((plain_route ''/a'' [one_backend] [])\<lparr>rt_retry := Some retry_default\<rparr>) one_backend"
  obtain res delays st' where e: "execute_request_with_retry list_http plain_env plain_get ?rm GET ''/a'' None fwd_start = Done (res, delays, st')"
    using execute_cases [of fwd_start None list_http plain_env plain_get ?rm GET "''/a''"] plain_env_answers
    by (auto simp: fwd_start_def)
  have "rm_retry ?rm = Some retry_default" by (simp add: route_match_def)
  with retries_bounded [OF e] e show ?thesis by auto
qed

definition big_upload :: "((string \<times> string) list, nat) request_env \<times> (string \<times> string) list Request" where
  "big_upload = (plain_env\<lparr>re_fwd := failing_h2\<lparr>fe_body := BodyLimit\<rparr>\<rparr>, plain_get\<lparr>rq_method := ''POST''\<rparr>)"

theorem oversized_uploads_block_backend_witness:
  "\<exists>codes g'. serve list_http (route_match (plain_route ''/a'' [one_backend] []) one_backend)
       [big_upload, big_upload, (plain_env\<lparr>re_allow_time := 10 ^ 18\<rparr>, plain_get)]
       ((plain_gateway (router_new list_matchit))\<lparr>g_breakers := breaker_word (pack_state STATE_HALFOPEN 0 0 1)\<rparr>) =
     Done (codes @ [503], g')"
proof -
  let ?g = "(plain_gateway (router_new list_matchit))\<lparr>g_breakers := breaker_word (pack_state STATE_HALFOPEN 0 0 1)\<rparr>"
  let ?rm = "route_match (plain_route ''/a'' [one_backend] []) one_backend"
  have big: "\<forall>c\<in>set [big_upload, big_upload]. env_ok list_http (fst c) \<and> oversized c"
    using plain_env_ok by (simp add: big_upload_def env_ok_def oversized_def method_of_def plain_env_def failing_h2_def)
  have route: "open_route ?rm ?g" by (simp add: open_route_def plain_gateway_def rl_new_def)
  have left: "probes_left (show_backend (rm_backend ?rm)) (length [big_upload, big_upload]) (g_breakers ?g)"
    by (simp add: probes_left_def breaker_word_def cb_inv_def config_ok_def word_ok_def cb_new_def packed_simps abs_breaker_def)
  from oversized_uploads_block_backend [OF list_http_texts big route left, of "[(plain_env\<lparr>re_allow_time := 10 ^ 18\<rparr>, plain_get)]"]
  show ?thesis by auto
qed

end
