(* ===== verification/Listener_Manager.thy ===== *)
theory Listener_Manager
  imports Backend_Pool
begin

text \<open>
  \<open>control/src/proxy/listener_manager.rs\<close>, the shared listeners: the gateways registered on each
  port, the tasks that hold the bound sockets, and their start and end. Binding a socket is a
  parameter: given the ports that are bound by the process and a port it answers an error or
  nothing. A cancelled task keeps its socket until it runs again and sees the signal, which is a
  step of its own.
\<close>

section \<open>Data\<close>

datatype Protocol = HTTP | HTTPS

datatype HttpProtocol = Http1 | Http2

record GatewayRef =
  gr_namespace :: string
  gr_name :: string
  gr_listener_name :: string
  gr_hostname :: "string option"

definition gatewayref_id :: "GatewayRef \<Rightarrow> string" where
  "gatewayref_id g = gr_namespace g @ ''/'' @ gr_name g @ ''/'' @ gr_listener_name g"

record ListenerConfig =
  lc_port :: u16
  lc_protocol :: Protocol

definition bind_addr :: "ListenerConfig \<Rightarrow> string" where
  "bind_addr c = ''0.0.0.0:'' @ show_u16 (lc_port c)"

text \<open>The handle of the task stands for the sender of its cancellation and its join handle.\<close>

record ActiveListener =
  al_config :: ListenerConfig
  al_gateways :: "GatewayRef list"
  al_task :: nat

record listener_task =
  lt_port :: u16
  lt_cancelled :: bool

record ListenerManager =
  lm_listeners :: "(u16 \<times> ActiveListener) list"
  lm_protocol_cache :: "(string \<times> HttpProtocol) list"
  lm_tls :: bool
  lm_tasks :: "(nat \<times> listener_task) list"
  lm_next_task :: nat

section \<open>Operations\<close>

definition lm_new :: ListenerManager where
  "lm_new = \<lparr>lm_listeners = [], lm_protocol_cache = [], lm_tls = False, lm_tasks = [], lm_next_task = 0\<rparr>"

text \<open>\<open>to_server_config\<close> gives the error of the certificates, if there is one.\<close>

definition lm_with_tls :: "string option \<Rightarrow> ListenerManager outcome" where
  "lm_with_tls server_config =
     (case server_config of
        Some e \<Rightarrow> Panic (''Failed to build TLS config from SniResolver - check certificates: '' @ e)
      | None \<Rightarrow> Done (lm_new\<lparr>lm_tls := True\<rparr>))"

definition set_backend_protocol_http2 :: "string \<Rightarrow> u16 \<Rightarrow> ListenerManager \<Rightarrow> ListenerManager" where
  "set_backend_protocol_http2 backend_host backend_port m =
     m\<lparr>lm_protocol_cache := AList.update (backend_host @ '':'' @ show_u16 backend_port) Http2 (lm_protocol_cache m)\<rparr>"

definition bound_ports :: "ListenerManager \<Rightarrow> u16 list" where
  "bound_ports m = map (lt_port \<circ> snd) (lm_tasks m)"

fun show_protocol :: "Protocol \<Rightarrow> string" where
  "show_protocol HTTP = ''HTTP''"
| "show_protocol HTTPS = ''HTTPS''"

definition spawn_listener :: "(u16 list \<Rightarrow> u16 \<Rightarrow> string option) \<Rightarrow> ListenerConfig \<Rightarrow> ListenerManager \<Rightarrow>
    (string + ActiveListener) \<times> ListenerManager" where
  "spawn_listener bind config m =
     (if lc_protocol config = HTTPS \<and> \<not> lm_tls m
      then (Inl ''HTTPS listener requires TLS configuration. Use ListenerManager::with_tls()'', m)
      else
        (case bind (bound_ports m) (lc_port config) of
           Some e \<Rightarrow> (Inl (''Failed to bind to '' @ bind_addr config @ '': '' @ e), m)
         | None \<Rightarrow>
             (Inr \<lparr>al_config = config, al_gateways = [], al_task = lm_next_task m\<rparr>,
              m\<lparr>lm_tasks := (lm_next_task m, \<lparr>lt_port = lc_port config, lt_cancelled = False\<rparr>) # lm_tasks m,
                lm_next_task := lm_next_task m + 1\<rparr>)))"

definition register_gateway :: "(u16 list \<Rightarrow> u16 \<Rightarrow> string option) \<Rightarrow> ListenerConfig \<Rightarrow> GatewayRef \<Rightarrow>
    ListenerManager \<Rightarrow> (string + unit) \<times> ListenerManager" where
  "register_gateway bind config gw m =
     (case map_of (lm_listeners m) (lc_port config) of
        Some l \<Rightarrow>
          if lc_protocol (al_config l) \<noteq> lc_protocol config
          then (Inl (''Port '' @ show_u16 (lc_port config) @ '' already bound with protocol '' @
                  show_protocol (lc_protocol (al_config l)) @ '', cannot bind with '' @ show_protocol (lc_protocol config)), m)
          else (Inr (), m\<lparr>lm_listeners := AList.update (lc_port config)
                  (l\<lparr>al_gateways := List.insert gw (al_gateways l)\<rparr>) (lm_listeners m)\<rparr>)
      | None \<Rightarrow>
          (case spawn_listener bind config m of
             (Inl e, m) \<Rightarrow> (Inl e, m)
           | (Inr active, m) \<Rightarrow>
               (Inr (), m\<lparr>lm_listeners := AList.update (lc_port config)
                  \<lparr>al_config = config, al_gateways = [gw], al_task = al_task active\<rparr> (lm_listeners m)\<rparr>)))"

text \<open>The signal to a task that has ended already is lost.\<close>

definition cancel_task :: "nat \<Rightarrow> ListenerManager \<Rightarrow> ListenerManager" where
  "cancel_task t m = m\<lparr>lm_tasks := map (\<lambda>(i, lt). (i, if i = t then lt\<lparr>lt_cancelled := True\<rparr> else lt)) (lm_tasks m)\<rparr>"

definition unregister_gateway :: "u16 \<Rightarrow> GatewayRef \<Rightarrow> ListenerManager \<Rightarrow> (string + unit) \<times> ListenerManager" where
  "unregister_gateway p gw m =
     (case map_of (lm_listeners m) p of
        None \<Rightarrow> (Inl (''No listener on port '' @ show_u16 p), m)
      | Some l \<Rightarrow>
          if gw \<notin> set (al_gateways l)
          then (Inl (''Gateway '' @ gatewayref_id gw @ '' not registered on port '' @ show_u16 p), m)
          else
            let l = l\<lparr>al_gateways := removeAll gw (al_gateways l)\<rparr>
            in if al_gateways l = []
               then (Inr (), cancel_task (al_task l) (m\<lparr>lm_listeners := AList.delete p (lm_listeners m)\<rparr>))
               else (Inr (), m\<lparr>lm_listeners := AList.update p l (lm_listeners m)\<rparr>))"

definition lm_list_listeners :: "ListenerManager \<Rightarrow> (u16 \<times> Protocol \<times> nat) list" where
  "lm_list_listeners m = map (\<lambda>(p, l). (p, lc_protocol (al_config l), length (al_gateways l))) (lm_listeners m)"

definition lm_shutdown :: "ListenerManager \<Rightarrow> (string + unit) \<times> ListenerManager" where
  "lm_shutdown m =
     (Inr (), fold (\<lambda>(_, l). cancel_task (al_task l)) (lm_listeners m) (m\<lparr>lm_listeners := []\<rparr>))"

text \<open>A task that has been cancelled leaves its loop and drops its socket.\<close>

definition task_stop :: "nat \<Rightarrow> ListenerManager \<Rightarrow> ListenerManager" where
  "task_stop t m = m\<lparr>lm_tasks := filter (\<lambda>(i, lt). i \<noteq> t \<or> \<not> lt_cancelled lt) (lm_tasks m)\<rparr>"

section \<open>The managers that can arise\<close>

text \<open>
  The managers after any calls and steps of tasks; every call of \<open>register_gateway\<close> may find the
  network in another condition, so it has a binding function of its own.
\<close>

inductive lm_reach :: "ListenerManager \<Rightarrow> bool" where
  plain: "lm_reach lm_new"
| tls: "lm_with_tls None = Done m \<Longrightarrow> lm_reach m"
| http2: "lm_reach m \<Longrightarrow> lm_reach (set_backend_protocol_http2 h p m)"
| register: "lm_reach m \<Longrightarrow> lm_reach (snd (register_gateway bind c g m))"
| unregister: "lm_reach m \<Longrightarrow> lm_reach (snd (unregister_gateway p g m))"
| shutdown: "lm_reach m \<Longrightarrow> lm_reach (snd (lm_shutdown m))"
| stop: "lm_reach m \<Longrightarrow> lm_reach (task_stop t m)"

text \<open>
  The invariant: the listeners of the map are exactly the tasks that have not been cancelled, each
  with at least one gateway.
\<close>

definition live_tasks :: "ListenerManager \<Rightarrow> (nat \<times> u16) set" where
  "live_tasks m = {(i, p). \<exists>lt. (i, lt) \<in> set (lm_tasks m) \<and> \<not> lt_cancelled lt \<and> lt_port lt = p}"

definition listener_ok :: "ListenerManager \<Rightarrow> u16 \<Rightarrow> ActiveListener \<Rightarrow> bool" where
  "listener_ok m p l \<longleftrightarrow> lc_port (al_config l) = p \<and> al_gateways l \<noteq> [] \<and> distinct (al_gateways l) \<and>
     (lc_protocol (al_config l) = HTTPS \<longrightarrow> lm_tls m)"

definition lm_inv :: "ListenerManager \<Rightarrow> bool" where
  "lm_inv m \<longleftrightarrow>
     distinct (map fst (lm_listeners m)) \<and> distinct (map fst (lm_tasks m)) \<and>
     (\<forall>i\<in>set (map fst (lm_tasks m)). i < lm_next_task m) \<and>
     (\<forall>p l. map_of (lm_listeners m) p = Some l \<longrightarrow> listener_ok m p l) \<and>
     live_tasks m = {(i, p). \<exists>l. map_of (lm_listeners m) p = Some l \<and> al_task l = i}"

section \<open>The invariant is kept\<close>

lemma live_tasks_cancel:
  "live_tasks (cancel_task t m) = {(i, p) \<in> live_tasks m. i \<noteq> t}"
  by (force simp: live_tasks_def cancel_task_def split: if_splits)

lemma cancel_task_frame [simp]:
  "lm_listeners (cancel_task t m) = lm_listeners m" "lm_tls (cancel_task t m) = lm_tls m"
  "lm_next_task (cancel_task t m) = lm_next_task m" "map fst (lm_tasks (cancel_task t m)) = map fst (lm_tasks m)"
  "bound_ports (cancel_task t m) = bound_ports m"
  by (simp_all add: cancel_task_def bound_ports_def comp_def split_def)

lemma inv_task_unique:
  assumes "lm_inv m" "map_of (lm_listeners m) p = Some l" "map_of (lm_listeners m) p' = Some l'" "al_task l = al_task l'"
  shows "p = p'"
proof -
  have "(al_task l, p) \<in> live_tasks m" "(al_task l, p') \<in> live_tasks m"
    using assms by (auto simp: lm_inv_def)
  then show ?thesis
    using assms(1) by (auto simp: live_tasks_def lm_inv_def dest: eq_key_imp_eq_value)
qed

lemma spawn_listener_cases:
  assumes "lm_inv m" "map_of (lm_listeners m) (lc_port c) = None"
  shows "case spawn_listener bind c m of
      (Inl e, m') \<Rightarrow> m' = m
    | (Inr l, m') \<Rightarrow> lm_inv (m'\<lparr>lm_listeners := AList.update (lc_port c) \<lparr>al_config = c, al_gateways = [g], al_task = al_task l\<rparr> (lm_listeners m')\<rparr>) \<and>
        lm_listeners m' = lm_listeners m"
proof (cases "fst (spawn_listener bind c m)")
  case (Inl e)
  then show ?thesis by (auto simp: spawn_listener_def split: if_splits option.splits)
next
  case (Inr l)
  then have c: "lc_protocol c = HTTPS \<longrightarrow> lm_tls m" "bind (bound_ports m) (lc_port c) = None"
    by (auto simp: spawn_listener_def split: if_splits option.splits)
  have "lm_next_task m \<notin> fst ` set (lm_tasks m)" using assms(1) by (auto simp: lm_inv_def)
  moreover define m' where "m' = m\<lparr>lm_tasks := (lm_next_task m, \<lparr>lt_port = lc_port c, lt_cancelled = False\<rparr>) # lm_tasks m,
      lm_next_task := lm_next_task m + 1, lm_listeners := AList.update (lc_port c)
        \<lparr>al_config = c, al_gateways = [g], al_task = lm_next_task m\<rparr> (lm_listeners m)\<rparr>"
  have live: "live_tasks m' = insert (lm_next_task m, lc_port c) (live_tasks m)"
    by (auto simp: live_tasks_def m'_def)
  have "live_tasks m' = {(i, p). \<exists>l. map_of (lm_listeners m') p = Some l \<and> al_task l = i}"
    using assms unfolding live by (auto simp: lm_inv_def m'_def update_conv')
  moreover have "\<forall>p l. map_of (lm_listeners m') p = Some l \<longrightarrow> listener_ok m' p l"
    using c(1) assms(1) by (simp add: m'_def lm_inv_def listener_ok_def update_conv')
  ultimately have "lm_inv m'"
    using assms(1) by (auto simp: lm_inv_def m'_def distinct_update)
  with Inr c(2) show ?thesis by (auto simp: spawn_listener_def m'_def)
qed

lemma tasks_of_update:
  assumes "map_of ls p = Some l" "al_task l' = al_task l"
  shows "{(i, q). \<exists>x. map_of (AList.update p l' ls) q = Some x \<and> al_task x = i} = {(i, q). \<exists>x. map_of ls q = Some x \<and> al_task x = i}"
  using assms by (auto simp: update_conv')

lemma tasks_of_delete:
  assumes "map_of ls p = Some l" "\<And>q x. map_of ls q = Some x \<Longrightarrow> al_task x = al_task l \<Longrightarrow> q = p"
  shows "{(i, q). \<exists>x. map_of (AList.delete p ls) q = Some x \<and> al_task x = i} =
    {(i, q). (\<exists>x. map_of ls q = Some x \<and> al_task x = i) \<and> i \<noteq> al_task l}"
proof -
  have "(\<exists>x. map_of (AList.delete p ls) q = Some x \<and> al_task x = i) \<longleftrightarrow>
      (\<exists>x. map_of ls q = Some x \<and> al_task x = i) \<and> i \<noteq> al_task l" for i q
  proof (cases "q = p")
    case True
    with assms(1) show ?thesis by (simp add: AList.delete_conv')
  next
    case False
    with assms(2) [of q] show ?thesis by (auto simp: AList.delete_conv')
  qed
  then show ?thesis by simp
qed

lemma live_tasks_listeners [simp]: "live_tasks (m\<lparr>lm_listeners := ls\<rparr>) = live_tasks m"
  by (simp add: live_tasks_def)

lemma bound_ports_listeners [simp]: "bound_ports (m\<lparr>lm_listeners := ls\<rparr>) = bound_ports m"
  by (simp add: bound_ports_def)

lemma register_gateway_inv:
  assumes "lm_inv m"
  shows "lm_inv (snd (register_gateway bind c g m))"
proof (cases "map_of (lm_listeners m) (lc_port c)")
  case None
  then show ?thesis
    using spawn_listener_cases [OF assms None, where bind = bind and g = g] assms
    by (auto simp: register_gateway_def split: prod.splits sum.splits)
next
  case (Some l)
  let ?m = "m\<lparr>lm_listeners := AList.update (lc_port c) (l\<lparr>al_gateways := List.insert g (al_gateways l)\<rparr>) (lm_listeners m)\<rparr>"
  have "lm_inv ?m"
    using assms Some tasks_of_update [OF Some, of "l\<lparr>al_gateways := List.insert g (al_gateways l)\<rparr>"]
    unfolding lm_inv_def by (simp add: distinct_update listener_ok_def update_conv' List.insert_def del: map_of_eq_Some_iff)
  with Some assms show ?thesis by (simp add: register_gateway_def)
qed

lemma unregister_gateway_inv:
  assumes "lm_inv m"
  shows "lm_inv (snd (unregister_gateway p g m))"
proof (cases "map_of (lm_listeners m) p")
  case None
  with assms show ?thesis by (simp add: unregister_gateway_def)
next
  case (Some l)
  let ?l = "l\<lparr>al_gateways := removeAll g (al_gateways l)\<rparr>"
  let ?k = "m\<lparr>lm_listeners := AList.update p ?l (lm_listeners m)\<rparr>"
  let ?d = "cancel_task (al_task l) (m\<lparr>lm_listeners := AList.delete p (lm_listeners m)\<rparr>)"
  have live: "live_tasks ?d = {(i, p) \<in> live_tasks m. i \<noteq> al_task l}"
    by (simp add: live_tasks_cancel)
  have "live_tasks m = {(i, p). \<exists>l. map_of (lm_listeners m) p = Some l \<and> al_task l = i}"
    using assms by (simp only: lm_inv_def)
  then have "live_tasks ?d = {(i, p). \<exists>l. map_of (lm_listeners ?d) p = Some l \<and> al_task l = i}"
    unfolding live using tasks_of_delete [OF Some] inv_task_unique [OF assms _ Some] by simp
  then have "lm_inv ?d"
    using assms unfolding lm_inv_def
    by (simp add: AList.delete_conv' distinct_delete listener_ok_def del: map_of_eq_Some_iff)
  moreover have "removeAll g (al_gateways l) \<noteq> [] \<Longrightarrow> lm_inv ?k"
    using assms Some tasks_of_update [OF Some, of ?l] unfolding lm_inv_def
    by (simp add: distinct_update listener_ok_def update_conv' distinct_removeAll del: map_of_eq_Some_iff)
  ultimately show ?thesis using Some assms by (simp add: unregister_gateway_def Let_def)
qed

lemma fold_cancel_frame:
  "map fst (lm_tasks (fold (\<lambda>(_, l). cancel_task (al_task l)) ls m)) = map fst (lm_tasks m)"
  "bound_ports (fold (\<lambda>(_, l). cancel_task (al_task l)) ls m) = bound_ports m"
  "lm_listeners (fold (\<lambda>(_, l). cancel_task (al_task l)) ls m) = lm_listeners m"
  "lm_next_task (fold (\<lambda>(_, l). cancel_task (al_task l)) ls m) = lm_next_task m"
  "live_tasks (fold (\<lambda>(_, l). cancel_task (al_task l)) ls m) = {(i, p) \<in> live_tasks m. i \<notin> (al_task \<circ> snd) ` set ls}"
  by (induction ls arbitrary: m) (auto simp: live_tasks_cancel split_def)

lemma lm_shutdown_inv:
  assumes "lm_inv m"
  shows "lm_inv (snd (lm_shutdown m))"
proof -
  have "i \<in> (al_task \<circ> snd) ` set (lm_listeners m)" if "(i, p) \<in> live_tasks m" for i p
  proof -
    from that assms obtain l where "map_of (lm_listeners m) p = Some l" "al_task l = i"
      unfolding lm_inv_def by blast
    then have "(p, l) \<in> set (lm_listeners m)" "i = (al_task \<circ> snd) (p, l)" by (simp_all add: map_of_SomeD)
    then show ?thesis by blast
  qed
  then have "live_tasks (snd (lm_shutdown m)) = {}"
    by (auto simp: lm_shutdown_def fold_cancel_frame)
  with assms show ?thesis
    by (auto simp: lm_inv_def lm_shutdown_def fold_cancel_frame simp del: set_map)
qed

lemma task_stop_inv:
  assumes "lm_inv m"
  shows "lm_inv (task_stop t m)"
proof -
  have "live_tasks (task_stop t m) = live_tasks m" by (auto simp: live_tasks_def task_stop_def)
  then show ?thesis
    using assms by (auto simp: lm_inv_def task_stop_def bound_ports_def listener_ok_def intro: distinct_map_filter)
qed

lemma lm_new_inv: "lm_inv lm_new" "lm_inv (lm_new\<lparr>lm_tls := True\<rparr>)"
  by (simp_all add: lm_inv_def lm_new_def bound_ports_def live_tasks_def)

lemma lm_reach_inv:
  assumes "lm_reach m"
  shows "lm_inv m"
  using assms
proof (induction rule: lm_reach.induct)
  case (tls m)
  then show ?case by (auto simp: lm_with_tls_def lm_new_inv)
next
  case (http2 m h p)
  then show ?case
    by (simp add: lm_inv_def set_backend_protocol_http2_def bound_ports_def live_tasks_def listener_ok_def)
qed (simp_all add: lm_new_inv register_gateway_inv unregister_gateway_inv lm_shutdown_inv task_stop_inv)

section \<open>The registry\<close>

text \<open>
  What the controller of the gateways relies on: a call that succeeds adds or removes its own entry and
  no other, a call that fails changes nothing, and only an entry that is there can be removed.
\<close>

locale registry =
  fixes entries_of :: "'s \<Rightarrow> 'e set"
    and reg :: "'a \<Rightarrow> 's \<Rightarrow> ('x + unit) \<times> 's" and entry :: "'a \<Rightarrow> 'e"
    and unreg :: "'e \<Rightarrow> 's \<Rightarrow> ('x + unit) \<times> 's"
  assumes reg_entries: "entries_of (snd (reg a s)) = (if isl (fst (reg a s)) then entries_of s else insert (entry a) (entries_of s))"
    and unreg_entries: "entries_of (snd (unreg e s)) = entries_of s - {e}"
    and unreg_error: "isl (fst (unreg e s)) \<longleftrightarrow> e \<notin> entries_of s"
begin

fun step :: "'a + 'e \<Rightarrow> 's \<Rightarrow> 's" where
  "step (Inl a) s = snd (reg a s)"
| "step (Inr e) s = snd (unreg e s)"

text \<open>The entry a call touches, and whether it is there afterwards; failed registrations touch nothing.\<close>

fun touched :: "'a + 'e \<Rightarrow> 's \<Rightarrow> ('e \<times> bool) option" where
  "touched (Inl a) s = (if isl (fst (reg a s)) then None else Some (entry a, True))"
| "touched (Inr e) s = Some (e, False)"

fun history :: "('a + 'e) list \<Rightarrow> 's \<Rightarrow> ('e \<times> bool) list" where
  "history [] s = []"
| "history (c # cs) s = (case touched c s of None \<Rightarrow> history cs (step c s) | Some t \<Rightarrow> t # history cs (step c s))"

lemma step_entries:
  "e \<in> entries_of (step c s) \<longleftrightarrow> (case touched c s of Some (e', b) \<Rightarrow> if e' = e then b else e \<in> entries_of s | None \<Rightarrow> e \<in> entries_of s)"
  by (cases c) (auto simp: reg_entries unreg_entries)

lemma entries_history:
  "e \<in> entries_of (fold step cs s) \<longleftrightarrow>
    (case map_of (rev (history cs s)) e of Some b \<Rightarrow> b | None \<Rightarrow> e \<in> entries_of s)"
proof (induction cs arbitrary: s)
  case (Cons c cs)
  from Cons.IH [of "step c s"] step_entries [of e c s] show ?case
    by (auto split: option.split)
qed simp

lemma registrations_grow: "entries_of s \<subseteq> entries_of (fold (\<lambda>a s. snd (reg a s)) as s)"
proof (induction as arbitrary: s)
  case (Cons a as)
  have "entries_of s \<subseteq> entries_of (snd (reg a s))" by (auto simp: reg_entries)
  with Cons.IH [of "snd (reg a s)"] show ?case by simp
qed simp

lemma registered_after: "\<not> isl (fst (reg a s)) \<Longrightarrow> entry a \<in> entries_of (fold (\<lambda>a s. snd (reg a s)) as (snd (reg a s)))"
  using registrations_grow [of "snd (reg a s)" as] by (auto simp: reg_entries)

end

text \<open>The contract: which gateways are registered on which port.\<close>

definition registered :: "ListenerManager \<Rightarrow> (u16 \<times> GatewayRef) set" where
  "registered m = {(p, g). \<exists>l. map_of (lm_listeners m) p = Some l \<and> g \<in> set (al_gateways l)}"

lemma registered_update:
  assumes "map_of ls p = Some l" "lm_listeners m = AList.update p l' ls"
  shows "registered m = {(q, g). if q = p then g \<in> set (al_gateways l') else \<exists>x. map_of ls q = Some x \<and> g \<in> set (al_gateways x)}"
  using assms by (auto simp: registered_def update_conv')

lemma register_registered:
  "registered (snd (register_gateway bind c g m)) =
    (if isl (fst (register_gateway bind c g m)) then registered m else insert (lc_port c, g) (registered m))"
proof (cases "map_of (lm_listeners m) (lc_port c)")
  case None
  obtain r m' where sp: "spawn_listener bind c m = (r, m')" by fastforce
  then have "lm_listeners m' = lm_listeners m" by (auto simp: spawn_listener_def split: if_splits option.splits)
  with None sp show ?thesis
    by (cases r) (auto simp: register_gateway_def registered_def update_conv' split: if_splits)
next
  case (Some l)
  then show ?thesis by (auto simp: register_gateway_def registered_def update_conv' split: if_splits)
qed

lemma unregister_registered:
  "registered (snd (unregister_gateway p g m)) = registered m - {(p, g)}"
proof (cases "map_of (lm_listeners m) p")
  case None
  then show ?thesis by (auto simp: unregister_gateway_def registered_def)
next
  case (Some l)
  have "removeAll g (al_gateways l) = [] \<Longrightarrow> set (al_gateways l) \<subseteq> {g}"
    by (metis Diff_eq_empty_iff set_empty set_removeAll)
  with Some show ?thesis
    by (auto simp: unregister_gateway_def registered_def Let_def update_conv' AList.delete_conv' split: if_splits)
qed

lemma unregister_error: "isl (fst (unregister_gateway p g m)) \<longleftrightarrow> (p, g) \<notin> registered m"
  by (auto simp: unregister_gateway_def registered_def Let_def split: option.split)

interpretation lm: registry registered "\<lambda>(bind, c, g). register_gateway bind c g"
    "\<lambda>(bind, c, g). (lc_port c, g)" "\<lambda>(p, g). unregister_gateway p g"
  by unfold_locales (auto simp: register_registered unregister_registered unregister_error)

section \<open>Ports and registrations\<close>

text \<open>
  C29: In every state that can arise, whatever the binding of sockets answers at each call, a port number
  has a listener task that has not been cancelled exactly when a gateway is registered on it, and then
  exactly one. Registering and unregistering change the registration of their own gateway
  and port only, a failed call changes nothing, and after any sequence of calls a gateway is registered
  on a port exactly when its last effective call there was a registration.
\<close>

theorem listeners_follow_registrations:
  assumes "lm_reach m"
  shows "((\<exists>g. (p, g) \<in> registered m) \<longleftrightarrow> (\<exists>t. (t, p) \<in> live_tasks m)) \<and>
    ((t, p) \<in> live_tasks m \<and> (t', p) \<in> live_tasks m \<longrightarrow> t = t') \<and>
    ((p, g) \<in> registered (fold lm.step calls m) \<longleftrightarrow>
       (case map_of (rev (lm.history calls m)) (p, g) of Some b \<Rightarrow> b | None \<Rightarrow> (p, g) \<in> registered m))"
proof (intro conjI)
  note inv = lm_reach_inv [OF assms]
  then have live: "live_tasks m = {(i, p). \<exists>l. map_of (lm_listeners m) p = Some l \<and> al_task l = i}"
    and ne: "map_of (lm_listeners m) q = Some l \<Longrightarrow> al_gateways l \<noteq> []" for q l
    unfolding lm_inv_def listener_ok_def by blast+
  show "(\<exists>g. (p, g) \<in> registered m) \<longleftrightarrow> (\<exists>t. (t, p) \<in> live_tasks m)"
  proof (cases "map_of (lm_listeners m) p")
    case (Some l)
    then obtain g where "g \<in> set (al_gateways l)" using ne [OF Some] by (meson list.set_sel(1))
    with Some show ?thesis unfolding live registered_def by auto
  qed (simp add: live registered_def)
  show "(t, p) \<in> live_tasks m \<and> (t', p) \<in> live_tasks m \<longrightarrow> t = t'"
    unfolding live by auto
qed (rule lm.entries_history)

text \<open>
  What the operating system does with a port other than 0: while the process has it bound, it cannot
  be bound again. Port 0 asks for any free port and is exempt.
\<close>

definition bind_exclusive :: "(u16 list \<Rightarrow> u16 \<Rightarrow> string option) \<Rightarrow> bool" where
  "bind_exclusive bind \<longleftrightarrow> (\<forall>ps p. p \<noteq> 0 \<and> p \<in> set ps \<longrightarrow> bind ps p \<noteq> None)"

text \<open>
  C30: The socket of a port outlives its last gateway: after the last gateway of a port other than 0 is
  unregistered, registering any gateway on that port fails with a bind error as long as the cancelled
  task has not run, and the failure leaves the manager as it is. (A listener with HTTPS on a manager
  without TLS fails before it binds.)
\<close>

theorem reregistration_races_with_shutdown:
  assumes "bind_exclusive bind" "lm_reach m" "registered m \<inter> ({p} \<times> UNIV) = {(p, g)}" "p \<noteq> 0"
    and "lc_port c = p" "lc_protocol c = HTTP \<or> lm_tls m"
  shows "\<exists>e. register_gateway bind c g' (snd (unregister_gateway p g m)) =
    (Inl (''Failed to bind to '' @ bind_addr c @ '': '' @ e), snd (unregister_gateway p g m))"
proof -
  note inv = lm_reach_inv [OF assms(2)]
  have reg: "(p, x) \<in> registered m \<longleftrightarrow> x = g" for x using assms(3) by blast
  then obtain l where l: "map_of (lm_listeners m) p = Some l" "g \<in> set (al_gateways l)"
    by (auto simp: registered_def)
  then have all: "set (al_gateways l) = {g}" using reg by (auto simp: registered_def)
  then have u: "unregister_gateway p g m = (Inr (), cancel_task (al_task l) (m\<lparr>lm_listeners := AList.delete p (lm_listeners m)\<rparr>))"
    using l by (simp add: unregister_gateway_def Let_def flip: set_empty)
  have "(al_task l, p) \<in> live_tasks m" using inv l(1) unfolding lm_inv_def by blast
  then have "p \<in> set (bound_ports m)" by (force simp: live_tasks_def bound_ports_def)
  with assms(1,4) obtain e where "bind (bound_ports m) p = Some e" unfolding bind_exclusive_def by blast
  with assms(5,6) show ?thesis
    by (auto simp: u register_gateway_def spawn_listener_def AList.delete_conv')
qed

section \<open>Instances\<close>

definition plain_bind :: "u16 list \<Rightarrow> u16 \<Rightarrow> string option" where
  "plain_bind ps p = (if p \<noteq> 0 \<and> p \<in> set ps then Some ''Address already in use (os error 98)'' else None)"

definition web :: ListenerConfig where "web = \<lparr>lc_port = 80, lc_protocol = HTTP\<rparr>"

definition web_ref :: GatewayRef where
  "web_ref = \<lparr>gr_namespace = ''default'', gr_name = ''gw'', gr_listener_name = ''http'', gr_hostname = None\<rparr>"

lemma plain_bind_exclusive: "bind_exclusive plain_bind"
  by (simp add: bind_exclusive_def plain_bind_def)

lemma web_registered:
  "lm_reach (snd (register_gateway plain_bind web web_ref lm_new))"
  "registered (snd (register_gateway plain_bind web web_ref lm_new)) = {(80, web_ref)}"
  by (auto intro: lm_reach.intros)
    (auto simp: register_gateway_def spawn_listener_def plain_bind_def lm_new_def registered_def web_def bound_ports_def split: if_splits)

theorem listeners_follow_registrations_witness:
  "\<exists>t. (t, 80) \<in> live_tasks (snd (register_gateway plain_bind web web_ref lm_new))"
  using listeners_follow_registrations [OF web_registered(1), of 80 0 0 web_ref "[]"] web_registered(2)
  by auto

theorem reregistration_races_with_shutdown_witness:
  "\<exists>e. fst (register_gateway plain_bind web web_ref
     (snd (unregister_gateway 80 web_ref (snd (register_gateway plain_bind web web_ref lm_new))))) = Inl e"
  using reregistration_races_with_shutdown [OF plain_bind_exclusive web_registered(1), of 80 web_ref web web_ref] web_registered(2)
  by (auto simp: web_def)

end
