(* ===== verification/Listener_Requests.thy ===== *)
theory Listener_Requests
  imports Listener_Manager Request_Handler
begin

text \<open>
  \<open>control/src/proxy/listener_manager.rs\<close>, the connections and requests of the shared listeners: the
  choice of the HTTP version for a client, and \<open>ListenerManager::handle_request\<close> with the router, the
  rate limiter and the circuit breakers. The network is the environment of a request: the body as it
  is read, the answers of the backend, and the times of the clock readings. No timer runs in a
  listener: where the network never answers the request waits for ever.
\<close>

section \<open>Connections\<close>

definition HTTP2_PREFACE :: string where
  "HTTP2_PREFACE = ''PRI * HTTP/2.0'' @ [CHR 0x0D, CHR 0x0A, CHR 0x0D, CHR 0x0A] @ ''SM'' @ [CHR 0x0D, CHR 0x0A, CHR 0x0D, CHR 0x0A]"

text \<open>
  \<open>peek\<close> answers the bytes that have arrived, at most as many as the buffer holds, or an error. The rest
  of the buffer is zero.
\<close>

definition http_connection_version :: "(string + string) \<Rightarrow> HttpProtocol" where
  "http_connection_version peeked =
     (case peeked of
        Inr bytes \<Rightarrow>
          let n = min (length bytes) 24; preface_buf = take n bytes @ replicate (24 - n) (CHR 0x00)
          in if n \<ge> length HTTP2_PREFACE \<and> starts_with preface_buf HTTP2_PREFACE then Http2 else Http1
      | Inl _ \<Rightarrow> Http1)"

text \<open>After the handshake the protocol negotiated by ALPN decides; a failed handshake ends the connection.\<close>

definition https_connection_version :: "(string + string option) \<Rightarrow> HttpProtocol option" where
  "https_connection_version handshake =
     (case handshake of
        Inl _ \<Rightarrow> None
      | Inr alpn \<Rightarrow> Some (if alpn = Some ''h2'' then Http2 else Http1))"

section \<open>State and environment of a request\<close>

record ('r, 'x) listener_state =
  ls_router :: "'r Router"
  ls_regex :: "'x regex_cache"
  ls_limiter :: RateLimiter
  ls_breakers :: CircuitBreakerManager
  ls_protocol_cache :: "(string \<times> HttpProtocol) list"

text \<open>The answers of the network, none where it never answers.\<close>

record 'h listener_env =
  le_rate_time :: instant
  le_rate_later :: instant
  le_allow_time :: instant
  le_done_time :: instant
  le_body :: "(string + string) option"
  le_connect :: "(string + unit) option"
  le_handshake :: "(string + unit) option"
  le_send :: "'h BackendRequest \<Rightarrow> (string + 'h Response) option"
  le_client :: "'h BackendRequest \<Rightarrow> (string + 'h Response) option"

section \<open>\<open>handle_request\<close>\<close>

definition plain_response :: "'h http \<Rightarrow> u16 \<Rightarrow> string \<Rightarrow> 'h Response outcome" where
  "plain_response H code body = unwrap (build_response H code [] body)"

definition build_bad_gateway_response :: "'h http \<Rightarrow> 'h Response outcome" where
  "build_bad_gateway_response H = plain_response H 502 ''Bad Gateway''"

definition host_of :: "'h http \<Rightarrow> 'h Request \<Rightarrow> string option \<Rightarrow> string" where
  "host_of H req authority =
     (case Option.bind (header_get H ''host'' (rq_headers req)) (ht_to_str H) of
        Some s \<Rightarrow> s
      | None \<Rightarrow> (case authority of Some a \<Rightarrow> a | None \<Rightarrow> []))"

definition listener_method :: "string \<Rightarrow> HttpMethod option" where
  "listener_method m =
     (if m = ''GET'' then Some GET else if m = ''POST'' then Some POST else if m = ''PUT'' then Some PUT
      else if m = ''DELETE'' then Some DELETE else if m = ''PATCH'' then Some PATCH else if m = ''HEAD'' then Some HEAD
      else if m = ''OPTIONS'' then Some OPTIONS else None)"

definition listener_backend_id :: "backend \<Rightarrow> string" where
  "listener_backend_id b =
     (case as_ipv4 b of
        Some a \<Rightarrow> show_ipv4 a @ '':'' @ show_u16 (port b)
      | None \<Rightarrow>
          (case as_ipv6 b of
             Some a \<Rightarrow> ''['' @ show_ipv6 a @ '']:'' @ show_u16 (port b)
           | None \<Rightarrow> ''unknown:'' @ show_u16 (port b)))"

definition listener_backend_addr :: "backend \<Rightarrow> socketaddr option" where
  "listener_backend_addr b =
     (case as_ipv4 b of
        Some a \<Rightarrow> Some (SocketV4 a (port b))
      | None \<Rightarrow> map_option (\<lambda>a. SocketV6 a (port b) 0 0) (as_ipv6 b))"

fun show_socket_ip :: "socketaddr \<Rightarrow> string" where
  "show_socket_ip (SocketV4 a p) = show_ipv4 a"
| "show_socket_ip (SocketV6 a p flowinfo scope_id) = show_ipv6 a"

fun socket_port :: "socketaddr \<Rightarrow> u16" where
  "socket_port (SocketV4 a p) = p"
| "socket_port (SocketV6 a p flowinfo scope_id) = p"

definition listener_hop_header :: "string \<Rightarrow> bool" where
  "listener_hop_header n \<longleftrightarrow> n \<in> {''connection'', ''keep-alive'', ''proxy-authenticate'', ''proxy-authorization'',
     ''te'', ''trailer'', ''transfer-encoding'', ''upgrade'', ''host''}"

definition listener_backend_request :: "'h http \<Rightarrow> 'h Request \<Rightarrow> socketaddr \<Rightarrow> string \<Rightarrow> string + 'h BackendRequest" where
  "listener_backend_request H req addr body =
     (let uri = ''http://'' @ show_socketaddr addr @ (case rq_path_and_query req of Some pq \<Rightarrow> pq | None \<Rightarrow> ''/'');
          copied = fold (\<lambda>(n, v) h. if listener_hop_header n then h else ht_append H n v h) (ht_pairs H (rq_headers req)) (ht_empty H)
      in case ht_uri H uri of
           Some e \<Rightarrow> Inl e
         | None \<Rightarrow>
             (case build_headers H [(''host'', show_socketaddr addr)] copied of
                Inl e \<Rightarrow> Inl e
              | Inr h \<Rightarrow> Inr \<lparr>br_method = rq_method req, br_uri = uri, br_headers = h, br_body = body\<rparr>))"

text \<open>What the backend answers: by a new HTTP/2 connection when it is marked for it, else by the client.\<close>

datatype 'h exchange = Answered "'h Response" | ExchangeFailed | Unanswered

definition reply :: "(string + 'h Response) option \<Rightarrow> 'h exchange" where
  "reply r = (case r of None \<Rightarrow> Unanswered | Some (Inl _) \<Rightarrow> ExchangeFailed | Some (Inr resp) \<Rightarrow> Answered resp)"

definition listener_exchange :: "'h listener_env \<Rightarrow> bool \<Rightarrow> 'h BackendRequest \<Rightarrow> 'h exchange" where
  "listener_exchange env use_http2 breq =
     (if use_http2
      then
        (case le_connect env of
           None \<Rightarrow> Unanswered
         | Some (Inl _) \<Rightarrow> ExchangeFailed
         | Some (Inr _) \<Rightarrow>
             (case le_handshake env of
                None \<Rightarrow> Unanswered
              | Some (Inl _) \<Rightarrow> ExchangeFailed
              | Some (Inr _) \<Rightarrow> reply (le_send env breq)))
      else reply (le_client env breq))"

definition listener_forward :: "'h http \<Rightarrow> 'h listener_env \<Rightarrow> 'h Request \<Rightarrow> backend \<Rightarrow> string \<Rightarrow>
    ('r, 'x) listener_state \<Rightarrow> ('h Response \<times> ('r, 'x) listener_state) outcome" where
  "listener_forward H env req b backend_id st =
     (case listener_backend_addr b of
        None \<Rightarrow> with_state st (plain_response H 500 ''Internal Server Error'')
      | Some addr \<Rightarrow>
          (case le_body env of
             None \<Rightarrow> Diverges
           | Some (Inl _) \<Rightarrow> with_state st (plain_response H 400 ''Bad Request: Failed to read body'')
           | Some (Inr body_bytes) \<Rightarrow>
               (let backend_key = show_socket_ip addr @ '':'' @ show_u16 (socket_port addr);
                    use_http2 = (map_of (ls_protocol_cache st) backend_key = Some Http2)
                in case listener_backend_request H req addr body_bytes of
                     Inl e \<Rightarrow> Panic (''Building backend request should not fail: '' @ e)
                   | Inr breq \<Rightarrow>
                       (case listener_exchange env use_http2 breq of
                          Unanswered \<Rightarrow> Diverges
                        | ExchangeFailed \<Rightarrow>
                            with_state (st\<lparr>ls_breakers := cbm_record_failure (le_done_time env) backend_id (ls_breakers st)\<rparr>)
                              (build_bad_gateway_response H)
                        | Answered resp \<Rightarrow>
                            Done (resp, st\<lparr>ls_breakers :=
                              (if 500 \<le> rp_status resp \<and> rp_status resp < 600
                               then cbm_record_failure (le_done_time env) backend_id (ls_breakers st)
                               else cbm_record_success (le_done_time env) backend_id (ls_breakers st))\<rparr>)))))"

definition listener_handle_request :: "'r matchit \<Rightarrow> 'x regex \<Rightarrow> 'h http \<Rightarrow> 'h listener_env \<Rightarrow> 'h Request \<Rightarrow>
    string option \<Rightarrow> (ipaddr \<times> u16) option \<Rightarrow> ('r, 'x) listener_state \<Rightarrow> ('h Response \<times> ('r, 'x) listener_state) outcome" where
  "listener_handle_request M R H env req authority peer_addr st =
     (let host_header = host_of H req authority in
      if host_header = [] then with_state st (plain_response H 400 ''Bad Request: Missing Host header or :authority'')
      else
        (case listener_method (rq_method req) of
           None \<Rightarrow> with_state st (plain_response H 405 ''Method Not Allowed'')
         | Some http_method \<Rightarrow>
             (case select_backend_with_headers M R http_method (rq_path req) [(''host'', host_header)]
                     (map_option fst peer_addr) (map_option snd peer_addr) (ls_router st) (ls_regex st) of
                (Panic m, _) \<Rightarrow> Panic m
              | (Diverges, _) \<Rightarrow> Diverges
              | (Done None, cache) \<Rightarrow> with_state (st\<lparr>ls_regex := cache\<rparr>) (plain_response H 404 ''Not Found'')
              | (Done (Some rm), cache) \<Rightarrow>
                  (let st = st\<lparr>ls_regex := cache\<rparr>;
                       (admitted, limiter) = check_rate_limit (le_rate_time env) (le_rate_later env) (rm_pattern rm) (ls_limiter st);
                       st = st\<lparr>ls_limiter := limiter\<rparr>
                   in if \<not> admitted then with_state st (plain_response H 429 ''Too Many Requests'')
                      else
                        (let backend_id = listener_backend_id (rm_backend rm);
                             (allowed, breakers) = cbm_allow_request (le_allow_time env) backend_id (ls_breakers st);
                             st = st\<lparr>ls_breakers := breakers\<rparr>
                         in if \<not> allowed then with_state st (plain_response H 503 ''Service Unavailable'')
                            else listener_forward H env req (rm_backend rm) backend_id st)))))"

section \<open>The choice of the version\<close>

lemma http_connection_version_iff:
  "http_connection_version (Inr bytes) = Http2 \<longleftrightarrow> take 24 bytes = HTTP2_PREFACE"
proof -
  have len: "length HTTP2_PREFACE = 24" by (simp add: HTTP2_PREFACE_def)
  show ?thesis
  proof (cases "length bytes \<ge> 24")
    case True
    have "starts_with (take 24 bytes) HTTP2_PREFACE \<longleftrightarrow> take 24 bytes = HTTP2_PREFACE"
      by (simp add: starts_with_def len)
    with True len show ?thesis by (simp add: http_connection_version_def Let_def)
  next
    case False
    then have "length (take 24 bytes) \<noteq> length HTTP2_PREFACE" using len by simp
    then have "take 24 bytes \<noteq> HTTP2_PREFACE" by metis
    with False len show ?thesis by (simp add: http_connection_version_def Let_def)
  qed
qed

section \<open>Answers\<close>

lemma plain_response_eq: "plain_response H code body = Done \<lparr>rp_status = code, rp_headers = ht_empty H, rp_body = body\<rparr>"
  by (simp add: plain_response_def build_response_def)

lemma listener_backend_id_eq: "listener_backend_id b = show_backend b"
  by (simp add: listener_backend_id_def show_backend_def as_ipv4_def as_ipv6_def)

lemma listener_backend_addr_eq: "listener_backend_addr b = Some (to_socket_addr b)"
  by (simp add: listener_backend_addr_def to_socket_addr_def as_ipv4_def as_ipv6_def)

definition listener_silent :: "'h listener_env \<Rightarrow> bool" where
  "listener_silent env \<longleftrightarrow> le_body env = None \<or> le_connect env = None \<or> le_handshake env = None \<or>
     (\<exists>q. le_send env q = None) \<or> (\<exists>q. le_client env q = None)"

text \<open>
  How a request may end: with an answer, by the panic of the unwrapped request builder when it rejects
  the request to the given backend, or not at all.
\<close>

definition listener_end :: "'h http \<Rightarrow> 'h listener_env \<Rightarrow> 'h Request \<Rightarrow> backend set \<Rightarrow> ('r, 'x) listener_state \<Rightarrow>
    ('h Response \<times> ('r, 'x) listener_state) outcome \<Rightarrow> bool" where
  "listener_end H env req bs st res \<longleftrightarrow>
     (case res of
        Done (resp, st') \<Rightarrow> ls_router st' = ls_router st
      | Panic m \<Rightarrow> (\<exists>b\<in>bs. \<exists>body e. le_body env = Some (Inr body) \<and>
          listener_backend_request H req (to_socket_addr b) body = Inl e \<and>
          m = ''Building backend request should not fail: '' @ e)
      | Diverges \<Rightarrow> listener_silent env)"

lemma listener_exchange_silent: "listener_exchange env h2 q = Unanswered \<Longrightarrow> listener_silent env"
  by (auto simp: listener_exchange_def reply_def listener_silent_def split: if_splits option.splits sum.splits)

lemma listener_forward_end: "listener_end H env req {b} st (listener_forward H env req b bid st)"
proof -
  consider "le_body env = None" | e where "le_body env = Some (Inl e)" | body where "le_body env = Some (Inr body)"
    by (metis option.exhaust sum.exhaust)
  then show ?thesis
  proof cases
    case (3 body)
    show ?thesis
    proof (cases "listener_backend_request H req (to_socket_addr b) body")
      case (Inr q)
      with 3 show ?thesis
        by (auto simp: listener_end_def listener_forward_def listener_backend_addr_eq with_state_def plain_response_eq
            build_bad_gateway_response_def Let_def dest: listener_exchange_silent split: exchange.split)
    qed (use 3 in \<open>simp add: listener_end_def listener_forward_def listener_backend_addr_eq Let_def\<close>)
  qed (simp_all add: listener_end_def listener_forward_def listener_backend_addr_eq with_state_def plain_response_eq listener_silent_def)
qed

lemma select_with_headers_done:
  assumes "router_inv r"
  shows "\<exists>rm cache'. select_backend_with_headers M R m p hs src sp r cache = (Done rm, cache')"
proof (cases "Option.bind (resolve_uncached M m p r) (map_of (routes r))")
  case (Some route)
  then have "maglev_build_compact_table (rt_backends route) = Done (rt_maglev_table route)"
    using assms unfolding router_inv_def by (auto simp: bind_eq_Some_conv)
  then have "\<exists>rm. pick_conditional r m p src sp route = Done rm"
    by (simp add: pick_conditional_def maglev.picks_find(2))
  with Some show ?thesis
    by (auto simp: select_backend_with_headers_def bind_eq_Some_conv split: prod.split)
qed (auto simp: select_backend_with_headers_def bind_eq_None_conv split: option.splits)

lemma pick_conditional_backend:
  assumes "maglev_build_compact_table (rt_backends route) = Done (rt_maglev_table route)"
    "pick_conditional r m p src sp route = Done (Some rm)"
  shows "rm_backend rm \<in> set (rt_backends route)"
  using assms(2) flow_candidates_set(1) [OF assms(1)] find_SomeD
  by (fastforce simp: pick_conditional_def maglev.picks_find(2) [OF assms(1)] flow_candidates_maglev [OF assms(1), symmetric]
      route_match_def)

lemma select_with_headers_backend:
  assumes "router_inv r" "select_backend_with_headers M R m p hs src sp r cache = (Done (Some rm), cache')"
  shows "\<exists>k route. map_of (routes r) k = Some route \<and> rm_backend rm \<in> set (rt_backends route)"
proof -
  obtain k route where k: "map_of (routes r) k = Some route" "pick_conditional r m p src sp route = Done (Some rm)"
    using assms(2) by (auto simp: select_backend_with_headers_def split: option.splits prod.splits if_splits)
  moreover from this(1) have "maglev_build_compact_table (rt_backends route) = Done (rt_maglev_table route)"
    using assms(1) unfolding router_inv_def by blast
  ultimately show ?thesis using pick_conditional_backend by blast
qed

definition routed_backends :: "'r Router \<Rightarrow> backend set" where
  "routed_backends r = (\<Union>(k, route)\<in>set (routes r). set (rt_backends route))"

text \<open>
  C31: For every request, whatever the router, the limiter, the breakers and the network do, a listener
  answers and leaves the router as it is (the responses of the backends are not recorded), but for
  two cases. It panics, with the message of the unwrapped builder, only if the HTTP library rejects
  the request it builds for a backend of one of the routes. It waits for ever only if the network is
  silent for ever: the body of the client does not end, or the backend does not answer a connection,
  a handshake or a request; no timer bounds the wait.
\<close>

theorem listener_outcomes:
  assumes "router_reach M (ls_router st)"
  shows "case listener_handle_request M R H env req authority peer st of
      Done (resp, st') \<Rightarrow> ls_router st' = ls_router st
    | Panic m \<Rightarrow> (\<exists>b body e. b \<in> routed_backends (ls_router st) \<and> le_body env = Some (Inr body) \<and>
        listener_backend_request H req (to_socket_addr b) body = Inl e \<and>
        m = ''Building backend request should not fail: '' @ e)
    | Diverges \<Rightarrow> listener_silent env"
proof -
  note inv = router_reach_inv [OF assms]
  obtain m where m: "listener_method (rq_method req) = m" by blast
  show ?thesis
  proof (cases "host_of H req authority = [] \<or> m = None")
    case True
    then show ?thesis by (cases m) (simp_all add: listener_handle_request_def m with_state_def plain_response_eq Let_def)
  next
    case False
    then obtain hm where hm: "m = Some hm" "host_of H req authority \<noteq> []" by auto
    obtain rm cache where sel: "select_backend_with_headers M R hm (rq_path req) [(''host'', host_of H req authority)]
        (map_option fst peer) (map_option snd peer) (ls_router st) (ls_regex st) = (Done rm, cache)"
      using select_with_headers_done [OF inv] by blast
    show ?thesis
    proof (cases rm)
      case None
      with sel hm show ?thesis by (simp add: listener_handle_request_def m with_state_def plain_response_eq Let_def)
    next
      case (Some rmv)
      have b: "rm_backend rmv \<in> routed_backends (ls_router st)"
        using select_with_headers_backend [OF inv sel [unfolded Some]] by (force simp: routed_backends_def dest: map_of_SomeD)
      obtain adm l where rl: "check_rate_limit (le_rate_time env) (le_rate_later env) (rm_pattern rmv) (ls_limiter st) = (adm, l)"
        by fastforce
      obtain al br where cb: "cbm_allow_request (le_allow_time env) (listener_backend_id (rm_backend rmv)) (ls_breakers st) = (al, br)"
        by fastforce
      let ?st = "st\<lparr>ls_regex := cache, ls_limiter := l, ls_breakers := br\<rparr>"
      let ?fwd = "listener_forward H env req (rm_backend rmv) (listener_backend_id (rm_backend rmv)) ?st"
      have "listener_end H env req {rm_backend rmv} ?st ?fwd" by (rule listener_forward_end)
      with sel hm Some rl cb b show ?thesis
        by (cases ?fwd) (auto simp: listener_handle_request_def listener_end_def m with_state_def plain_response_eq Let_def)
    qed
  qed
qed

text \<open>
  The panic can be met: the HTTP library rejects a URI of more than 65534 bytes, and the URI for the
  backend is longer than the one of the client, whose path and query may fill the limit.
\<close>

theorem long_uri_panics:
  assumes "\<forall>u. 65534 < length u \<longrightarrow> ht_uri H u \<noteq> None"
    and "rq_path_and_query req = Some pq" "65534 \<le> length pq" "le_body env = Some (Inr body)"
  shows "\<exists>e. listener_forward H env req b bid st = Panic (''Building backend request should not fail: '' @ e)"
proof -
  have "65534 < length (''http://'' @ show_socketaddr (to_socket_addr b) @ pq)" using assms(3) by simp
  with assms(1) obtain e where "ht_uri H (''http://'' @ show_socketaddr (to_socket_addr b) @ pq) = Some e" by blast
  with assms(2,4) show ?thesis
    by (simp add: listener_forward_def listener_backend_addr_eq listener_backend_request_def Let_def)
qed

section \<open>What the answers do not depend on\<close>

text \<open>The policies of a route: its filters, redirect, timeouts and retries.\<close>

datatype route_policy = RoutePolicy "RequestHeaderModifier option" "ResponseHeaderModifier option"
  "RequestRedirect option" "Timeout option" "RetryConfig option"

fun with_policy :: "route_policy \<Rightarrow> Route \<Rightarrow> Route" where
  "with_policy (RoutePolicy rf sf rd t rc) rt =
     rt\<lparr>rt_request_filters := rf, rt_response_filters := sf, rt_redirect := rd, rt_timeout := t, rt_retry := rc\<rparr>"

definition with_policies :: "(RouteKey \<Rightarrow> route_policy) \<Rightarrow> HealthChecker \<Rightarrow> 'r Router \<Rightarrow> 'r Router" where
  "with_policies pol hc r = r\<lparr>routes := map (\<lambda>(k, rt). (k, with_policy (pol k) rt)) (routes r), health_checker := hc\<rparr>"

lemma with_policy_fields [simp]:
  "rt_pattern (with_policy p rt) = rt_pattern rt" "rt_backends (with_policy p rt) = rt_backends rt"
  "rt_maglev_table (with_policy p rt) = rt_maglev_table rt" "rt_header_matches (with_policy p rt) = rt_header_matches rt"
  by (cases p, simp)+

lemma map_of_policies:
  "map_of (routes (with_policies pol hc r)) k = map_option (with_policy (pol k)) (map_of (routes r) k)"
proof -
  have "map_of (map (\<lambda>(k, rt). (k, with_policy (pol k) rt)) rs) k = map_option (with_policy (pol k)) (map_of rs k)" for rs
    by (induction rs) auto
  then show ?thesis by (simp add: with_policies_def)
qed

definition target :: "RouteMatch \<Rightarrow> backend \<times> string" where
  "target rm = (rm_backend rm, rm_pattern rm)"

lemma map_outcome_comp: "map_outcome f (map_outcome g x) = map_outcome (f \<circ> g) x"
  by (cases x) simp_all

lemma select_policies:
  "map_prod (map_outcome (map_option target)) id (select_backend_with_headers M R m p hs src sp (with_policies pol hc r) cache) =
   map_prod (map_outcome (map_option target)) id (select_backend_with_headers M R m p hs src sp r cache)"
proof -
  have h: "healthy_passive (with_policies pol hc r) = healthy_passive r" "is_backend_draining b (with_policies pol hc r) = is_backend_draining b r"
    "prefix_router (with_policies pol hc r) = prefix_router r" for b
    by (auto simp: with_policies_def healthy_passive_def is_backend_draining_def fun_eq_iff)
  have res: "resolve_uncached M m p (with_policies pol hc r) = resolve_uncached M m p r"
    by (simp add: resolve_uncached_def map_of_policies prefix_lookup_def h Let_def)
  have "map_outcome (map_option target) (pick_conditional (with_policies pol hc r) m p src sp (with_policy q rt)) =
      map_outcome (map_option target) (pick_conditional r m p src sp rt)" for q rt
    by (simp add: pick_conditional_def h map_outcome_comp comp_def option.map_comp target_def route_match_def)
  with res show ?thesis
    by (auto simp: select_backend_with_headers_def map_of_policies Let_def split: option.split prod.split)
qed

lemma handle_target:
  assumes "map_prod (map_outcome (map_option target)) id (select_backend_with_headers M R m p hs src sp r' cache) =
    map_prod (map_outcome (map_option target)) id (select_backend_with_headers M R m p hs src sp r cache)"
  obtains "select_backend_with_headers M R m p hs src sp r' cache = select_backend_with_headers M R m p hs src sp r cache"
  | rm rm' c where "select_backend_with_headers M R m p hs src sp r' cache = (Done (Some rm'), c)"
      "select_backend_with_headers M R m p hs src sp r cache = (Done (Some rm), c)"
      "rm_backend rm' = rm_backend rm" "rm_pattern rm' = rm_pattern rm"
proof -
  obtain o' c' o'' c'' where e: "select_backend_with_headers M R m p hs src sp r' cache = (o', c')"
      "select_backend_with_headers M R m p hs src sp r cache = (o'', c'')"
    by fastforce
  with assms have "c' = c''" "map_outcome (map_option target) o' = map_outcome (map_option target) o''" by simp_all
  with e that show thesis
    by (cases o'; cases o'') (auto simp: target_def map_option_case split: option.splits)
qed

lemma forward_response_frame:
  "ls_protocol_cache s = ls_protocol_cache s' \<Longrightarrow>
    map_outcome fst (listener_forward H env req b bid s) = map_outcome fst (listener_forward H env req b bid s')"
  by (simp add: listener_forward_def with_state_def map_outcome_comp comp_def Let_def split: option.split sum.split exchange.split)

text \<open>
  C32: The answer of a listener does not depend on the policies of the routes nor on the active health
  checks: with any other filters, redirects, timeouts and retries on any of the routes, and any other
  state of the health checker, every request is answered alike.
\<close>

theorem listener_ignores_policies:
  "map_outcome fst (listener_handle_request M R H env req authority peer (st\<lparr>ls_router := with_policies pol hc (ls_router st)\<rparr>)) =
   map_outcome fst (listener_handle_request M R H env req authority peer st)"
proof -
  let ?st = "st\<lparr>ls_router := with_policies pol hc (ls_router st)\<rparr>"
  show ?thesis
  proof (cases "listener_method (rq_method req)")
    case None
    then show ?thesis by (simp add: listener_handle_request_def with_state_def map_outcome_comp comp_def Let_def)
  next
    case (Some m)
    show ?thesis
      using select_policies [of M R m "rq_path req" "[(''host'', host_of H req authority)]" "map_option fst peer" "map_option snd peer" pol hc "ls_router st" "ls_regex st"]
    proof (cases rule: handle_target)
      case 1
      then show ?thesis
        using Some by (auto simp: listener_handle_request_def with_state_def map_outcome_comp comp_def Let_def split_def
            split: outcome.split option.split intro: forward_response_frame)
    next
      case (2 rm rm' c)
      then show ?thesis
        using Some by (auto simp: listener_handle_request_def with_state_def map_outcome_comp comp_def Let_def split_def intro: forward_response_frame)
    qed
  qed
qed

section \<open>Routes with conditions\<close>

lemma all_state_False:
  "x \<in> set xs \<Longrightarrow> (\<And>s. \<not> fst (f x s)) \<Longrightarrow> \<not> fst (all_state f xs s)"
  by (induction xs arbitrary: s) (auto simp: Let_def split: prod.split, metis fst_conv)

text \<open>
  A listener hands the host to the router and no other header of the request. A route with a condition
  on any other header is therefore never met: every request that resolves to it is answered with 404,
  whatever headers it carries.
\<close>

theorem header_routes_unreachable:
  assumes "host_of H req authority \<noteq> []" "listener_method (rq_method req) = Some m"
    "resolve_uncached M m (rq_path req) (ls_router st) = Some k" "map_of (routes (ls_router st)) k = Some route"
    "c \<in> set (rt_header_matches route)" "\<not> eq_ignore_ascii_case ''host'' (hm_name c)"
  shows "\<exists>resp cache. listener_handle_request M R H env req authority peer st = Done (resp, st\<lparr>ls_regex := cache\<rparr>) \<and>
    rp_status resp = 404"
proof -
  let ?hs = "[(''host'', host_of H req authority)]"
  have "header_value_matches R c (''host'', h) s = (False, s)" for h s
    using assms(6) unfolding header_value_matches_def by (simp only: prod.case if_True not_False_eq_True)
  then have "\<not> fst (any_state (header_value_matches R c) ?hs s)" for s by simp
  then have "\<not> fst (headers_match R (rt_header_matches route) ?hs s)" for s
    unfolding headers_match_def by (rule all_state_False [OF assms(5)])
  then obtain cache where "headers_match R (rt_header_matches route) ?hs (ls_regex st) = (False, cache)"
    by (metis prod.collapse)
  moreover have "rt_header_matches route \<noteq> []" using assms(5) by auto
  ultimately show ?thesis
    using assms(1-4)
    by (auto simp: listener_handle_request_def select_backend_with_headers_def with_state_def plain_response_eq Let_def)
qed

section \<open>Instances\<close>

definition quiet_env :: "(string \<times> string) list listener_env" where
  "quiet_env =
     \<lparr>le_rate_time = 0, le_rate_later = 0, le_allow_time = 0, le_done_time = 0, le_body = Some (Inr []), le_connect = Some (Inr ()), le_handshake = Some (Inr ()),
      le_send = (\<lambda>_. Some (Inl ''closed'')), le_client = (\<lambda>_. Some (Inr \<lparr>rp_status = 500, rp_headers = [], rp_body = []\<rparr>))\<rparr>"

definition listener_start :: "'r Router \<Rightarrow> ('r, unit) listener_state" where
  "listener_start r =
     \<lparr>ls_router = r, ls_regex = [], ls_limiter = rl_new, ls_breakers = cbm_new 5 30000000000, ls_protocol_cache = []\<rparr>"

definition lax_http :: "(string \<times> string) list http" where
  "lax_http = list_http\<lparr>ht_value := Inr\<rparr>"

definition no_regex :: "unit regex" where
  "no_regex = \<lparr>rx_new = (\<lambda>_. None), rx_is_match = (\<lambda>_ _. False)\<rparr>"

theorem listener_outcomes_witness:
  "\<exists>r resp st'. routes r \<noteq> [] \<and>
     listener_handle_request list_matchit no_regex lax_http quiet_env plain_get None None (listener_start r) = Done (resp, st') \<and>
     ls_router st' = r"
proof -
  obtain r t where r: "router_reach list_matchit r" "routes r = [(key_of GET ''/a'', plain_route ''/a'' [backend_new 1 80 1] t)]"
    using one_route [of "backend_new 1 80 1"] by blast
  then have "router_reach list_matchit (ls_router (listener_start r))" by (simp add: listener_start_def)
  note out = listener_outcomes [OF this, where R = no_regex and H = lax_http and env = quiet_env and req = plain_get
    and authority = None and peer = None]
  have "listener_backend_request lax_http plain_get addr body \<noteq> Inl e" for addr body e
    by (simp add: listener_backend_request_def lax_http_def list_http_def Let_def)
  moreover have "\<not> listener_silent quiet_env" by (simp add: listener_silent_def quiet_env_def)
  moreover have "ls_router (listener_start r) = r" by (simp add: listener_start_def)
  ultimately show ?thesis
    using out r(2)
    by (intro exI [of _ r];
        cases "listener_handle_request list_matchit no_regex lax_http quiet_env plain_get None None (listener_start r)") auto
qed

theorem header_routes_unreachable_witness:
  "\<exists>r resp st'. map_of (routes r) (key_of GET ''/a'') \<noteq> None \<and>
     listener_handle_request list_matchit no_regex lax_http quiet_env plain_get None None (listener_start r) = Done (resp, st') \<and>
     rp_status resp = 404"
proof -
  let ?c = "\<lparr>hm_name = ''authorization'', hm_value = ''secret'', hm_match_type = HeaderExact\<rparr>"
  let ?route = "(plain_route ''/a'' [] [])\<lparr>rt_header_matches := [?c]\<rparr>"
  define r where "r = (router_new list_matchit)\<lparr>routes := [(key_of GET ''/a'', ?route)]\<rparr>"
  have h: "host_of lax_http plain_get None \<noteq> []" "listener_method (rq_method plain_get) = Some GET"
      "\<not> eq_ignore_ascii_case ''host'' (hm_name ?c)"
    by (simp_all add: host_of_def header_get_def header_values_def lax_http_def list_http_def plain_get_def listener_method_def
        eq_ignore_ascii_case_def)
  have k: "resolve_uncached list_matchit GET (rq_path plain_get) (ls_router (listener_start r)) = Some (key_of GET ''/a'')"
      "map_of (routes (ls_router (listener_start r))) (key_of GET ''/a'') = Some ?route"
    by (simp_all add: resolve_uncached_def listener_start_def r_def plain_get_def)
  from header_routes_unreachable [OF h(1,2) k(1,2) _ h(3), of no_regex quiet_env None] k(2) show ?thesis
    by (intro exI [of _ r]) (auto simp: listener_start_def)
qed

end
