(* ===== verification/Std_Parse.thy ===== *)
theory Std_Parse
  imports Common_Types Rust_Text
begin

text \<open>
  What the controllers use of the standard library to read text: \<open>Ipv4Addr::from_str\<close> and
  \<open>Ipv6Addr::from_str\<close>, the parsers of \<open>u64\<close> and \<open>f64\<close>, \<open>trim\<close> and the other operations on white space. A
  parser takes the rest of the text and answers a value and what is left; one that fails leaves the
  text as it was. Printing an address and reading it again gives the address.
\<close>

section \<open>Addresses\<close>

type_synonym 'a parser = "string \<Rightarrow> ('a \<times> string) option"

definition to_digit :: "nat \<Rightarrow> char \<Rightarrow> nat option" where
  "to_digit radix c =
     (let n = of_char c :: nat;
          d = (if 48 \<le> n \<and> n \<le> 57 then Some (n - 48) else if 97 \<le> n \<and> n \<le> 122 then Some (n - 87)
               else if 65 \<le> n \<and> n \<le> 90 then Some (n - 55) else None)
      in case d of Some v \<Rightarrow> if v < radix then Some v else None | None \<Rightarrow> None)"

abbreviation is_digit :: "nat \<Rightarrow> char \<Rightarrow> bool" where
  "is_digit radix c \<equiv> to_digit radix c \<noteq> None"

definition digits_value :: "nat \<Rightarrow> string \<Rightarrow> nat" where
  "digits_value radix ds = foldl (\<lambda>acc c. acc * radix + the (to_digit radix c)) 0 ds"

definition read_given_char :: "char \<Rightarrow> unit parser" where
  "read_given_char c s = (case s of x # r \<Rightarrow> if x = c then Some ((), r) else None | [] \<Rightarrow> None)"

definition read_number :: "nat \<Rightarrow> nat \<Rightarrow> bool \<Rightarrow> nat \<Rightarrow> nat parser" where
  "read_number radix max_digits allow_zero_prefix max_value s =
     (let ds = takeWhile (is_digit radix) s; n = digits_value radix ds
      in if length ds > max_digits \<or> max_value < n \<or> ds = [] \<or>
           (\<not> allow_zero_prefix \<and> hd ds = CHR ''0'' \<and> length ds > 1)
         then None else Some (n, drop (length ds) s))"

definition read_separator :: "char \<Rightarrow> nat \<Rightarrow> 'a parser \<Rightarrow> 'a parser" where
  "read_separator sep i inner s =
     (if i = 0 then inner s else case read_given_char sep s of None \<Rightarrow> None | Some (_, r) \<Rightarrow> inner r)"

definition read_octet :: "nat \<Rightarrow> nat parser" where
  "read_octet i = read_separator (CHR ''.'') i (read_number 10 3 False 255)"

definition read_ipv4_addr :: "ipv4addr parser" where
  "read_ipv4_addr s =
     (case read_octet 0 s of None \<Rightarrow> None | Some (a, s) \<Rightarrow>
     (case read_octet 1 s of None \<Rightarrow> None | Some (b, s) \<Rightarrow>
     (case read_octet 2 s of None \<Rightarrow> None | Some (c, s) \<Rightarrow>
     (case read_octet 3 s of None \<Rightarrow> None | Some (d, s) \<Rightarrow>
        Some (Ipv4Addr (of_nat a) (of_nat b) (of_nat c) (of_nat d), s)))))"

definition parse_ipv4 :: "string \<Rightarrow> ipv4addr option" where
  "parse_ipv4 s =
     (if 15 < length s then None
      else case read_ipv4_addr s of Some (a, []) \<Rightarrow> Some a | _ \<Rightarrow> None)"

text \<open>
  \<open>read_groups k i\<close> reads up to \<open>k\<close> groups, the first of them with the index \<open>i\<close>; an embedded IPv4 address
  fills two groups and ends the reading.
\<close>

fun read_groups :: "nat \<Rightarrow> nat \<Rightarrow> string \<Rightarrow> nat list \<times> bool \<times> string" where
  "read_groups 0 i s = ([], False, s)"
| "read_groups (Suc k) i s =
     (case (if 0 < k then read_separator (CHR '':'') i read_ipv4_addr s else None) of
        Some (Ipv4Addr a b c d, r) \<Rightarrow> ([256 * unat a + unat b, 256 * unat c + unat d], True, r)
      | None \<Rightarrow>
          (case read_separator (CHR '':'') i (read_number 16 4 True 65535) s of
             Some (g, r) \<Rightarrow> (let (gs, v4, r') = read_groups k (Suc i) r in (g # gs, v4, r'))
           | None \<Rightarrow> ([], False, s)))"

definition read_ipv6_addr :: "nat list parser" where
  "read_ipv6_addr s =
     (let (head, head_ipv4, r) = read_groups 8 0 s in
      if length head = 8 then Some (head, r)
      else if head_ipv4 then None
      else
        (case r of
           c # c' # r' \<Rightarrow>
             if c = CHR '':'' \<and> c' = CHR '':''
             then let limit = 8 - (length head + 1); (tail, _, rest) = read_groups limit 0 r'
                  in Some (head @ replicate (8 - length head - length tail) 0 @ tail, rest)
             else None
         | _ \<Rightarrow> None))"

definition octets_of_segments :: "nat list \<Rightarrow> u8 list" where
  "octets_of_segments gs = concat (map (\<lambda>g. [of_nat (g div 256), of_nat (g mod 256)]) gs)"

definition parse_ipv6 :: "string \<Rightarrow> ipv6addr option" where
  "parse_ipv6 s =
     (case read_ipv6_addr s of Some (gs, []) \<Rightarrow> Some (Ipv6Addr (octets_of_segments gs)) | _ \<Rightarrow> None)"

section \<open>Numbers\<close>

definition parse_u64 :: "string \<Rightarrow> u64 option" where
  "parse_u64 s =
     (let ds = (case s of c # r \<Rightarrow> if c = CHR ''+'' then r else s | [] \<Rightarrow> s)
      in if ds = [] \<or> list_ex (\<lambda>c. to_digit 10 c = None) ds \<or> 2 ^ 64 \<le> digits_value 10 ds then None
         else Some (of_nat (digits_value 10 ds)))"

definition strip_sign :: "string \<Rightarrow> bool \<times> string" where
  "strip_sign s =
     (case s of c # r \<Rightarrow> if c = CHR ''-'' then (True, r) else if c = CHR ''+'' then (False, r) else (False, s)
      | [] \<Rightarrow> (False, s))"

text \<open>The exponent stops growing at five digits, where the value is an infinity or zero anyway.\<close>

definition exponent_value :: "string \<Rightarrow> nat" where
  "exponent_value ds = foldl (\<lambda>e c. if e < 65536 then 10 * e + the (to_digit 10 c) else e) 0 ds"

definition parse_exponent :: "string \<Rightarrow> int option" where
  "parse_exponent s =
     (case s of [] \<Rightarrow> Some 0
      | c # r \<Rightarrow>
          if c = CHR ''e'' \<or> c = CHR ''E''
          then let (neg, ds) = strip_sign r
               in if ds = [] \<or> list_ex (\<lambda>c. to_digit 10 c = None) ds then None
                  else Some (if neg then - int (exponent_value ds) else int (exponent_value ds))
          else None)"

definition parse_decimal :: "string \<Rightarrow> rat option" where
  "parse_decimal s =
     (let ip = takeWhile (is_digit 10) s; r = drop (length ip) s;
          fp = (case r of c # t \<Rightarrow> if c = CHR ''.'' then takeWhile (is_digit 10) t else [] | [] \<Rightarrow> []);
          r' = (case r of c # t \<Rightarrow> if c = CHR ''.'' then drop (length fp) t else r | [] \<Rightarrow> [])
      in if ip = [] \<and> fp = [] then None
         else map_option (\<lambda>e. of_nat (digits_value 10 (ip @ fp)) * 10 powi (e - int (length fp))) (parse_exponent r'))"

definition parse_f64 :: "string \<Rightarrow> f64 option" where
  "parse_f64 s =
     (let (neg, r) = strip_sign s in
      case parse_decimal r of
        Some q \<Rightarrow> Some (f64_round (if neg then - q else q))
      | None \<Rightarrow>
          (let l = to_lower r
           in if l = ''nan'' then Some NaN
              else if l = ''inf'' \<or> l = ''infinity'' then Some (if neg then NegInf else PosInf)
              else None))"

definition f64_floor :: "f64 \<Rightarrow> f64" where
  "f64_floor x = (case x of Fin q \<Rightarrow> Fin (of_int \<lfloor>q\<rfloor>) | _ \<Rightarrow> x)"

definition f64_ceil :: "f64 \<Rightarrow> f64" where
  "f64_ceil x = (case x of Fin q \<Rightarrow> Fin (of_int \<lceil>q\<rceil>) | _ \<Rightarrow> x)"

definition f64_max :: "f64 \<Rightarrow> f64 \<Rightarrow> f64" where
  "f64_max x y = (if x = NaN then y else if y = NaN then x else if f64_le x y then y else x)"

fun f64_sub :: "f64 \<Rightarrow> f64 \<Rightarrow> f64" where
  "f64_sub (Fin x) (Fin y) = f64_round (x - y)"
| "f64_sub NaN y = NaN"
| "f64_sub x NaN = NaN"
| "f64_sub (Fin x) PosInf = NegInf"
| "f64_sub (Fin x) NegInf = PosInf"
| "f64_sub PosInf PosInf = NaN"
| "f64_sub NegInf NegInf = NaN"
| "f64_sub PosInf y = PosInf"
| "f64_sub NegInf y = NegInf"

section \<open>White space and characters\<close>

text \<open>The encodings of the characters with the property \<open>White_Space\<close>, and of the control characters.\<close>

definition bytes_text :: "nat list \<Rightarrow> string" where
  "bytes_text ns = map char_of ns"

definition whitespace :: "string list" where
  "whitespace = map bytes_text
     ([[9], [10], [11], [12], [13], [32], [0xC2, 0x85], [0xC2, 0xA0], [0xE1, 0x9A, 0x80]] @
      map (\<lambda>n. [0xE2, 0x80, n]) ([0x80..<0x8B] @ [0xA8, 0xA9, 0xAF]) @ [[0xE2, 0x81, 0x9F], [0xE3, 0x80, 0x80]])"

definition control_chars :: "string list" where
  "control_chars = map bytes_text (map (\<lambda>n. [n]) ([0..<32] @ [127]) @ map (\<lambda>n. [0xC2, n]) [0x80..<0xA0])"

definition utf8_len :: "char \<Rightarrow> nat" where
  "utf8_len c = (let n = of_char c :: nat in if n < 128 then 1 else if n < 0xE0 then 2 else if n < 0xF0 then 3 else 4)"

function (sequential) drop_prefixes :: "string list \<Rightarrow> string \<Rightarrow> string" where
  "drop_prefixes ws [] = []"
| "drop_prefixes ws (c # s) =
     (case find (\<lambda>w. w \<noteq> [] \<and> starts_with (c # s) w) ws of
        None \<Rightarrow> c # s
      | Some w \<Rightarrow> drop_prefixes ws (drop (length w) (c # s)))"
  by pat_completeness auto
termination
  by (relation "measure (\<lambda>(ws, s). length s)") (auto simp: find_Some_iff)

definition trim_start_matches :: "string \<Rightarrow> string \<Rightarrow> string" where
  "trim_start_matches p s = drop_prefixes [p] s"

definition trim_end_matches :: "string \<Rightarrow> string \<Rightarrow> string" where
  "trim_end_matches p s = rev (drop_prefixes [rev p] (rev s))"

definition trim :: "string \<Rightarrow> string" where
  "trim s = rev (drop_prefixes (map rev whitespace) (rev (drop_prefixes whitespace s)))"

section \<open>Reading what is printed\<close>

lemma of_char_digit: "n < 16 \<Longrightarrow> (of_char (digit n) :: nat) = (if n < 10 then 48 + n else 87 + n)"
  by (simp add: digit_def)

lemma to_digit_digit: "n < radix \<Longrightarrow> radix \<le> 16 \<Longrightarrow> to_digit radix (digit n) = Some n"
  by (simp add: to_digit_def Let_def of_char_digit)

lemma is_digit_show: "c \<in> set (show_base b n) \<Longrightarrow> 2 \<le> b \<Longrightarrow> b \<le> 16 \<Longrightarrow> is_digit b c"
  using set_show_base [of b n] by (auto simp: to_digit_digit)

lemma digits_value_show: "2 \<le> b \<Longrightarrow> b \<le> 16 \<Longrightarrow> digits_value b (show_base b n) = n"
proof (induction b n rule: show_base.induct)
  case (1 b n)
  show ?case
  proof (cases "n < b")
    case True
    with "1.prems" show ?thesis by (simp add: show_base.simps [of b n] digits_value_def to_digit_digit)
  next
    case False
    with 1 have "digits_value b (show_base b (n div b)) = n div b" by simp
    with False "1.prems" show ?thesis by (simp add: show_base.simps [of b n] digits_value_def to_digit_digit)
  qed
qed

lemma length_show_base: "n < b ^ Suc k \<Longrightarrow> 2 \<le> b \<Longrightarrow> length (show_base b n) \<le> Suc k"
proof (induction k arbitrary: n)
  case 0
  then show ?case by (simp add: show_base.simps [of b n])
next
  case (Suc k)
  have "n div b < b ^ Suc k" using Suc.prems by (intro less_mult_imp_div_less) (simp add: mult.commute)
  with Suc show ?case by (subst show_base.simps) simp
qed

lemma hd_show_base: "0 < n \<Longrightarrow> 2 \<le> b \<Longrightarrow> b \<le> 16 \<Longrightarrow> hd (show_base b n) \<noteq> CHR ''0''"
proof (induction b n rule: show_base.induct)
  case (1 b n)
  show ?case
  proof (cases "n < b")
    case True
    with "1.prems" have "(of_char (digit n) :: nat) \<noteq> of_char (CHR ''0'')" by (simp add: of_char_digit)
    then have "digit n \<noteq> CHR ''0''" by metis
    with True "1.prems" show ?thesis by (simp add: show_base.simps [of b n])
  next
    case False
    with "1.prems" have "0 < n div b" by (simp add: div_greater_zero_iff)
    with 1 False show ?thesis by (simp add: show_base.simps [of b n])
  qed
qed

lemma read_number_show:
  assumes "2 \<le> b" "b \<le> 16" "n < b ^ k" "0 < k" "n \<le> mx" "rest = [] \<or> \<not> is_digit b (hd rest)"
  shows "read_number b k z mx (show_base b n @ rest) = Some (n, rest)"
proof -
  have tw: "takeWhile (is_digit b) (show_base b n @ rest) = show_base b n"
    using is_digit_show [OF _ assms(1,2)] assms(6) by (cases rest) (auto simp: takeWhile_append2)
  have "hd (show_base b n) = CHR ''0'' \<Longrightarrow> length (show_base b n) \<le> 1"
    using hd_show_base [of n b] assms(1,2) by (cases "n = 0") (auto simp: show_base.simps [of b 0])
  then show ?thesis
    using tw length_show_base [of n b "k - 1"] assms(1,3,4) digits_value_show [OF assms(1,2)] assms(5)
    by (auto simp: read_number_def Let_def)
qed

lemma to_digit_punctuation: "to_digit b (CHR '':'') = None" "to_digit b (CHR ''.'') = None"
  by (simp_all add: to_digit_def)

lemma unat_u8: "unat (a :: u8) < 256"
  using unsigned_less [of a] by simp

lemma read_u8_show:
  "rest = [] \<or> \<not> is_digit 10 (hd rest) \<Longrightarrow>
     read_number 10 3 False 255 (show_u8 a @ rest) = Some (unat a, rest)"
  using read_number_show [of 10 "unat a" 3 255 rest False] unat_u8 [of a] by (simp add: show_u8_def)

lemma read_octet_show:
  "rest = [] \<or> to_digit 10 (hd rest) = None \<Longrightarrow> read_octet 0 (show_u8 a @ rest) = Some (unat a, rest)"
  "rest = [] \<or> to_digit 10 (hd rest) = None \<Longrightarrow> 0 < i \<Longrightarrow>
     read_octet i (CHR ''.'' # show_u8 a @ rest) = Some (unat a, rest)"
  by (simp_all add: read_octet_def read_separator_def read_given_char_def read_u8_show)

lemma read_show_ipv4:
  assumes "rest = [] \<or> \<not> is_digit 10 (hd rest)"
  shows "read_ipv4_addr (show_ipv4 a @ rest) = Some (a, rest)"
proof (cases a)
  case (Ipv4Addr w x y z)
  show ?thesis unfolding Ipv4Addr read_ipv4_addr_def
    using assms by (auto simp add: read_octet_show to_digit_punctuation del: One_nat_def)
qed

lemma length_show_u8: "length (show_u8 a) \<le> 3"
  using length_show_base [of "unat a" 10 2] unat_u8 [of a] by (simp add: show_u8_def)

lemma parse_show_ipv4: "parse_ipv4 (show_ipv4 a) = Some a"
proof (cases a)
  case (Ipv4Addr w x y z)
  have "length (show_ipv4 a) \<le> 15"
    using length_show_u8 [of w] length_show_u8 [of x] length_show_u8 [of y] length_show_u8 [of z]
    by (simp add: Ipv4Addr)
  then show ?thesis using read_show_ipv4 [of "[]" a] by (simp add: parse_ipv4_def)
qed

text \<open>An embedded IPv4 address is not read where no dot stands before the next colon.\<close>

lemma read_ipv4_needs_dot:
  assumes "CHR ''.'' \<notin> set (takeWhile (\<lambda>c. c \<noteq> CHR '':'') s)"
  shows "read_ipv4_addr s = None"
proof -
  define ds where "ds = takeWhile (is_digit 10) s"
  define r where "r = drop (length ds) s"
  have s: "s = ds @ r" unfolding ds_def r_def by (metis append_take_drop_id takeWhile_eq_take)
  have nc: "\<forall>c \<in> set ds. c \<noteq> CHR '':''"
    by (auto simp: ds_def to_digit_punctuation dest: set_takeWhileD)
  have "read_given_char (CHR ''.'') r = None"
  proof (cases r)
    case Nil then show ?thesis by (simp add: read_given_char_def)
  next
    case (Cons c cs)
    have "c \<noteq> CHR ''.''" using assms nc unfolding s Cons by (auto simp: takeWhile_append2)
    then show ?thesis by (simp add: Cons read_given_char_def)
  qed
  then have "read_octet 1 r = None" by (simp add: read_octet_def read_separator_def)
  moreover have "read_octet 0 s = None \<or> (\<exists>n. read_octet 0 s = Some (n, r))"
    by (auto simp: read_octet_def read_separator_def read_number_def Let_def ds_def r_def)
  ultimately show ?thesis by (auto simp: read_ipv4_addr_def)
qed

lemma show_hex_no_punct: "\<forall>c \<in> set (show_hex n). c \<noteq> CHR '':'' \<and> c \<noteq> CHR ''.''"
  using is_digit_show [of _ 16 n] to_digit_punctuation [of 16] by fastforce

lemma takeWhile_stop: "\<forall>x \<in> set xs. P x \<Longrightarrow> ys = [] \<or> \<not> P (hd ys) \<Longrightarrow> takeWhile P (xs @ ys) = xs"
  by (cases ys) (simp_all add: takeWhile_append2)

lemma read_ipv4_group:
  assumes "rest = [] \<or> hd rest = CHR '':''"
  shows "read_ipv4_addr (show_hex g @ rest) = None"
proof (rule read_ipv4_needs_dot)
  have "takeWhile (\<lambda>c. c \<noteq> CHR '':'') (show_hex g @ rest) = show_hex g"
    using assms show_hex_no_punct [of g] by (intro takeWhile_stop) blast+
  then show "CHR ''.'' \<notin> set (takeWhile (\<lambda>c. c \<noteq> CHR '':'') (show_hex g @ rest))"
    using show_hex_no_punct [of g] by metis
qed

lemma read_hex_group:
  "g < 65536 \<Longrightarrow> rest = [] \<or> hd rest = CHR '':'' \<Longrightarrow>
     read_number 16 4 True 65535 (show_hex g @ rest) = Some (g, rest)"
  by (rule read_number_show) (auto simp: to_digit_punctuation)

text \<open>\<open>groups_text i\<close> is the text of groups of which the first has the index \<open>i\<close>.\<close>

fun groups_text :: "nat \<Rightarrow> nat list \<Rightarrow> string" where
  "groups_text i [] = []"
| "groups_text i (g # gs) = (if i = 0 then [] else '':'') @ show_hex g @ groups_text (Suc i) gs"

lemma groups_text_index: "groups_text (Suc i) gs = groups_text (Suc 0) gs"
proof (induction gs arbitrary: i)
  case (Cons g gs)
  show ?case using Cons [of "Suc i"] Cons [of "Suc 0"] by simp
qed simp

lemma groups_text_Suc: "gs \<noteq> [] \<Longrightarrow> groups_text (Suc i) gs = CHR '':'' # groups_text 0 gs"
  using groups_text_index [of "Suc i"] groups_text_index [of 0] by (cases gs) simp_all

lemma fmt_subslice_groups: "fmt_subslice gs = groups_text 0 gs"
  by (induction gs rule: fmt_subslice.induct) (simp_all add: groups_text_index [of "Suc 0"])

text \<open>The groups are read back, where what follows them is neither a group nor an address.\<close>

definition ends_groups :: "string \<Rightarrow> bool" where
  "ends_groups rest \<longleftrightarrow> rest = [] \<or> (\<exists>r. rest = CHR '':'' # CHR '':'' # r)"

lemma read_nothing:
  assumes "ends_groups rest"
  shows "read_groups k i rest = ([], False, rest)"
proof -
  have none: "read_ipv4_addr s = None \<and> read_number 16 4 True 65535 s = None"
    if "s = [] \<or> hd s = CHR '':''" for s
    using that by (cases s)
      (simp_all add: read_ipv4_addr_def read_octet_def read_separator_def read_number_def Let_def to_digit_punctuation)
  have sep: "read_separator (CHR '':'') i p rest = None" if "\<And>s. s = [] \<or> hd s = CHR '':'' \<Longrightarrow> p s = None" for p :: "'a parser"
    using assms that by (auto simp: read_separator_def read_given_char_def ends_groups_def)
  show ?thesis by (cases k) (simp_all add: sep none)
qed

lemma hd_groups_text:
  "ends_groups rest \<Longrightarrow> groups_text (Suc i) gs @ rest = [] \<or> hd (groups_text (Suc i) gs @ rest) = CHR '':''"
  by (cases gs) (auto simp: ends_groups_def)

lemma read_groups_text:
  "\<forall>g \<in> set gs. g < 65536 \<Longrightarrow> length gs \<le> k \<Longrightarrow> ends_groups rest \<Longrightarrow>
   read_groups k i (groups_text i gs @ rest) = (gs, False, rest)"
proof (induction gs arbitrary: k i)
  case Nil
  then show ?case by (simp add: read_nothing)
next
  case (Cons g gs)
  then obtain k' where k: "k = Suc k'" by (cases k) auto
  note h = hd_groups_text [OF Cons.prems(3), of i gs]
  have "read_separator (CHR '':'') i read_ipv4_addr (groups_text i (g # gs) @ rest) = None"
    "read_separator (CHR '':'') i (read_number 16 4 True 65535) (groups_text i (g # gs) @ rest) =
       Some (g, groups_text (Suc i) gs @ rest)"
    using read_ipv4_group [OF h] read_hex_group [OF _ h, of g] Cons.prems(1)
    by (cases "i = 0"; simp add: read_separator_def read_given_char_def)+
  then show ?case using Cons.IH [of k' "Suc i"] Cons.prems
    by (cases "k' = 0") (simp_all add: k del: groups_text.simps(2))
qed

text \<open>The span that is left out holds zeros only.\<close>

definition zero_span :: "nat list \<Rightarrow> nat \<times> nat \<Rightarrow> bool" where
  "zero_span ss sp \<longleftrightarrow> fst sp + snd sp \<le> length ss \<and> (\<forall>j. fst sp \<le> j \<and> j < fst sp + snd sp \<longrightarrow> ss ! j = 0)"

lemma longest_zero_span_zeros:
  "zero_span (pre @ ss) longest \<Longrightarrow> zero_span (pre @ ss) current \<Longrightarrow>
   snd current = 0 \<or> fst current + snd current = length pre \<Longrightarrow>
   zero_span (pre @ ss) (longest_zero_span (length pre) longest current ss)"
proof (induction ss arbitrary: pre longest current)
  case (Cons x ss)
  have split: "pre @ x # ss = (pre @ [x]) @ ss" and len: "length (pre @ [x]) = Suc (length pre)" by simp_all
  show ?case
  proof (cases "x = 0")
    case True
    define current' where
      "current' = ((if snd current = 0 then length pre else fst current), snd current + 1)"
    have c: "zero_span ((pre @ [x]) @ ss) current'" "fst current' + snd current' = length (pre @ [x])"
      using Cons.prems(2,3) True by (auto simp: current'_def zero_span_def nth_append less_Suc_eq)
    have l: "zero_span ((pre @ [x]) @ ss) (if snd longest < snd current' then current' else longest)"
      using Cons.prems(1) c(1) by simp
    show ?thesis
      using Cons.IH [OF l c(1)] c(2) True by (auto simp: current'_def Let_def split: if_splits)
  next
    case False
    have z: "zero_span ((pre @ [x]) @ ss) (0, 0)" by (simp add: zero_span_def)
    show ?thesis using Cons.IH [OF _ z, of longest] Cons.prems(1) False by simp
  qed
qed simp

lemma zero_span_split:
  assumes "zero_span ss (st, n)"
  shows "ss = take st ss @ replicate n 0 @ drop (st + n) ss"
proof -
  have "take n (drop st ss) = replicate n 0"
    using assms by (intro nth_equalityI) (auto simp: zero_span_def)
  then show ?thesis by (metis add.commute append_take_drop_id drop_drop)
qed

lemma segments_bytes: "segments bs = gs \<Longrightarrow> even (length bs) \<Longrightarrow> octets_of_segments gs = bs"
  by (induction bs arbitrary: gs rule: segments.induct) (auto simp: octets_of_segments_def unat_u8)

lemma segments_bound: "g \<in> set (segments bs) \<Longrightarrow> g < 65536"
proof (induction bs rule: segments.induct)
  case (1 h l bs)
  then show ?case using unat_u8 [of h] unat_u8 [of l] by auto
qed simp_all

lemma length_segments: "length (segments bs) = length bs div 2"
  by (induction bs rule: segments.induct) simp_all

lemma read_compressed:
  assumes "\<forall>g \<in> set hs. g < 65536" "\<forall>g \<in> set ts. g < 65536" "length hs + length ts < 7"
  shows "read_ipv6_addr (groups_text 0 hs @ ''::'' @ groups_text 0 ts) =
           Some (hs @ replicate (8 - length hs - length ts) 0 @ ts, [])"
  using read_groups_text [of hs 8 "''::'' @ groups_text 0 ts" 0]
    read_groups_text [of ts "8 - (length hs + 1)" "[]" 0] assms
  by (simp add: read_ipv6_addr_def ends_groups_def Let_def)

lemma read_mapped:
  "read_ipv6_addr (''::ffff:'' @ show_ipv4 (Ipv4Addr a b c d)) =
     Some (replicate 5 0 @ [65535, 256 * unat a + unat b, 256 * unat c + unat d], [])"
proof -
  define v where "v = show_ipv4 (Ipv4Addr a b c d)"
  have f: "char_of (102 :: nat) = CHR ''f''" by code_simp
  have hex: "show_hex 65535 = ''ffff''"
    by (simp add: show_base.simps [of 16 65535] show_base.simps [of 16 4095] show_base.simps [of 16 255]
      show_base.simps [of 16 15] digit_def f)
  have head: "read_groups 8 0 (''::ffff:'' @ v) = ([], False, ''::ffff:'' @ v)"
    by (rule read_nothing) (simp add: ends_groups_def)
  have v4: "read_ipv4_addr (''ffff:'' @ v) = None" "read_number 16 4 True 65535 (''ffff:'' @ v) = Some (65535, CHR '':'' # v)"
    using read_ipv4_group [of "CHR '':'' # v" 65535] read_hex_group [of 65535 "CHR '':'' # v"]
    unfolding hex by simp_all
  have "read_groups (Suc 5) 1 (CHR '':'' # v) = ([256 * unat a + unat b, 256 * unat c + unat d], True, [])"
    using read_show_ipv4 [of "[]" "Ipv4Addr a b c d"]
    by (subst read_groups.simps) (simp add: read_separator_def read_given_char_def v_def del: show_ipv4.simps)
  then have "read_groups (Suc 6) 0 (''ffff:'' @ v) = ([65535, 256 * unat a + unat b, 256 * unat c + unat d], True, [])"
    using v4 by (subst read_groups.simps) (simp add: read_separator_def)
  with head show ?thesis unfolding v_def [symmetric] by (simp add: read_ipv6_addr_def)
qed

lemma read_full:
  assumes "\<forall>g \<in> set gs. g < 65536" "length gs = 8"
  shows "read_ipv6_addr (groups_text 0 gs) = Some (gs, [])"
  using read_groups_text [of gs 8 "[]" 0] assms by (simp add: read_ipv6_addr_def ends_groups_def)

lemma octets_mapped:
  "octets_of_segments (replicate 5 0 @ [65535, 256 * unat a + unat b, 256 * unat c + unat d]) =
     replicate 10 0 @ [255, 255, a, b, c, d]"
proof -
  have "replicate 5 (0 :: nat) = [0, 0, 0, 0, 0]" "replicate 10 (0 :: u8) = [0, 0, 0, 0, 0, 0, 0, 0, 0, 0]"
    by code_simp+
  then show ?thesis by (simp add: octets_of_segments_def unat_u8)
qed

lemma read_show_segments:
  assumes "length bs = 16" "longest_zero_span 0 (0, 0) (0, 0) (segments bs) = (st, n)"
  shows "1 < n \<Longrightarrow> read_ipv6_addr
           (fmt_subslice (take st (segments bs)) @ ''::'' @ fmt_subslice (drop (st + n) (segments bs))) =
             Some (segments bs, [])"
    and "read_ipv6_addr (fmt_subslice (segments bs)) = Some (segments bs, [])"
proof -
  have bound: "\<forall>g \<in> set (segments bs). g < 65536" using segments_bound by blast
  have len: "length (segments bs) = 8" using assms(1) by (simp add: length_segments)
  show "read_ipv6_addr (fmt_subslice (segments bs)) = Some (segments bs, [])"
    using read_full [OF bound len] by (simp add: fmt_subslice_groups)
  have span: "zero_span (segments bs) (st, n)"
    using longest_zero_span_zeros [of "[]" "segments bs" "(0, 0)" "(0, 0)"] assms(2) by (simp add: zero_span_def)
  have sub: "\<forall>g \<in> set (take st (segments bs)). g < 65536" "\<forall>g \<in> set (drop (st + n) (segments bs)). g < 65536"
    using bound by (auto dest: in_set_takeD in_set_dropD)
  assume n: "1 < n"
  have st: "st + n \<le> 8" using span len by (simp add: zero_span_def)
  have "8 - length (take st (segments bs)) - length (drop (st + n) (segments bs)) = n"
    "length (take st (segments bs)) + length (drop (st + n) (segments bs)) < 7"
    using n st len by simp_all
  then show "read_ipv6_addr
      (fmt_subslice (take st (segments bs)) @ ''::'' @ fmt_subslice (drop (st + n) (segments bs))) =
        Some (segments bs, [])"
    using read_compressed [OF sub] zero_span_split [OF span] unfolding fmt_subslice_groups by metis
qed

lemma sixteen_octets:
  "length bs = 16 \<Longrightarrow> take 12 bs = xs \<Longrightarrow> \<exists>a b c d. drop 12 bs = [a, b, c, d] \<and> bs = xs @ [a, b, c, d]"
proof -
  assume "length bs = 16" "take 12 bs = xs"
  moreover from this have "length (drop 12 bs) = Suc (Suc (Suc (Suc 0)))" by simp
  then obtain a b c d where "drop 12 bs = [a, b, c, d]" unfolding length_Suc_conv length_0_conv by blast
  ultimately show ?thesis by (metis append_take_drop_id)
qed

lemma parse_show_ipv6:
  assumes "length bs = 16"
  shows "parse_ipv6 (show_ipv6 (Ipv6Addr bs)) = Some (Ipv6Addr bs)"
proof (cases "take 12 bs = replicate 10 0 @ [255, 255]")
  case True
  obtain a b c d where d: "drop 12 bs = [a, b, c, d]" "bs = (replicate 10 0 @ [255, 255]) @ [a, b, c, d]"
    using sixteen_octets [OF assms True] by blast
  have "show_ipv6 (Ipv6Addr bs) = ''::ffff:'' @ show_ipv4 (Ipv4Addr a b c d)"
    using True d(1) by (simp add: ipv4_of_octets_def del: show_ipv4.simps)
  then show ?thesis using read_mapped [of a b c d] octets_mapped [of a b c d] d(2)
    by (simp add: parse_ipv6_def del: show_ipv4.simps show_ipv6.simps)
next
  case False
  obtain st n where sp: "longest_zero_span 0 (0, 0) (0, 0) (segments bs) = (st, n)" by fastforce
  have "read_ipv6_addr (show_ipv6 (Ipv6Addr bs)) = Some (segments bs, [])"
    using read_show_segments [OF assms sp] False sp by (simp add: Let_def)
  then show ?thesis using segments_bytes [of bs, OF refl] assms
    by (simp add: parse_ipv6_def del: show_ipv6.simps)
qed

end
