(* ===== verification/Endpoint_Slices.thy ===== *)
theory Endpoint_Slices
  imports Std_Parse Router_Routing
begin

text \<open>
  Endpoint slices and what the controller makes of them: the parser of
  \<open>control/src/apis/gateway/http_route.rs\<close> with its copy in
  \<open>control/src/apis/gateway/endpointslice_watcher.rs\<close>, and the watcher of that file, which collects
  the slices of a service and hands the backends to the router. The Kubernetes objects are records
  of the fields the controllers read; a signed integer of an object is an integer of HOL, and a cast
  to a narrower type wraps. A hash map is the list of its entries in iteration order.
\<close>

section \<open>Kubernetes objects\<close>

record ObjectMeta =
  om_name :: "string option"
  om_generate_name :: "string option"
  om_namespace :: "string option"
  om_labels :: "(string \<times> string) list option"
  om_annotations :: "(string \<times> string) list option"
  om_generation :: "int option"

definition name_any :: "ObjectMeta \<Rightarrow> string" where
  "name_any m =
     (case om_name m of Some n \<Rightarrow> n
      | None \<Rightarrow> (case om_generate_name m of Some n \<Rightarrow> n | None \<Rightarrow> []))"

abbreviation namespace_or_default :: "ObjectMeta \<Rightarrow> string" where
  "namespace_or_default m \<equiv> (case om_namespace m of Some ns \<Rightarrow> ns | None \<Rightarrow> ''default'')"

abbreviation unwrap_or :: "'a \<Rightarrow> 'a option \<Rightarrow> 'a" where
  "unwrap_or d x \<equiv> (case x of Some v \<Rightarrow> v | None \<Rightarrow> d)"

abbreviation as_u16 :: "int \<Rightarrow> u16" where
  "as_u16 i \<equiv> word_of_int i"

record EndpointPort =
  ep_name :: "string option"
  ep_port :: "int option"

text \<open>The conditions of an endpoint are its \<open>ready\<close> field, the only one that is read.\<close>

record Endpoint =
  en_conditions :: "bool option option"
  en_addresses :: "string list"

record EndpointSlice =
  es_metadata :: ObjectMeta
  es_ports :: "EndpointPort list option"
  es_endpoints :: "Endpoint list"

section \<open>Parsing a slice\<close>

definition slice_port :: "EndpointSlice \<Rightarrow> u16 \<Rightarrow> u16" where
  "slice_port es target_port =
     (case es_ports es of
        Some ports \<Rightarrow>
          as_u16 (unwrap_or (uint target_port)
            (case find (\<lambda>p. map_option as_u16 (ep_port p) = Some target_port) ports of
               Some p \<Rightarrow> ep_port p | None \<Rightarrow> None))
      | None \<Rightarrow> target_port)"

definition endpoint_ready :: "Endpoint \<Rightarrow> bool" where
  "endpoint_ready e = (case en_conditions e of Some ready \<Rightarrow> unwrap_or False ready | None \<Rightarrow> True)"

definition parse_address :: "u16 \<Rightarrow> string \<Rightarrow> backend option" where
  "parse_address p address =
     (case parse_ipv4 address of
        Some v4 \<Rightarrow> Some (from_ipv4 v4 p 100)
      | None \<Rightarrow>
          (case parse_ipv6 address of
             Some v6 \<Rightarrow> Some (from_ipv6 v6 p 100)
           | None \<Rightarrow> None))"

fun parse_endpoints :: "u16 \<Rightarrow> Endpoint list \<Rightarrow> backend list" where
  "parse_endpoints p [] = []"
| "parse_endpoints p (e # es) =
     (if \<not> endpoint_ready e then parse_endpoints p es
      else List.map_filter (parse_address p) (en_addresses e) @ parse_endpoints p es)"

definition parse_endpointslice_to_backends :: "EndpointSlice \<Rightarrow> u16 \<Rightarrow> backend list" where
  "parse_endpointslice_to_backends es target_port =
     parse_endpoints (slice_port es target_port) (es_endpoints es)"

text \<open>The copy of the watcher, in the order in which it pushes the backends.\<close>

fun watch_parse_addresses :: "u16 \<Rightarrow> string list \<Rightarrow> backend list \<Rightarrow> backend list" where
  "watch_parse_addresses p [] bs = bs"
| "watch_parse_addresses p (a # as) bs =
     (case parse_ipv4 a of
        Some v4 \<Rightarrow> watch_parse_addresses p as (bs @ [from_ipv4 v4 p 100])
      | None \<Rightarrow>
          (case parse_ipv6 a of
             Some v6 \<Rightarrow> watch_parse_addresses p as (bs @ [from_ipv6 v6 p 100])
           | None \<Rightarrow> watch_parse_addresses p as bs))"

definition watch_parse_endpointslice :: "EndpointSlice \<Rightarrow> u16 \<Rightarrow> backend list" where
  "watch_parse_endpointslice es target_port =
     (let p = slice_port es target_port
      in foldl (\<lambda>bs e.
           let is_ready = (case en_conditions e of Some ready \<Rightarrow> unwrap_or False ready | None \<Rightarrow> True)
           in if \<not> is_ready then bs else watch_parse_addresses p (en_addresses e) bs) [] (es_endpoints es))"

section \<open>The watcher\<close>

fun push_unseen :: "u8 list list \<Rightarrow> backend list \<Rightarrow> backend list \<Rightarrow> u8 list list \<times> backend list" where
  "push_unseen seen acc [] = (seen, acc)"
| "push_unseen seen acc (b # bs) =
     (if ip b \<in> set seen then push_unseen seen acc bs
      else push_unseen (ip b # seen) (acc @ [b]) bs)"

definition aggregate_backends_for_service ::
    "(string \<times> (string \<times> EndpointSlice) list) list \<Rightarrow> string \<Rightarrow> u16 \<Rightarrow> backend list" where
  "aggregate_backends_for_service service_slices service_key target_port =
     (case map_of service_slices service_key of
        Some slices \<Rightarrow>
          snd (foldl (\<lambda>(seen, acc) es. push_unseen seen acc (watch_parse_endpointslice es target_port))
            ([], []) (map snd slices))
      | None \<Rightarrow> [])"

record 'r Watch =
  ws_routes :: "(string \<times> string list) list"
  ws_slices :: "(string \<times> (string \<times> EndpointSlice) list) list"
  ws_router :: "'r Router"

definition SERVICE_NAME_LABEL :: string where
  "SERVICE_NAME_LABEL = ''kubernetes.io/service-name''"

definition apply_target_port :: "EndpointSlice \<Rightarrow> int" where
  "apply_target_port es =
     unwrap_or 8080
       (case es_ports es of
          None \<Rightarrow> None
        | Some ports \<Rightarrow>
            (case find (\<lambda>p. ep_name p = Some ''http'') ports of
               Some p \<Rightarrow> ep_port p
             | None \<Rightarrow> (case ports of [] \<Rightarrow> None | p # _ \<Rightarrow> ep_port p)))"

fun update_routes :: "'r matchit \<Rightarrow> bool \<Rightarrow> string list \<Rightarrow> backend list \<Rightarrow> 'r Router \<Rightarrow>
    ((string + unit) \<times> 'r Router) outcome" where
  "update_routes M rt [] bs r = Done (Inr (), r)"
| "update_routes M rt (path # paths) bs r =
     (case update_route_backends M rt GET path bs r of
        Done (Inl e, r) \<Rightarrow> Done (Inl e, r)
      | Done (Inr _, r) \<Rightarrow> update_routes M rt paths bs r
      | Panic m \<Rightarrow> Panic m
      | Diverges \<Rightarrow> Diverges)"

definition handle_endpointslice_apply :: "'r matchit \<Rightarrow> bool \<Rightarrow> EndpointSlice \<Rightarrow> 'r Watch \<Rightarrow>
    ((string + unit) \<times> 'r Watch) outcome" where
  "handle_endpointslice_apply M rt es w =
     (let ns = namespace_or_default (es_metadata es); name = name_any (es_metadata es) in
      case (case om_labels (es_metadata es) of Some ls \<Rightarrow> map_of ls SERVICE_NAME_LABEL | None \<Rightarrow> None) of
        None \<Rightarrow> Done (Inl (''EndpointSlice '' @ ns @ ''/'' @ name @ '' missing kubernetes.io/service-name label''), w)
      | Some service_name \<Rightarrow>
          let service_key = ns @ ''/'' @ service_name;
              slices = AList.update name es (unwrap_or [] (map_of (ws_slices w) service_key));
              w = w\<lparr>ws_slices := AList.update service_key slices (ws_slices w)\<rparr>;
              all_backends =
                aggregate_backends_for_service (ws_slices w) service_key (as_u16 (apply_target_port es))
          in if all_backends = [] then Done (Inr (), w)
             else (case map_of (ws_routes w) service_key of
                     Some paths \<Rightarrow>
                       map_outcome (\<lambda>(res, r). (res, w\<lparr>ws_router := r\<rparr>))
                         (update_routes M rt paths all_backends (ws_router w))
                   | None \<Rightarrow> Done (Inr (), w)))"

definition handle_endpointslice_delete :: "EndpointSlice \<Rightarrow> 'r Watch \<Rightarrow> 'r Watch" where
  "handle_endpointslice_delete es w =
     (let ns = namespace_or_default (es_metadata es); name = name_any (es_metadata es);
          service_name = unwrap_or [] (map_of (unwrap_or [] (om_labels (es_metadata es))) SERVICE_NAME_LABEL);
          service_key = ns @ ''/'' @ service_name
      in case map_of (ws_slices w) service_key of
           None \<Rightarrow> w
         | Some slices \<Rightarrow>
             let slices = AList.delete name slices;
                 w = w\<lparr>ws_slices := AList.update service_key slices (ws_slices w)\<rparr>
             in if slices = []
                then w\<lparr>ws_slices := AList.delete service_key (ws_slices w),
                       ws_routes := AList.delete service_key (ws_routes w)\<rparr>
                else w)"

datatype watch_event =
  Apply EndpointSlice | InitApply EndpointSlice | Delete EndpointSlice | Init | InitDone | WatchError string

text \<open>The loop ends with the stream of events; the error of a handler is logged and dropped.\<close>

fun watch_loop :: "'r matchit \<Rightarrow> bool \<Rightarrow> watch_event list \<Rightarrow> 'r Watch \<Rightarrow> 'r Watch outcome" where
  "watch_loop M rt [] w = Done w"
| "watch_loop M rt (ev # evs) w =
     (case (case ev of
              Apply es \<Rightarrow> map_outcome snd (handle_endpointslice_apply M rt es w)
            | InitApply es \<Rightarrow> map_outcome snd (handle_endpointslice_apply M rt es w)
            | Delete es \<Rightarrow> Done (handle_endpointslice_delete es w)
            | Init \<Rightarrow> Done w
            | InitDone \<Rightarrow> Done w
            | WatchError e \<Rightarrow> Done w) of
        Done w \<Rightarrow> watch_loop M rt evs w
      | Panic m \<Rightarrow> Panic m
      | Diverges \<Rightarrow> Diverges)"

definition watch_endpointslices :: "'r matchit \<Rightarrow> bool \<Rightarrow> watch_event list \<Rightarrow> 'r Router \<Rightarrow> 'r Router outcome" where
  "watch_endpointslices M rt events r =
     map_outcome ws_router (watch_loop M rt events \<lparr>ws_routes = [], ws_slices = [], ws_router = r\<rparr>)"

section \<open>The two parsers agree\<close>

lemma slice_port_target: "slice_port es target_port = target_port"
proof (cases "es_ports es")
  case (Some ports)
  show ?thesis
  proof (cases "find (\<lambda>p. map_option as_u16 (ep_port p) = Some target_port) ports")
    case (Some p)
    then have "map_option as_u16 (ep_port p) = Some target_port" by (auto simp: find_Some_iff)
    with Some \<open>es_ports es = Some ports\<close> show ?thesis by (auto simp: slice_port_def)
  qed (simp add: slice_port_def Some)
qed (simp add: slice_port_def)

lemma watch_parse_addresses_eq: "watch_parse_addresses p as bs = bs @ List.map_filter (parse_address p) as"
  by (induction as arbitrary: bs) (simp_all add: map_filter_simps parse_address_def split: option.split)

lemma watch_parse_endpointslice_eq: "watch_parse_endpointslice = parse_endpointslice_to_backends"
proof (intro ext)
  fix es tp
  have "foldl (\<lambda>bs e. if \<not> endpoint_ready e then bs else watch_parse_addresses p (en_addresses e) bs) acc ens =
      acc @ parse_endpoints p ens" for p acc ens
    by (induction ens arbitrary: acc) (simp_all add: watch_parse_addresses_eq)
  from this [of _ "[]"] show "watch_parse_endpointslice es tp = parse_endpointslice_to_backends es tp"
    by (simp add: watch_parse_endpointslice_def parse_endpointslice_to_backends_def endpoint_ready_def Let_def)
qed

section \<open>Reading printed addresses\<close>

definition backend_address :: "backend \<Rightarrow> string" where
  "backend_address b = (if is_ipv6 b then show_ipv6 (Ipv6Addr (ip b)) else show_ipv4 (ipv4_of_octets (ip b)))"

lemma read_ipv4_groups:
  assumes "ends_groups rest"
  shows "read_ipv4_addr (groups_text 0 gs @ rest) = None"
proof (cases gs)
  case Nil
  then show ?thesis using assms by (intro read_ipv4_needs_dot) (auto simp: ends_groups_def)
next
  case (Cons g gs')
  then show ?thesis using read_ipv4_group [OF hd_groups_text [OF assms, of 0 gs'], of g] by simp
qed

lemma read_ipv4_mapped: "read_ipv4_addr (''::ffff:'' @ s) = None"
  by (rule read_ipv4_needs_dot) simp

lemma parse_ipv4_show_ipv6: "parse_ipv4 (show_ipv6 (Ipv6Addr bs)) = None"
proof -
  obtain st n where sp: "longest_zero_span 0 (0, 0) (0, 0) (segments bs) = (st, n)" by fastforce
  have "read_ipv4_addr (show_ipv6 (Ipv6Addr bs)) = None"
    using sp read_ipv4_mapped [of "show_ipv4 (ipv4_of_octets (drop 12 bs))"]
      read_ipv4_groups [of "''::'' @ groups_text 0 (drop (st + n) (segments bs))" "take st (segments bs)"]
      read_ipv4_groups [of "[]" "segments bs"]
    by (simp add: Let_def fmt_subslice_groups ends_groups_def)
  then show ?thesis by (simp add: parse_ipv4_def del: show_ipv6.simps)
qed

lemma ipv4_octets_drop:
  assumes "length bs = 16" "drop 4 bs = replicate 12 0"
  shows "ipv4_octets (ipv4_of_octets bs) @ replicate 12 0 = bs"
proof -
  have "take 4 bs = [bs ! 0, bs ! 1, bs ! 2, bs ! 3]"
    using assms(1) by (intro nth_equalityI) (auto simp: less_Suc_eq numeral_eq_Suc)
  then show ?thesis using assms append_take_drop_id [of 4 bs] by (simp add: ipv4_of_octets_def)
qed

lemma parse_backend_address:
  assumes "backend_wf b" "port b = p" "weight b = 100"
  shows "parse_address p (backend_address b) = Some b"
proof (cases "is_ipv6 b")
  case True
  with assms show ?thesis
    by (simp add: parse_address_def backend_address_def backend_wf_def parse_ipv4_show_ipv6 parse_show_ipv6 from_ipv6_def
      del: show_ipv6.simps)
next
  case False
  with assms show ?thesis
    by (simp add: parse_address_def backend_address_def backend_wf_def parse_show_ipv4 from_ipv4_def ipv4_octets_drop
      del: show_ipv4.simps)
qed

lemma map_filter_Some: "\<forall>x \<in> set xs. f (g x) = Some x \<Longrightarrow> List.map_filter f (map g xs) = xs"
  by (induction xs) (simp_all add: map_filter_simps)

text \<open>
  C18: The addresses of endpoints are read back as the backends they name. In a slice whose
  endpoints list the printed IPv4 and IPv6 addresses of backends, the parser answers, in order, the
  backends of exactly the endpoints that are ready (no conditions, or \<open>ready\<close> true), each with the
  target port, whatever ports the slice lists.
\<close>

theorem endpoints_roundtrip:
  fixes groups :: "(bool option option \<times> backend list) list"
  assumes "\<forall>(c, bs) \<in> set groups. \<forall>b \<in> set bs. backend_wf b \<and> port b = p \<and> weight b = 100"
  shows "parse_endpointslice_to_backends
           \<lparr>es_metadata = m, es_ports = ports,
            es_endpoints = map (\<lambda>(c, bs). \<lparr>en_conditions = c, en_addresses = map backend_address bs\<rparr>) groups\<rparr> p =
         concat (map snd (filter (\<lambda>(c, bs). c = None \<or> c = Some (Some True)) groups))"
proof -
  have "parse_endpoints p
      (map (\<lambda>(c, bs). \<lparr>en_conditions = c, en_addresses = map backend_address bs\<rparr>) groups) =
        concat (map snd (filter (\<lambda>(c, bs). c = None \<or> c = Some (Some True)) groups))"
    using assms
  proof (induction groups)
    case (Cons g groups)
    obtain c bs where g: "g = (c, bs)" by fastforce
    have "List.map_filter (parse_address p) (map backend_address bs) = bs"
      using Cons.prems by (intro map_filter_Some) (auto simp: g parse_backend_address)
    then show ?case using Cons by (auto simp: g endpoint_ready_def split: option.splits)
  qed simp
  then show ?thesis by (simp add: parse_endpointslice_to_backends_def slice_port_target)
qed

theorem endpoints_roundtrip_witness:
  "parse_endpointslice_to_backends
     \<lparr>es_metadata = \<lparr>om_name = None, om_generate_name = None, om_namespace = None, om_labels = None,
        om_annotations = None, om_generation = None\<rparr>,
      es_ports = Some [],
      es_endpoints = map (\<lambda>(c, bs). \<lparr>en_conditions = c, en_addresses = map backend_address bs\<rparr>)
        [(None, [from_ipv4 (Ipv4Addr 10 0 0 1) 8080 100]), (Some None, [from_ipv4 (Ipv4Addr 10 0 0 2) 8080 100]),
         (Some (Some True), [from_ipv6 (Ipv6Addr (replicate 15 0 @ [1])) 8080 100])]\<rparr> 8080 =
   [from_ipv4 (Ipv4Addr 10 0 0 1) 8080 100, from_ipv6 (Ipv6Addr (replicate 15 0 @ [1])) 8080 100]"
  by (subst endpoints_roundtrip) (auto simp: from_ipv4_def from_ipv6_def backend_wf_def)

section \<open>The watcher and the router\<close>

lemma handle_apply_untracked:
  assumes "ws_routes w = []"
  shows "\<exists>res w'. handle_endpointslice_apply M rt es w = Done (res, w') \<and> ws_routes w' = [] \<and> ws_router w' = ws_router w"
  using assms by (auto simp: handle_endpointslice_apply_def Let_def split: option.split)

lemma handle_delete_untracked:
  "ws_routes w = [] \<Longrightarrow>
     ws_routes (handle_endpointslice_delete es w) = [] \<and> ws_router (handle_endpointslice_delete es w) = ws_router w"
  by (auto simp: handle_endpointslice_delete_def Let_def split: option.split)

lemma watch_loop_untracked:
  "ws_routes w = [] \<Longrightarrow> \<exists>w'. watch_loop M rt evs w = Done w' \<and> ws_router w' = ws_router w"
proof (induction evs arbitrary: w)
  case (Cons ev evs)
  show ?case
  proof (cases ev)
    case (Apply es)
    then show ?thesis using handle_apply_untracked [OF Cons.prems, of M rt es] Cons.IH by fastforce
  next
    case (InitApply es)
    then show ?thesis using handle_apply_untracked [OF Cons.prems, of M rt es] Cons.IH by fastforce
  next
    case (Delete es)
    then show ?thesis
      using handle_delete_untracked [OF Cons.prems, of es] Cons.IH [of "handle_endpointslice_delete es w"] by simp
  qed (use Cons in simp_all)
qed simp

text \<open>
  C34: Whatever the cluster reports, the endpoint watcher leaves the router as it was: the table
  that relates services to routes starts empty and no event adds to it, so no route is ever given
  the endpoints that were collected. The watcher neither panics nor stops before its stream ends.
\<close>

theorem watcher_never_updates_router:
  "watch_endpointslices M rt events r = Done r"
  using watch_loop_untracked [of "\<lparr>ws_routes = [], ws_slices = [], ws_router = r\<rparr>" M rt events]
  by (auto simp: watch_endpointslices_def)

section \<open>Aggregation\<close>

definition dedup_inv :: "u8 list list \<times> backend list \<Rightarrow> backend set \<Rightarrow> bool" where
  "dedup_inv st bs \<longleftrightarrow> set (fst st) = ip ` set (snd st) \<and> distinct (map ip (snd st)) \<and>
     ip ` set (snd st) = ip ` bs \<and> set (snd st) \<subseteq> bs"

lemma push_unseen_inv:
  "dedup_inv (seen, acc) B \<Longrightarrow> dedup_inv (push_unseen seen acc bs) (B \<union> set bs)"
proof (induction bs arbitrary: seen acc B)
  case (Cons b bs)
  have "dedup_inv (if ip b \<in> set seen then (seen, acc) else (ip b # seen, acc @ [b])) (insert b B)"
    using Cons.prems by (auto simp: dedup_inv_def)
  then show ?case using Cons.IH [of seen acc "insert b B"] Cons.IH [of "ip b # seen" "acc @ [b]" "insert b B"]
    by (simp split: if_splits)
qed simp

lemma aggregate_inv:
  "dedup_inv st B \<Longrightarrow>
     dedup_inv (foldl (\<lambda>(seen, acc) es. push_unseen seen acc (watch_parse_endpointslice es p)) st ess)
       (B \<union> (\<Union>es \<in> set ess. set (parse_endpointslice_to_backends es p)))"
proof (induction ess arbitrary: st B)
  case (Cons es ess)
  obtain seen acc where st: "st = (seen, acc)" by fastforce
  show ?case
    using Cons.IH [OF push_unseen_inv [OF Cons.prems [unfolded st], of "parse_endpointslice_to_backends es p"]]
    by (simp add: st watch_parse_endpointslice_eq Un_assoc)
qed simp

text \<open>
  The watcher merges the slices of a service without repeating an address: the merged list has
  pairwise different address bytes, every backend of it comes from one of the slices, and every
  address of a ready endpoint of a slice occurs in it. Only the 16 address bytes are compared, so an
  IPv4 address and the IPv6 address that starts with its octets count as one.
\<close>

theorem aggregate_deduplicates:
  assumes "map_of service_slices service_key = Some slices"
  shows "let bs = aggregate_backends_for_service service_slices service_key target_port;
             slice_backends = (\<Union>es \<in> set (map snd slices). set (parse_endpointslice_to_backends es target_port))
         in distinct (map ip bs) \<and> set bs \<subseteq> slice_backends \<and> ip ` set bs = ip ` slice_backends"
  using aggregate_inv [of "([], [])" "{}" target_port "map snd slices"] assms(1)
  unfolding Let_def aggregate_backends_for_service_def
  by (simp add: dedup_inv_def)

definition bare_slice :: "backend list \<Rightarrow> EndpointSlice" where
  "bare_slice bs =
     \<lparr>es_metadata = \<lparr>om_name = None, om_generate_name = None, om_namespace = None, om_labels = None,
        om_annotations = None, om_generation = None\<rparr>,
      es_ports = None, es_endpoints = [\<lparr>en_conditions = None, en_addresses = map backend_address bs\<rparr>]\<rparr>"

lemma parse_bare_slice:
  "\<forall>b \<in> set bs. backend_wf b \<and> port b = p \<and> weight b = 100 \<Longrightarrow> parse_endpointslice_to_backends (bare_slice bs) p = bs"
  by (simp add: bare_slice_def parse_endpointslice_to_backends_def slice_port_target endpoint_ready_def
    map_filter_Some parse_backend_address)

theorem aggregate_deduplicates_witness:
  "let v4 = from_ipv4 (Ipv4Addr 10 0 0 1) 80 100; v6 = from_ipv6 (Ipv6Addr ([10, 0, 0, 1] @ replicate 12 0)) 80 100;
       bs = aggregate_backends_for_service [(''d/s'', [(''a'', bare_slice [v4]), (''b'', bare_slice [v6])])] ''d/s'' 80
   in v4 \<noteq> v6 \<and> length bs = 1 \<and> ip ` set bs = {ip v4}"
proof -
  define v4 where "v4 = from_ipv4 (Ipv4Addr 10 0 0 1) 80 100"
  define v6 where "v6 = from_ipv6 (Ipv6Addr ([10, 0, 0, 1] @ replicate 12 0)) 80 100"
  define bs where
    "bs = aggregate_backends_for_service [(''d/s'', [(''a'', bare_slice [v4]), (''b'', bare_slice [v6])])] ''d/s'' 80"
  have slices: "parse_endpointslice_to_backends (bare_slice [v4]) 80 = [v4]"
    "parse_endpointslice_to_backends (bare_slice [v6]) 80 = [v6]"
    by (rule parse_bare_slice, simp add: v4_def v6_def from_ipv4_def from_ipv6_def backend_wf_def)+
  have "ip v4 = ip v6" "v4 \<noteq> v6" by (simp_all add: v4_def v6_def from_ipv4_def from_ipv6_def)
  moreover have "distinct (map ip bs) \<and> ip ` set bs = {ip v4, ip v6}"
    using aggregate_deduplicates [of "[(''d/s'', [(''a'', bare_slice [v4]), (''b'', bare_slice [v6])])]" "''d/s''"
      "[(''a'', bare_slice [v4]), (''b'', bare_slice [v6])]" 80]
    by (simp add: bs_def slices Let_def insert_commute)
  moreover from this have "card (set (map ip bs)) = length bs" using distinct_card [of "map ip bs"] by simp
  ultimately show ?thesis
    unfolding Let_def v4_def [symmetric] v6_def [symmetric] bs_def [symmetric] by simp
qed

end
