(* ===== verification/Weighted_Backends.thy ===== *)
theory Weighted_Backends
  imports Endpoint_Slices
begin

text \<open>
  The weighted list of backends that the route controller builds for a rule
  (\<open>control/src/apis/gateway/http_route.rs\<close>, the second pass of \<open>reconcile\<close>): slots are shared out by
  the largest remainders, every service gets a number of replicas per pod, and the pods are
  interleaved and cut at 31. Weights are \<open>i32\<close>, slots \<open>usize\<close>, and the shares are doubles.
\<close>

section \<open>The computation\<close>

definition MAX_MAGLEV_BACKENDS :: nat where "MAX_MAGLEV_BACKENDS = 31"

type_synonym service = "backend list \<times> int"

definition i32_add :: "int \<Rightarrow> int \<Rightarrow> int" where
  "i32_add a b = signed_take_bit 31 (a + b)"

definition exact_slots :: "int \<Rightarrow> int \<Rightarrow> f64" where
  "exact_slots w total_weight =
     f64_mul (f64_div (Fin (of_int w)) (of_int total_weight)) (f64_of_nat MAX_MAGLEV_BACKENDS)"

definition slot_allocation :: "int \<Rightarrow> service \<Rightarrow> backend list \<times> u64 \<times> f64" where
  "slot_allocation total_weight s =
     (let exact = exact_slots (snd s) total_weight;
          floor_slots = f64_to_u64 (f64_floor exact)
      in (fst s, floor_slots, f64_sub exact (f64_of_nat (unat floor_slots))))"

text \<open>
  The sort is stable and descending. Its comparison unwraps \<open>partial_cmp\<close>; in a list of two or more
  every element is compared.
\<close>

fun insert_desc :: "nat \<times> f64 \<Rightarrow> (nat \<times> f64) list \<Rightarrow> (nat \<times> f64) list" where
  "insert_desc x [] = [x]"
| "insert_desc x (y # ys) = (if f64_less (snd x) (snd y) then y # insert_desc x ys else x # y # ys)"

definition sort_desc :: "(nat \<times> f64) list \<Rightarrow> (nat \<times> f64) list outcome" where
  "sort_desc xs =
     (if 2 \<le> length xs \<and> list_ex (\<lambda>x. snd x = NaN) xs
      then Panic ''called `Option::unwrap()` on a `None` value''
      else Done (foldr insert_desc xs []))"

definition bump :: "(backend list \<times> u64 \<times> f64) list \<Rightarrow> nat \<Rightarrow> (backend list \<times> u64 \<times> f64) list" where
  "bump allocs i = (case allocs ! i of (bs, n, r) \<Rightarrow> allocs[i := (bs, n + 1, r)])"

definition slot_allocations :: "service list \<Rightarrow> int \<Rightarrow> (backend list \<times> u64 \<times> f64) list outcome" where
  "slot_allocations services total_weight =
     (let allocs = map (slot_allocation total_weight) services;
          allocated_slots = foldl (\<lambda>n (_, fs, _). n + fs) 0 allocs;
          remaining_slots = of_nat MAX_MAGLEV_BACKENDS - allocated_slots :: u64;
          indexed_remainders = map (\<lambda>(i, _, _, r). (i, r)) (List.enumerate 0 allocs)
      in map_outcome (\<lambda>sorted.
           foldl (\<lambda>allocs (i, _). bump allocs i) allocs
             (take (min (unat remaining_slots) (length sorted)) sorted))
         (sort_desc indexed_remainders))"

definition replicas_per_pod :: "u64 \<Rightarrow> nat \<Rightarrow> u64" where
  "replicas_per_pod service_slots pods_count =
     f64_to_u64 (f64_max (f64_ceil (f64_ratio (unat service_slots) pods_count)) (Fin 1))"

definition interleave :: "(backend list \<times> u64) list \<Rightarrow> backend list" where
  "interleave targets =
     concat (map (\<lambda>replica_round.
         concat (map (\<lambda>(bs, r). if replica_round < unat r then bs else []) targets))
       [0 ..< foldl max 0 (map (\<lambda>(_, r). unat r) targets)])"

definition weighted_backends :: "service list \<Rightarrow> int \<Rightarrow> backend list outcome" where
  "weighted_backends services total_weight =
     (if 0 < total_weight
      then map_outcome (\<lambda>allocs.
             let service_targets = map (\<lambda>(bs, slots, _). (bs, replicas_per_pod slots (length bs))) allocs;
                 backends = interleave service_targets
             in if MAX_MAGLEV_BACKENDS < length backends then take MAX_MAGLEV_BACKENDS backends else backends)
           (slot_allocations services total_weight)
      else Done [])"

section \<open>No panic\<close>

lemma f64_round_not_NaN: "f64_round q \<noteq> NaN"
  by (simp add: f64_round_def Let_def)

lemma exact_slots_not_NaN: "0 < tw \<Longrightarrow> exact_slots w tw \<noteq> NaN"
proof -
  assume "0 < tw"
  then have "f64_div (Fin (of_int w)) (of_int tw) \<noteq> NaN" by (simp add: f64_round_not_NaN)
  moreover have "f64_of_nat MAX_MAGLEV_BACKENDS = Fin 31"
    using f64_of_nat_exact [of 31] by (simp add: MAX_MAGLEV_BACKENDS_def)
  ultimately show ?thesis unfolding exact_slots_def
    by (cases "f64_div (Fin (of_int w)) (of_int tw)") (simp_all add: f64_round_not_NaN)
qed

lemma f64_of_nat_fin: "n < 2 ^ 64 \<Longrightarrow> f64_of_nat n = Fin (f64_nearest (of_nat n))"
proof -
  assume "n < 2 ^ 64"
  then have n: "(of_nat n :: rat) \<le> 2 powi 64" using of_nat_bound [of n 64] by simp
  have "0 \<le> f64_nearest (of_nat n)" by (rule f64_nearest_nonneg) simp
  moreover have "f64_nearest (of_nat n) \<le> 2 powi 64" by (rule f64_nearest_le_power) (use n in simp_all)
  ultimately have "\<bar>f64_nearest (of_nat n)\<bar> < 2 ^ 1024" by simp
  then show ?thesis by (simp add: f64_of_nat_def f64_round_fin)
qed

lemma f64_of_u64_fin: "\<exists>q. f64_of_nat (unat (n :: u64)) = Fin q"
proof -
  have "unat n < 2 ^ 64" using unsigned_less [of n] by simp
  then show ?thesis using f64_of_nat_fin by blast
qed

lemma remainder_not_NaN: "0 < tw \<Longrightarrow> snd (snd (slot_allocation tw s)) \<noteq> NaN"
  using exact_slots_not_NaN [of tw "snd s"] f64_of_u64_fin [of "f64_to_u64 (f64_floor (exact_slots (snd s) tw))"]
  by (cases "exact_slots (snd s) tw") (auto simp: slot_allocation_def Let_def f64_round_not_NaN)

lemma bump_eq: "bump allocs i = allocs[i := (fst (allocs ! i), fst (snd (allocs ! i)) + 1, snd (snd (allocs ! i)))]"
  by (simp add: bump_def split: prod.split)

lemma bump_props [simp]: "length (bump allocs i) = length allocs" "map fst (bump allocs i) = map fst allocs"
proof -
  show "length (bump allocs i) = length allocs" by (simp add: bump_eq)
  show "map fst (bump allocs i) = map fst allocs"
    unfolding bump_eq map_update fst_conv
    using list_update_id [of "map fst allocs" i] by (cases "i < length allocs") (simp_all add: list_update_beyond not_less)
qed

lemma fold_bump_props:
  "length (foldl (\<lambda>allocs (i, _). bump allocs i) allocs is) = length allocs"
  "map fst (foldl (\<lambda>allocs (i, _). bump allocs i) allocs is) = map fst allocs"
  by (induction "is" arbitrary: allocs) auto

lemma sort_desc_done:
  "\<forall>x \<in> set xs. snd x \<noteq> NaN \<Longrightarrow> sort_desc xs = Done (foldr insert_desc xs [])"
  by (auto simp: sort_desc_def list_ex_iff)

lemma slot_allocations_done:
  assumes "0 < tw"
  shows "\<exists>allocs. slot_allocations services tw = Done allocs \<and> map fst allocs = map fst services"
proof -
  define allocs where "allocs = map (slot_allocation tw) services"
  define ir where "ir = map (\<lambda>(i, _, _, r). (i, r)) (List.enumerate 0 allocs)"
  have "\<forall>x \<in> set ir. snd x \<noteq> NaN"
  proof
    fix x assume "x \<in> set ir"
    then obtain i a where "(i, a) \<in> set (List.enumerate 0 allocs)" and x: "x = (i, snd (snd a))"
      unfolding ir_def by (auto split: prod.splits)
    then have "a \<in> set allocs" by (simp add: enumerate_eq_zip set_zip_rightD)
    then show "snd x \<noteq> NaN" using remainder_not_NaN [OF assms] by (auto simp: allocs_def x)
  qed
  from sort_desc_done [OF this] obtain sorted where "sort_desc ir = Done sorted" by blast
  moreover have "map fst allocs = map fst services"
    by (simp add: allocs_def slot_allocation_def Let_def)
  ultimately show ?thesis
    by (simp add: slot_allocations_def Let_def allocs_def [symmetric] ir_def [symmetric] fold_bump_props)
qed

section \<open>Every pod comes first once\<close>

lemma replicas_pos: "0 < unat (replicas_per_pod slots pods)"
proof -
  have *: "f64_to_u64 (Fin q) \<noteq> 0" if "1 \<le> q" for q
  proof (cases "2 ^ 64 \<le> q")
    case False
    have "1 \<le> \<lfloor>q\<rfloor>" using that by simp
    moreover have "\<lfloor>q\<rfloor> < 2 ^ 64" using False by (simp add: floor_less_iff not_le)
    ultimately have "uint (of_int \<lfloor>q\<rfloor> :: u64) = \<lfloor>q\<rfloor>" by (simp add: uint_word_of_int_eq take_bit_int_eq_self)
    with \<open>1 \<le> \<lfloor>q\<rfloor>\<close> have "(of_int \<lfloor>q\<rfloor> :: u64) \<noteq> 0" by (metis not_one_le_zero uint_0_eq)
    with False that show ?thesis by simp
  qed (use that in simp)
  have "replicas_per_pod slots pods \<noteq> 0"
    using * by (cases "f64_ceil (f64_ratio (unat slots) pods)") (auto simp: replicas_per_pod_def f64_max_def)
  then show ?thesis by (simp add: unat_gt_0)
qed

lemma foldl_max_le_iff: "foldl max a xs \<le> (b :: nat) \<longleftrightarrow> a \<le> b \<and> (\<forall>x \<in> set xs. x \<le> b)"
  by (induction xs arbitrary: a) auto

lemma foldl_max_ge: "x \<in> set xs \<Longrightarrow> (x :: nat) \<le> foldl max a xs"
  using foldl_max_le_iff [of a xs "foldl max a xs"] by simp

lemma interleave_first:
  assumes "\<forall>(bs, r) \<in> set targets. 0 < unat r"
  shows "\<exists>rest. interleave targets = concat (map fst targets) @ rest"
proof (cases targets)
  case (Cons t ts)
  define n where "n = foldl max 0 (map (\<lambda>(_, r). unat r) targets)"
  have "0 < unat (snd t)" using assms Cons by auto
  moreover have "unat (snd t) \<le> n"
    unfolding n_def by (rule foldl_max_ge) (auto simp: Cons split: prod.split)
  ultimately have n: "[0 ..< n] = 0 # [1 ..< n]" by (simp add: upt_rec)
  have "concat (map (\<lambda>(bs, r). if 0 < unat r then bs else []) targets) = concat (map fst targets)"
    using assms by (intro arg_cong [of _ _ concat] map_cong refl) auto
  then show ?thesis by (simp add: interleave_def n_def [symmetric] n)
qed (simp add: interleave_def)

lemma weighted_backends_prefix:
  assumes "0 < tw"
  shows "\<exists>rest. weighted_backends services tw = Done (take MAX_MAGLEV_BACKENDS (concat (map fst services) @ rest))"
proof -
  obtain allocs where a: "slot_allocations services tw = Done allocs" "map fst allocs = map fst services"
    using slot_allocations_done [OF assms] by blast
  define targets where "targets = map (\<lambda>(bs, slots, _). (bs, replicas_per_pod slots (length bs))) allocs"
  have "\<forall>(bs, r) \<in> set targets. 0 < unat r" by (auto simp: targets_def replicas_pos)
  from interleave_first [OF this] obtain rest where
    "interleave targets = concat (map fst targets) @ rest" by blast
  moreover have "map fst targets = map fst services" by (simp add: targets_def a(2) [symmetric] split_def)
  ultimately show ?thesis using assms a(1)
    by (auto simp: weighted_backends_def Let_def targets_def [symmetric] intro!: exI [of _ rest])
qed

text \<open>
  C12: The pods come before the weights. If the total weight of a rule is positive, the list that
  \<open>reconcile\<close> builds has at most 31 entries and starts with the pods of all services, once each and in
  the order of the services, cut after the first 31 of them. So a pod among the first 31 is
  served even if the weight of its service is 0; with 31 or more pods the list consists of the first 31
  pods and the weights have no effect; and the pods after the first 31 are left out. If the total
  weight is not positive the list is empty.
\<close>

theorem pods_before_weights:
  "\<exists>bs. weighted_backends services tw = Done bs \<and> length bs \<le> 31 \<and>
     (let pods = concat (map fst services) in
      if tw \<le> 0 then bs = []
      else if 31 \<le> length pods then bs = take 31 pods
      else take (length pods) bs = pods)"
proof (cases "0 < tw")
  case True
  obtain rest where "weighted_backends services tw = Done (take MAX_MAGLEV_BACKENDS (concat (map fst services) @ rest))"
    using weighted_backends_prefix [OF True] by blast
  with True show ?thesis by (auto simp: MAX_MAGLEV_BACKENDS_def Let_def min_def)
qed (simp add: weighted_backends_def)

text \<open>A pod of a service of weight 0.\<close>

lemma weightless_pod_served:
  "\<exists>bs. weighted_backends [([backend_new 1 80 100], 100), ([backend_new 2 80 100], 0)] 100 = Done bs \<and>
     backend_new 2 80 100 \<in> set bs"
proof -
  obtain rest where "weighted_backends [([backend_new 1 80 100], 100), ([backend_new 2 80 100], 0)] 100 =
      Done (take MAX_MAGLEV_BACKENDS ([backend_new 1 80 100, backend_new 2 80 100] @ rest))"
    using weighted_backends_prefix [of 100 "[([backend_new 1 80 100], 100), ([backend_new 2 80 100], 0)]"] by auto
  then show ?thesis by (simp add: MAX_MAGLEV_BACKENDS_def numeral_eq_Suc)
qed

end
