(* ===== verification/Weighted_Slots.thy ===== *)
theory Weighted_Slots
  imports Weighted_Backends
begin

text \<open>
  What the shares of \<open>Weighted_Backends\<close> are worth. The doubles stay within a fixed error of the exact
  quotas, which keep a distance of \<open>1 / 2 ^ 31\<close> from the next integer, so the floors are off by one at
  most where the quota is an integer, and the remainder then puts the service first in line for an
  extra slot. The slots add up to 31 and each service gets its quota rounded down or up.
\<close>

section \<open>The shares of the services\<close>

definition quota :: "int \<Rightarrow> int \<Rightarrow> rat" where
  "quota w tw = 31 * of_int w / of_int tw"

definition eps :: rat where "eps = 1 / 2 ^ 40"

lemma quota_bounds:
  assumes "0 \<le> w" "w \<le> tw" "0 < tw"
  shows "0 \<le> quota w tw" "quota w tw \<le> 31"
  using assms by (simp_all add: quota_def divide_le_eq)

lemma rel_error:
  assumes "1 / 2 ^ 31 \<le> q"
  shows "\<bar>f64_nearest q - q\<bar> \<le> q / 2 ^ 53"
proof -
  have "0 \<le> q" by (rule order_trans [OF _ assms]) simp
  then have abs: "\<bar>q\<bar> = q" by (rule abs_of_nonneg)
  have eq: "(2 :: rat) powi (- 31) = 1 / 2 ^ 31" by (simp add: power_int_minus)
  have "(2 :: rat) powi (- 1022) \<le> 2 powi (- 31)" by (rule power_int_increasing) simp_all
  then have "(2 :: rat) powi (- 1022) \<le> q" unfolding eq using assms by (rule order_trans)
  then show ?thesis using f64_nearest_relative [of q] unfolding abs by blast
qed

lemma two_roundings:
  fixes a x p :: rat
  assumes "0 \<le> p" "p \<le> 1" "\<bar>a - p\<bar> \<le> p / 2 ^ 53" "\<bar>x - 31 * a\<bar> \<le> 31 * a / 2 ^ 53"
  shows "\<bar>x - 31 * p\<bar> \<le> eps"
proof -
  have "p / 2 ^ 53 \<le> 1 / 2 ^ 53" using assms(2) by (simp add: divide_right_mono)
  with assms(3) have a: "\<bar>a - p\<bar> \<le> 1 / 2 ^ 53" by (rule order_trans)
  have "(1 :: rat) / 2 ^ 53 \<le> 1" by simp
  with a assms(2) have "a \<le> 2" by linarith
  then have "31 * a / 2 ^ 53 \<le> 62 / 2 ^ 53" by (simp add: divide_right_mono)
  with assms(4) have "\<bar>x - 31 * a\<bar> \<le> 62 / 2 ^ 53" by (rule order_trans)
  moreover have "(62 :: rat) / 2 ^ 53 + 31 * (1 / 2 ^ 53) \<le> eps" by (simp add: eps_def)
  ultimately show ?thesis using a by linarith
qed

lemma exact_slots_share:
  assumes "0 \<le> w" "w \<le> tw" "0 < tw" "tw < 2 ^ 31"
  obtains x where "exact_slots w tw = Fin x" "0 \<le> x" "\<bar>x - quota w tw\<bar> \<le> eps" "w = 0 \<longrightarrow> x = 0"
proof (cases "w = 0")
  case True
  then have "exact_slots w tw = Fin 0"
    using assms f64_of_nat_exact [of 31]
    by (simp add: exact_slots_def MAX_MAGLEV_BACKENDS_def f64_round_def f64_nearest_def)
  with that [of 0] True show ?thesis by (simp add: quota_def eps_def)
next
  case False
  define p :: rat where "p = of_int w / of_int tw"
  define a where "a = f64_nearest p"
  define x where "x = f64_nearest (31 * a)"
  have p: "1 / 2 ^ 31 \<le> p" "p \<le> 1"
  proof -
    have "(of_int tw :: rat) \<le> 2 ^ 31" using assms(4) by (metis less_imp_le of_int_le_iff of_int_numeral of_int_power)
    also have "\<dots> \<le> 2 ^ 31 * of_int w" using False assms(1) by simp
    finally show "1 / 2 ^ 31 \<le> p" using assms(3) by (simp add: p_def field_simps)
  qed (use assms in \<open>simp add: p_def\<close>)
  have p0: "0 \<le> p" using p(1) by (rule order_trans [rotated]) simp
  have ea: "\<bar>a - p\<bar> \<le> p / 2 ^ 53" unfolding a_def by (rule rel_error [OF p(1)])
  have "p / 2 ^ 53 \<le> p / 2" using p0 by (simp add: field_simps)
  with ea have "\<bar>a - p\<bar> \<le> p / 2" by (rule order_trans)
  then have a: "1 / 2 ^ 32 \<le> a" "a \<le> 2" using p by (simp_all, linarith+)
  have "1 / 2 ^ 31 \<le> 31 * a" using a(1) by simp
  then have ex: "\<bar>x - 31 * a\<bar> \<le> 31 * a / 2 ^ 53" unfolding x_def by (rule rel_error)
  have a0: "0 \<le> a" using a(1) by (rule order_trans [rotated]) simp
  have "31 * a / 2 ^ 53 \<le> a / 2" using a0 by (simp add: field_simps)
  with ex have "\<bar>x - 31 * a\<bar> \<le> a / 2" by (rule order_trans)
  then have x: "0 \<le> x" "x \<le> 63" using a(2) a0 by linarith+
  have "f64_round p = Fin a" unfolding a_def by (rule f64_round_fin) (use a a0 in \<open>simp add: a_def\<close>)
  moreover have "f64_round (a * 31) = Fin x"
    unfolding x_def by (subst mult.commute, rule f64_round_fin) (use x in \<open>simp add: x_def\<close>)
  ultimately have "exact_slots w tw = Fin x"
    using assms f64_of_nat_exact [of 31] by (simp add: exact_slots_def MAX_MAGLEV_BACKENDS_def p_def)
  moreover have "\<bar>x - quota w tw\<bar> \<le> eps"
    using two_roundings [OF p0 p(2) ea ex] by (simp add: quota_def p_def)
  ultimately show ?thesis using that [of x] x False by simp
qed

lemma quota_gap:
  assumes "0 < tw" "tw < 2 ^ 31"
  shows "quota w tw = of_int \<lfloor>quota w tw\<rfloor> \<or> of_int \<lfloor>quota w tw\<rfloor> + 1 / 2 ^ 31 \<le> quota w tw"
    and "quota w tw + 1 / 2 ^ 31 \<le> of_int \<lfloor>quota w tw\<rfloor> + 1"
proof -
  define k where "k = \<lfloor>quota w tw\<rfloor>"
  have t: "(0 :: rat) < of_int tw" "(1 :: rat) / 2 ^ 31 \<le> 1 / of_int tw"
  proof -
    show pos: "(0 :: rat) < of_int tw" using assms(1) by simp
    have "(of_int tw :: rat) \<le> of_int (2 ^ 31)" using assms(2) by (simp only: of_int_le_iff)
    then show "(1 :: rat) / 2 ^ 31 \<le> 1 / of_int tw" using pos by (simp add: frac_le)
  qed
  have q: "quota w tw * of_int tw = of_int (31 * w)" using t(1) by (simp add: quota_def)
  have lo: "of_int k * of_int tw \<le> quota w tw * of_int tw"
    using t(1) by (intro mult_right_mono) (simp_all add: k_def)
  have hi: "quota w tw * of_int tw < (of_int k + 1) * of_int tw"
    by (rule mult_strict_right_mono) (use floor_correct [of "quota w tw"] t(1) in \<open>simp_all add: k_def\<close>)
  have "(of_int (k * tw) :: rat) \<le> of_int (31 * w)" using lo unfolding q by (simp only: of_int_mult)
  then have lo': "k * tw \<le> 31 * w" by (simp only: of_int_le_iff)
  have "(of_int (31 * w) :: rat) < of_int ((k + 1) * tw)"
    using hi unfolding q by (simp only: of_int_mult of_int_add of_int_1)
  then have hi': "31 * w < (k + 1) * tw" by (simp only: of_int_less_iff)
  have "of_int (31 * w) + 1 \<le> (of_int ((k + 1) * tw) :: rat)"
    using hi' by (metis of_int_1 of_int_add of_int_le_iff zless_imp_add1_zle)
  then have "quota w tw + 1 / of_int tw \<le> of_int k + 1" using t(1) by (simp add: quota_def field_simps)
  with t(2) show "quota w tw + 1 / 2 ^ 31 \<le> of_int \<lfloor>quota w tw\<rfloor> + 1" unfolding k_def [symmetric] by linarith
  show "quota w tw = of_int \<lfloor>quota w tw\<rfloor> \<or> of_int \<lfloor>quota w tw\<rfloor> + 1 / 2 ^ 31 \<le> quota w tw"
  proof (cases "k * tw = 31 * w")
    case True
    then have "of_int k * of_int tw = (of_int (31 * w) :: rat)" by (metis of_int_mult)
    then show ?thesis using t(1) unfolding k_def [symmetric] by (simp add: quota_def field_simps)
  next
    case False
    with lo' have "of_int (k * tw) + 1 \<le> (of_int (31 * w) :: rat)"
      by (metis of_int_1 of_int_add of_int_le_iff zless_imp_add1_zle le_neq_trans)
    then have "(of_int (k * tw) + 1) / of_int tw \<le> (of_int (31 * w) :: rat) / of_int tw"
      using t(1) by (intro divide_right_mono) simp_all
    then have "of_int k + 1 / of_int tw \<le> quota w tw" using t(1) by (simp add: quota_def add_divide_distrib)
    with t(2) show ?thesis unfolding k_def [symmetric] by linarith
  qed
qed

lemma unit_error: "0 \<le> y \<Longrightarrow> y < 2 \<Longrightarrow> \<bar>f64_nearest y - y\<bar> \<le> eps"
proof (cases "y = 0")
  case False
  assume "0 \<le> y" "y < 2"
  with False have "rat_log2 \<bar>y\<bar> < 1" by (intro rat_log2_less) simp_all
  then have "ulp y \<le> 2 powi (- 52)" unfolding ulp_def by (intro power_int_increasing) simp_all
  also have "(2 :: rat) powi (- 52) \<le> eps" by (simp add: power_int_minus eps_def)
  finally show ?thesis using f64_nearest_error [of y] ulp_pos(1) [of y] by linarith
qed (simp add: f64_nearest_def eps_def)

definition alloc_ok :: "rat \<Rightarrow> nat \<Rightarrow> rat \<Rightarrow> bool" where
  "alloc_ok q f r \<longleftrightarrow>
     int f = \<lfloor>q\<rfloor> \<and> \<bar>r - (q - of_int \<lfloor>q\<rfloor>)\<bar> \<le> 2 * eps \<or>
     int f = \<lfloor>q\<rfloor> - 1 \<and> q = of_int \<lfloor>q\<rfloor> \<and> 1 - 2 * eps \<le> r"

lemma eps_small: "0 < eps" "4 * eps < 1 / 2 ^ 31" "eps < 1" "4 * eps < 1"
  by (simp_all add: eps_def)

lemma unat_of_slots: "f \<le> 32 \<Longrightarrow> unat (of_nat f :: u64) = f"
  by (simp add: unsigned_of_nat take_bit_nat_eq_self)

lemma unat_of_small: "f \<le> 31 \<Longrightarrow> unat (of_nat f :: u64) = f"
  by (simp add: unat_of_slots)

lemma floor_slots_eq: "0 \<le> x \<Longrightarrow> x < 32 \<Longrightarrow> f64_to_u64 (f64_floor (Fin x)) = of_nat (nat \<lfloor>x\<rfloor>)"
proof -
  assume x: "0 \<le> x" "x < 32"
  have "(of_int \<lfloor>x\<rfloor> :: rat) \<le> x" by simp
  with x have "(of_int \<lfloor>x\<rfloor> :: rat) < 2 ^ 64" by simp
  moreover have "0 \<le> \<lfloor>x\<rfloor>" using x by simp
  moreover have "\<lfloor>x\<rfloor> < 32" using x by (simp add: floor_less_iff)
  ultimately show ?thesis by (simp add: f64_floor_def)
qed

lemma near_floor:
  assumes "\<bar>x - q\<bar> \<le> eps" "q + 1 / 2 ^ 31 \<le> of_int \<lfloor>q\<rfloor> + 1" "q = of_int \<lfloor>q\<rfloor> \<or> of_int \<lfloor>q\<rfloor> + 1 / 2 ^ 31 \<le> q"
    "\<bar>r - (x - of_int \<lfloor>x\<rfloor>)\<bar> \<le> eps" "0 \<le> \<lfloor>x\<rfloor>"
  shows "alloc_ok q (nat \<lfloor>x\<rfloor>) r"
proof -
  have fl: "of_int \<lfloor>q\<rfloor> \<le> q" by simp
  have "x < of_int (\<lfloor>q\<rfloor> + 1)" using assms(1,2) eps_small by simp
  then have "\<lfloor>x\<rfloor> < \<lfloor>q\<rfloor> + 1" by (simp only: floor_less_iff)
  then have "\<lfloor>x\<rfloor> \<le> \<lfloor>q\<rfloor>" by simp
  moreover have "of_int (\<lfloor>q\<rfloor> - 1) \<le> x" using assms(1) fl eps_small unfolding of_int_diff of_int_1 by linarith
  then have "\<lfloor>q\<rfloor> - 1 \<le> \<lfloor>x\<rfloor>" by (simp only: le_floor_iff)
  ultimately consider "\<lfloor>x\<rfloor> = \<lfloor>q\<rfloor>" | "\<lfloor>x\<rfloor> = \<lfloor>q\<rfloor> - 1" by linarith
  then show ?thesis
  proof cases
    case 1
    then have "\<bar>r - (q - of_int \<lfloor>q\<rfloor>)\<bar> \<le> 2 * eps" using assms(1,4) by linarith
    then show ?thesis using 1 assms(5) by (simp add: alloc_ok_def)
  next
    case 2
    have f: "(of_int \<lfloor>x\<rfloor> :: rat) = of_int \<lfloor>q\<rfloor> - 1" using 2 by simp
    have "x < of_int \<lfloor>x\<rfloor> + 1" using floor_correct [of x] by simp
    with f assms(1,3) eps_small have "q = of_int \<lfloor>q\<rfloor>" by linarith
    moreover from this f assms(1,4) have "1 - 2 * eps \<le> r" by linarith
    moreover have "int (nat \<lfloor>x\<rfloor>) = \<lfloor>q\<rfloor> - 1" using 2 assms(5) by simp
    ultimately show ?thesis unfolding alloc_ok_def by blast
  qed
qed

lemma slot_allocation_spec:
  assumes "0 \<le> w" "w \<le> tw" "0 < tw" "tw < 2 ^ 31"
  obtains f r where "slot_allocation tw (bs, w) = (bs, of_nat f, Fin r)" "f \<le> 31"
    "alloc_ok (quota w tw) f r" "w = 0 \<longrightarrow> f = 0"
proof -
  obtain x where x: "exact_slots w tw = Fin x" "0 \<le> x" "\<bar>x - quota w tw\<bar> \<le> eps" "w = 0 \<longrightarrow> x = 0"
    using exact_slots_share [OF assms] .
  note gap = quota_gap [OF assms(3,4), of w]
  define f where "f = nat \<lfloor>x\<rfloor>"
  define r where "r = f64_nearest (x - of_int \<lfloor>x\<rfloor>)"
  have x32: "x < 32" using x(3) quota_bounds [OF assms(1-3)] eps_small by linarith
  have f: "f \<le> 31" "(of_nat f :: rat) = of_int \<lfloor>x\<rfloor>"
  proof -
    have "\<lfloor>x\<rfloor> < 32" using x32 by (simp add: floor_less_iff)
    then show "f \<le> 31" unfolding f_def by linarith
    show "(of_nat f :: rat) = of_int \<lfloor>x\<rfloor>" using x(2) by (simp add: f_def)
  qed
  have y: "0 \<le> x - of_int \<lfloor>x\<rfloor>" "x - of_int \<lfloor>x\<rfloor> < 1" using floor_correct [of x] by simp_all
  have r: "\<bar>r - (x - of_int \<lfloor>x\<rfloor>)\<bar> \<le> eps" unfolding r_def by (rule unit_error) (use y in simp_all)
  then have "\<bar>r\<bar> \<le> 2" using y eps_small(3) by linarith
  then have "\<bar>r\<bar> < 2 ^ 1024" by (rule le_less_trans) simp
  then have "f64_round (x - of_int \<lfloor>x\<rfloor>) = Fin r" unfolding r_def by (rule f64_round_fin)
  then have "slot_allocation tw (bs, w) = (bs, of_nat f, Fin r)"
    using x(1,2) x32 f f64_of_nat_exact [of f] by (simp add: slot_allocation_def floor_slots_eq f_def [symmetric] unat_of_small)
  moreover have "alloc_ok (quota w tw) f r"
    unfolding f_def by (rule near_floor [OF x(3) gap(2) gap(1) r]) (use x(2) in simp)
  moreover have "w = 0 \<longrightarrow> f = 0" using x(4) by (simp add: f_def)
  ultimately show ?thesis using that f(1) by blast
qed

text \<open>
  The counting argument: \<open>f\<close> are the floors as they were computed, \<open>r\<close> the remainders, and \<open>extra\<close> the
  services that get one slot more, a set that contains with a service all those of greater remainder.
\<close>

definition short :: "nat \<Rightarrow> (nat \<Rightarrow> rat) \<Rightarrow> (nat \<Rightarrow> nat) \<Rightarrow> nat set" where
  "short n q f = {i. i < n \<and> int (f i) = \<lfloor>q i\<rfloor> - 1}"

definition fractional :: "nat \<Rightarrow> (nat \<Rightarrow> rat) \<Rightarrow> nat set" where
  "fractional n q = {i. i < n \<and> q i \<noteq> of_int \<lfloor>q i\<rfloor>}"

lemma floors_short:
  assumes "\<forall>i < n. alloc_ok (q i) (f i) (r i)"
  shows "int (\<Sum>i < n. f i) = (\<Sum>i < n. \<lfloor>q i\<rfloor>) - int (card (short n q f))"
proof -
  have "int (f i) = \<lfloor>q i\<rfloor> - (if i \<in> short n q f then 1 else 0)" if "i < n" for i
    using assms that by (auto simp: alloc_ok_def short_def)
  then have "(\<Sum>i < n. int (f i)) = (\<Sum>i < n. \<lfloor>q i\<rfloor> - (if i \<in> short n q f then 1 else 0))" by simp
  also have "\<dots> = (\<Sum>i < n. \<lfloor>q i\<rfloor>) - (\<Sum>i < n. if i \<in> short n q f then 1 else 0)" by (rule sum_subtractf)
  also have "(\<Sum>i < n. if i \<in> short n q f then 1 else (0 :: int)) = int (card ({..<n} \<inter> short n q f))"
    by (simp add: sum.If_cases)
  also have "{..<n} \<inter> short n q f = short n q f" by (auto simp: short_def)
  finally show ?thesis by simp
qed

lemma fractions_sum:
  assumes "(\<Sum>i < n. q i) = of_int c"
  shows "0 \<le> c - (\<Sum>i < n. \<lfloor>q i\<rfloor>)" "c - (\<Sum>i < n. \<lfloor>q i\<rfloor>) \<le> int (card (fractional n q))"
proof -
  have s: "of_int (c - (\<Sum>i < n. \<lfloor>q i\<rfloor>)) = (\<Sum>i < n. q i - of_int \<lfloor>q i\<rfloor>)"
    by (simp add: sum_subtractf assms)
  have "0 \<le> (\<Sum>i < n. q i - of_int \<lfloor>q i\<rfloor>)" by (intro sum_nonneg) simp
  then show "0 \<le> c - (\<Sum>i < n. \<lfloor>q i\<rfloor>)" unfolding s [symmetric] by (simp only: of_int_0_le_iff)
  have "(\<Sum>i < n. q i - of_int \<lfloor>q i\<rfloor>) \<le> (\<Sum>i < n. if i \<in> fractional n q then 1 else 0)"
  proof (rule sum_mono)
    fix i assume "i \<in> {..<n}"
    then show "q i - of_int \<lfloor>q i\<rfloor> \<le> (if i \<in> fractional n q then 1 else 0)"
      using floor_correct [of "q i"] by (auto simp: fractional_def)
  qed
  also have "\<dots> = of_nat (card ({..<n} \<inter> fractional n q))" by (simp add: sum.If_cases)
  also have "{..<n} \<inter> fractional n q = fractional n q" by (auto simp: fractional_def)
  finally have "of_int (c - (\<Sum>i < n. \<lfloor>q i\<rfloor>)) \<le> (of_int (int (card (fractional n q))) :: rat)" unfolding s by simp
  then show "c - (\<Sum>i < n. \<lfloor>q i\<rfloor>) \<le> int (card (fractional n q))" by (simp only: of_int_le_iff)
qed

lemma quota_rule:
  fixes n :: nat
  assumes ok: "\<forall>i < n. alloc_ok (q i) (f i) (r i)" and sum: "(\<Sum>i < n. q i) = of_int c"
    and gap: "\<forall>i < n. q i + 1 / 2 ^ 31 \<le> of_int \<lfloor>q i\<rfloor> + 1 \<and> (q i = of_int \<lfloor>q i\<rfloor> \<or> of_int \<lfloor>q i\<rfloor> + 1 / 2 ^ 31 \<le> q i)"
    and extra: "extra \<subseteq> {..<n}" "\<forall>i \<in> extra. \<forall>j < n. r i < r j \<longrightarrow> j \<in> extra"
    and card: "int (card extra) = c - int (\<Sum>i < n. f i)"
    and i: "i < n"
  shows "\<lfloor>q i\<rfloor> \<le> int (f i + (if i \<in> extra then 1 else 0))" "int (f i + (if i \<in> extra then 1 else 0)) \<le> \<lceil>q i\<rceil>"
proof -
  let ?D = "short n q f" and ?N = "fractional n q"
  have fin: "finite ?D" "finite ?N" "finite extra"
    using finite_subset [OF extra(1)] by (simp_all add: short_def fractional_def)
  have disj: "?D \<inter> ?N = {}" using ok by (auto simp: short_def fractional_def alloc_ok_def)
  have m: "int (card extra) \<ge> int (card ?D)" "int (card extra) \<le> int (card ?D) + int (card ?N)"
    using floors_short [OF ok] fractions_sum [OF sum] card by linarith+
  have rD: "1 - 2 * eps \<le> r j" if "j \<in> ?D" for j
    using ok that by (auto simp: short_def alloc_ok_def)
  have rO: "\<bar>r j - (q j - of_int \<lfloor>q j\<rfloor>)\<bar> \<le> 2 * eps \<and> int (f j) = \<lfloor>q j\<rfloor>" if "j < n" "j \<notin> ?D" for j
    using ok that by (auto simp: short_def alloc_ok_def)
  have lower: "i \<in> extra" if "i \<in> ?D"
  proof (rule ccontr)
    assume "i \<notin> extra"
    have "j \<in> ?D" if "j \<in> extra" for j
    proof (rule ccontr)
      assume "j \<notin> ?D"
      with rO [of j] gap that extra(1) have "r j < 1 - 2 * eps" using eps_small(2) by fastforce
      with rD [OF \<open>i \<in> ?D\<close>] extra(2) that i \<open>i \<notin> extra\<close> show False by force
    qed
    with \<open>i \<notin> extra\<close> \<open>i \<in> ?D\<close> have "extra \<subset> ?D" by blast
    from psubset_card_mono [OF fin(1) this] m(1) show False by simp
  qed
  show "\<lfloor>q i\<rfloor> \<le> int (f i + (if i \<in> extra then 1 else 0))"
    using lower rO [OF i] by (cases "i \<in> ?D") (auto simp: short_def)
  have upper: "i \<in> ?N" if "i \<in> extra" "i \<notin> ?D"
  proof (rule ccontr)
    assume "i \<notin> ?N"
    then have "q i = of_int \<lfloor>q i\<rfloor>" using i by (simp add: fractional_def)
    with rO [OF i that(2)] have ri: "r i \<le> 2 * eps" by linarith
    have "r i < r j" if "j \<in> ?D \<union> ?N" for j
    proof (cases "j \<in> ?D")
      case True then show ?thesis using rD [OF True] ri eps_small by linarith
    next
      case False
      with that have "j < n" "of_int \<lfloor>q j\<rfloor> + 1 / 2 ^ 31 \<le> q j" using gap by (auto simp: fractional_def)
      with rO [OF \<open>j < n\<close> False] ri eps_small(2) show ?thesis by linarith
    qed
    moreover have "j < n" if "j \<in> ?D \<union> ?N" for j using that by (auto simp: short_def fractional_def)
    ultimately have "insert i (?D \<union> ?N) \<subseteq> extra" using extra(2) that(1) by blast
    then have "card (insert i (?D \<union> ?N)) \<le> card extra" by (rule card_mono [OF fin(3)])
    moreover have "card (insert i (?D \<union> ?N)) = Suc (card ?D + card ?N)"
      using fin disj that(2) \<open>i \<notin> ?N\<close> by (simp add: card_Un_disjoint)
    ultimately show False using m(2) by simp
  qed
  show "int (f i + (if i \<in> extra then 1 else 0)) \<le> \<lceil>q i\<rceil>"
  proof (cases "i \<in> ?D")
    case True
    then show ?thesis by (auto simp: short_def intro: order_trans [OF _ floor_le_ceiling])
  next
    case False
    have "\<lfloor>q i\<rfloor> + 1 \<le> \<lceil>q i\<rceil>" if "i \<in> ?N"
      using that by (auto simp: fractional_def ceiling_altdef)
    then show ?thesis using upper False rO [OF i False] floor_le_ceiling [of "q i"] by (cases "i \<in> extra") auto
  qed
qed

section \<open>The sorted remainders\<close>

fun fin_of :: "f64 \<Rightarrow> rat" where
  "fin_of (Fin q) = q"
| "fin_of _ = 0"

abbreviation key :: "nat \<times> f64 \<Rightarrow> rat" where
  "key x \<equiv> fin_of (snd x)"

definition finite_keys :: "(nat \<times> f64) list \<Rightarrow> bool" where
  "finite_keys xs \<longleftrightarrow> (\<forall>x \<in> set xs. \<exists>q. snd x = Fin q)"

lemma insert_desc_props [simp]:
  "set (insert_desc x ys) = insert x (set ys)" "length (insert_desc x ys) = Suc (length ys)"
  "distinct (map fst (insert_desc x ys)) \<longleftrightarrow> fst x \<notin> fst ` set ys \<and> distinct (map fst ys)"
  by (induction ys) auto

lemma sort_props [simp]:
  "set (foldr insert_desc xs []) = set xs" "length (foldr insert_desc xs []) = length xs"
  "distinct (map fst (foldr insert_desc xs [])) = distinct (map fst xs)"
  by (induction xs) auto

lemma insert_desc_sorted:
  "finite_keys (x # ys) \<Longrightarrow> sorted_wrt (\<lambda>a b. key b \<le> key a) ys \<Longrightarrow> sorted_wrt (\<lambda>a b. key b \<le> key a) (insert_desc x ys)"
proof (induction ys)
  case (Cons y ys)
  obtain a b where "snd x = Fin a" "snd y = Fin b" using Cons.prems(1) by (auto simp: finite_keys_def)
  then show ?case using Cons by (fastforce simp: finite_keys_def f64_less_def)
qed simp

lemma sort_sorted: "finite_keys xs \<Longrightarrow> sorted_wrt (\<lambda>a b. key b \<le> key a) (foldr insert_desc xs [])"
  by (induction xs) (auto simp: finite_keys_def intro!: insert_desc_sorted)

lemma take_closed:
  assumes "sorted_wrt (\<lambda>a b. key b \<le> key a) ys" "y \<in> set (take m ys)" "z \<in> set ys" "key y < key z"
  shows "z \<in> set (take m ys)"
proof -
  obtain i j where i: "i < m" "i < length ys" "y = ys ! i" and j: "j < length ys" "z = ys ! j"
    using assms(2,3) by (auto simp: in_set_conv_nth)
  have "j < m"
  proof (rule ccontr)
    assume "\<not> j < m"
    then have "key (ys ! j) \<le> key (ys ! i)" using sorted_wrt_nth_less [OF assms(1), of i j] i j by simp
    with assms(4) i j show False by simp
  qed
  then show ?thesis using j by (auto simp: in_set_conv_nth)
qed

lemma fold_bump_nth:
  "distinct (map fst is) \<Longrightarrow> i < length allocs \<Longrightarrow>
   foldl (\<lambda>allocs (i, _). bump allocs i) allocs is ! i =
     (if i \<in> fst ` set is then (fst (allocs ! i), fst (snd (allocs ! i)) + 1, snd (snd (allocs ! i))) else allocs ! i)"
proof (induction "is" arbitrary: allocs)
  case (Cons x xs)
  obtain j r where x: "x = (j, r)" by fastforce
  have "bump allocs j ! i =
      (if i = j then (fst (allocs ! i), fst (snd (allocs ! i)) + 1, snd (snd (allocs ! i))) else allocs ! i)"
    using Cons.prems(2) by (simp add: bump_eq)
  then show ?case using Cons.IH [of "bump allocs j"] Cons.prems by (auto simp: x)
qed simp

lemma enumerate_remainders:
  "map (\<lambda>(i, _, _, r). (i, r)) (List.enumerate 0 allocs) = map (\<lambda>i. (i, snd (snd (allocs ! i)))) [0 ..< length allocs]"
  by (rule nth_equalityI) (simp_all add: nth_enumerate_eq split_def)

lemma foldl_slots: "foldl (\<lambda>n (_, fs, _). n + fs) (c :: u64) allocs = c + sum_list (map (\<lambda>(_, fs, _). fs) allocs)"
  by (induction allocs arbitrary: c) (auto simp: algebra_simps)

definition by_remainder :: "(nat \<Rightarrow> rat) \<Rightarrow> nat \<Rightarrow> (nat \<times> f64) list" where
  "by_remainder r n = foldr insert_desc (map (\<lambda>i. (i, Fin (r i))) [0 ..< n]) []"

lemma extra_slots:
  assumes "m \<le> n"
  shows "fst ` set (take m (by_remainder r n)) \<subseteq> {..<n}" "card (fst ` set (take m (by_remainder r n))) = m"
    "distinct (map fst (take m (by_remainder r n)))"
    "\<forall>i \<in> fst ` set (take m (by_remainder r n)). \<forall>j < n. r i < r j \<longrightarrow> j \<in> fst ` set (take m (by_remainder r n))"
proof -
  let ?ir = "map (\<lambda>i. (i, Fin (r i))) [0 ..< n]"
  have set: "set (by_remainder r n) = (\<lambda>i. (i, Fin (r i))) ` {..<n}" by (simp add: by_remainder_def atLeast0LessThan)
  have mem: "x = (fst x, Fin (r (fst x))) \<and> fst x < n" if "x \<in> set (take m (by_remainder r n))" for x
    using in_set_takeD [OF that] unfolding set by auto
  then show "fst ` set (take m (by_remainder r n)) \<subseteq> {..<n}" by auto
  have "distinct (map fst (by_remainder r n))" by (simp add: by_remainder_def comp_def)
  then show d: "distinct (map fst (take m (by_remainder r n)))" by (simp add: take_map [symmetric])
  have "length (by_remainder r n) = n" by (simp add: by_remainder_def)
  then show "card (fst ` set (take m (by_remainder r n))) = m" using distinct_card [OF d] assms by simp
  have srt: "sorted_wrt (\<lambda>a b. key b \<le> key a) (by_remainder r n)"
    unfolding by_remainder_def by (rule sort_sorted) (auto simp: finite_keys_def)
  show "\<forall>i \<in> fst ` set (take m (by_remainder r n)). \<forall>j < n. r i < r j \<longrightarrow> j \<in> fst ` set (take m (by_remainder r n))"
  proof (intro ballI allI impI)
    fix i j assume a: "i \<in> fst ` set (take m (by_remainder r n))" "j < n" "r i < r j"
    then obtain x where x: "x \<in> set (take m (by_remainder r n))" "i = fst x" by auto
    have "(j, Fin (r j)) \<in> set (take m (by_remainder r n))"
    proof (rule take_closed [OF srt x(1)])
      show "(j, Fin (r j)) \<in> set (by_remainder r n)" using a(2) unfolding set by auto
      have "key x = r i" using mem [OF x(1)] x(2) by (metis fin_of.simps(1) snd_conv)
      then show "key x < key (j, Fin (r j))" using a(3) by simp
    qed
    then show "j \<in> fst ` set (take m (by_remainder r n))" by force
  qed
qed

lemma remaining_slots: "S \<le> 31 \<Longrightarrow> unat (of_nat MAX_MAGLEV_BACKENDS - of_nat S :: u64) = 31 - S"
  unfolding MAX_MAGLEV_BACKENDS_def by (metis diff_le_self of_nat_diff unat_of_small)

lemma slot_allocations_eq:
  assumes "\<And>i. i < n \<Longrightarrow> slot_allocation tw (services ! i) = (fst (services ! i), of_nat (f i), Fin (r i))"
    and "n = length services" "(\<Sum>i < n. f i) \<le> 31" "m = 31 - (\<Sum>i < n. f i)"
  shows "slot_allocations services tw =
    Done (foldl (\<lambda>allocs (i, _). bump allocs i) (map (slot_allocation tw) services)
      (take (min m n) (by_remainder r n)))"
proof -
  let ?al = "map (slot_allocation tw) services"
  have al: "?al = map (\<lambda>i. (fst (services ! i), of_nat (f i), Fin (r i))) [0 ..< n]"
    by (rule nth_equalityI) (simp_all add: assms(1,2))
  have "sum_list (map (\<lambda>(_, fs, _). fs) ?al) = (of_nat (\<Sum>i < n. f i) :: u64)"
    by (simp add: al comp_def interv_sum_list_conv_sum_set_nat atLeast0LessThan)
  then have rem: "unat (of_nat MAX_MAGLEV_BACKENDS - foldl (\<lambda>n (_, fs, _). n + fs) 0 ?al :: u64) = m"
    using remaining_slots [OF assms(3)] assms(4) by (simp only: foldl_slots add_0)
  have ir: "map (\<lambda>(i, _, _, r). (i, r)) (List.enumerate 0 ?al) = map (\<lambda>i. (i, Fin (r i))) [0 ..< n]"
    unfolding enumerate_remainders al by (simp add: assms(2))
  have "sort_desc (map (\<lambda>i. (i, Fin (r i))) [0 ..< n]) = Done (by_remainder r n)"
    unfolding by_remainder_def by (rule sort_desc_done) auto
  then show ?thesis unfolding slot_allocations_def Let_def rem ir by (simp add: by_remainder_def)
qed

lemma missing_slots:
  assumes ok: "\<forall>i < n. alloc_ok (q i) (f i) (r i)" and sum: "(\<Sum>i < n. q i) = of_int 31"
  shows "(\<Sum>i < n. f i) \<le> 31" "31 - (\<Sum>i < n. f i) \<le> n"
proof -
  have "short n q f \<inter> fractional n q = {}" using ok by (auto simp: short_def fractional_def alloc_ok_def)
  then have "card (short n q f) + card (fractional n q) = card (short n q f \<union> fractional n q)"
    by (intro card_Un_disjoint [symmetric]) (simp_all add: short_def fractional_def)
  also have "\<dots> \<le> card {..<n}" by (rule card_mono) (auto simp: short_def fractional_def)
  finally have "card (short n q f) + card (fractional n q) \<le> n" by simp
  then show "(\<Sum>i < n. f i) \<le> 31" "31 - (\<Sum>i < n. f i) \<le> n"
    using floors_short [OF ok] fractions_sum [OF sum] by linarith+
qed

lemma quotas_sum:
  assumes "tw = sum_list (map snd services)" "0 < tw"
  shows "(\<Sum>i < length services. quota (snd (services ! i)) tw) = of_int 31"
proof -
  have "(\<Sum>i < length services. quota (snd (services ! i)) tw) =
      31 * of_int (\<Sum>i < length services. snd (services ! i)) / of_int tw"
    by (simp add: quota_def sum_distrib_left sum_divide_distrib)
  also have "(\<Sum>i < length services. snd (services ! i)) = tw"
    by (simp add: assms(1) sum_list_sum_nth atLeast0LessThan)
  finally show ?thesis using assms(2) by simp
qed

lemma slots_meet_quota_aux:
  assumes w: "\<forall>s \<in> set services. 0 \<le> snd s" and tw: "tw = sum_list (map snd services)" "0 < tw" "tw < 2 ^ 31"
  obtains allocs slots where "slot_allocations services tw = Done allocs" "length allocs = length services"
    "\<forall>i < length services. fst (snd (allocs ! i)) = of_nat (slots i) \<and> slots i \<le> 32"
    "(\<Sum>i < length services. slots i) = 31"
    "\<forall>i < length services. \<lfloor>quota (snd (services ! i)) tw\<rfloor> \<le> int (slots i) \<and>
       int (slots i) \<le> \<lceil>quota (snd (services ! i)) tw\<rceil>"
proof -
  define n where "n = length services"
  define q where "q i = quota (snd (services ! i)) tw" for i
  have le: "0 \<le> snd (services ! i) \<and> snd (services ! i) \<le> tw" if "i < n" for i
    using w that member_le_sum_list [of "snd (services ! i)" "map snd services"] tw(1) by (auto simp: n_def)
  have "\<forall>i. \<exists>f r. i < n \<longrightarrow> slot_allocation tw (services ! i) = (fst (services ! i), of_nat f, Fin r) \<and> f \<le> 31 \<and>
      alloc_ok (q i) f r"
    using slot_allocation_spec [OF conjunct1 [OF le] conjunct2 [OF le] tw(2,3)] unfolding q_def by (metis prod.collapse)
  then obtain f r where fr: "\<And>i. i < n \<Longrightarrow> slot_allocation tw (services ! i) =
      (fst (services ! i), of_nat (f i), Fin (r i)) \<and> f i \<le> 31 \<and> alloc_ok (q i) (f i) (r i)" by metis
  have ok: "\<forall>i < n. alloc_ok (q i) (f i) (r i)" using fr by blast
  have sum: "(\<Sum>i < n. q i) = of_int 31" using quotas_sum [OF tw(1,2)] by (simp add: q_def n_def)
  define m where "m = 31 - (\<Sum>i < n. f i)"
  note m = missing_slots [OF ok sum, folded m_def]
  define extra where "extra = fst ` set (take m (by_remainder r n))"
  define slots where "slots i = f i + (if i \<in> extra then 1 else 0)" for i
  note ex = extra_slots [OF m(2), of r, folded extra_def]
  let ?allocs = "foldl (\<lambda>allocs (i, _). bump allocs i) (map (slot_allocation tw) services) (take m (by_remainder r n))"
  have al: "slot_allocations services tw = Done ?allocs"
    using slot_allocations_eq [OF _ n_def m(1) m_def] fr m(2) by (simp add: min_absorb1)
  have gap: "\<forall>i < n. q i + 1 / 2 ^ 31 \<le> of_int \<lfloor>q i\<rfloor> + 1 \<and> (q i = of_int \<lfloor>q i\<rfloor> \<or> of_int \<lfloor>q i\<rfloor> + 1 / 2 ^ 31 \<le> q i)"
    using quota_gap [OF tw(2,3)] unfolding q_def by blast
  have c: "int (card extra) = 31 - int (\<Sum>i < n. f i)" using ex(2) m(1) by (simp add: m_def)
  have rule: "\<forall>i < n. \<lfloor>q i\<rfloor> \<le> int (slots i) \<and> int (slots i) \<le> \<lceil>q i\<rceil>"
    using quota_rule [OF ok sum gap ex(1) ex(4) c] unfolding slots_def by blast
  have "fst (snd (?allocs ! i)) = of_nat (slots i) \<and> slots i \<le> 32" if "i < n" for i
    using fold_bump_nth [OF ex(3), of i "map (slot_allocation tw) services"] fr [OF that] that
    by (simp add: slots_def n_def [symmetric] extra_def [symmetric])
  moreover have "(\<Sum>i < n. slots i) = (\<Sum>i < n. f i) + card ({..<n} \<inter> extra)"
    by (simp add: slots_def sum.distrib sum.If_cases)
  then have "(\<Sum>i < n. slots i) = 31" using ex(1,2) m(1) by (simp add: inf.absorb2 m_def)
  ultimately show ?thesis
    using that [OF al, of slots] rule by (simp add: fold_bump_props n_def [symmetric] q_def)
qed

text \<open>
  C8: The slots of the services of a rule, computed with doubles, follow the method of largest
  remainders without an error: for weights that are not negative and sum to a positive total below
  \<open>2 ^ 31\<close> the slots add up to exactly 31, and every service gets its exact share \<open>31 w / total\<close> rounded
  down or up, whole shares unchanged.
\<close>

theorem slots_meet_quota:
  assumes "\<forall>s \<in> set services. 0 \<le> snd s" "tw = sum_list (map snd services)" "0 < tw" "tw < 2 ^ 31"
  shows "\<exists>allocs. slot_allocations services tw = Done allocs \<and> length allocs = length services \<and>
           (\<Sum>i < length services. unat (fst (snd (allocs ! i)))) = MAX_MAGLEV_BACKENDS \<and>
           (\<forall>i < length services.
              \<lfloor>quota (snd (services ! i)) tw\<rfloor> \<le> int (unat (fst (snd (allocs ! i)))) \<and>
              int (unat (fst (snd (allocs ! i)))) \<le> \<lceil>quota (snd (services ! i)) tw\<rceil>)"
proof -
  obtain allocs slots where a: "slot_allocations services tw = Done allocs" "length allocs = length services"
    "\<forall>i < length services. fst (snd (allocs ! i)) = of_nat (slots i) \<and> slots i \<le> 32"
    "(\<Sum>i < length services. slots i) = 31"
    "\<forall>i < length services. \<lfloor>quota (snd (services ! i)) tw\<rfloor> \<le> int (slots i) \<and>
       int (slots i) \<le> \<lceil>quota (snd (services ! i)) tw\<rceil>"
    using slots_meet_quota_aux [OF assms] by blast
  then have "unat (fst (snd (allocs ! i))) = slots i" if "i < length services" for i
    using that unat_of_slots by metis
  then show ?thesis using a by (intro exI [of _ allocs]) (simp add: MAX_MAGLEV_BACKENDS_def)
qed

theorem slots_meet_quota_witness:
  "\<exists>allocs. slot_allocations [([backend_new 1 80 100], 90), ([backend_new 2 80 100], 10)] 100 = Done allocs \<and>
     unat (fst (snd (allocs ! 0))) + unat (fst (snd (allocs ! 1))) = 31 \<and>
     27 \<le> uint (fst (snd (allocs ! 0))) \<and> uint (fst (snd (allocs ! 0))) \<le> 28 \<and>
     3 \<le> uint (fst (snd (allocs ! 1))) \<and> uint (fst (snd (allocs ! 1))) \<le> 4"
proof -
  have "\<lfloor>quota 90 100\<rfloor> = 27" "\<lceil>quota 90 100\<rceil> = 28" "\<lfloor>quota 10 100\<rfloor> = 3" "\<lceil>quota 10 100\<rceil> = 4"
    by (simp_all add: quota_def floor_eq_iff ceiling_eq_iff)
  then show ?thesis
    using slots_meet_quota [of "[([backend_new 1 80 100], 90), ([backend_new 2 80 100], 10)]" 100]
    by (auto simp: lessThan_Suc numeral_2_eq_2 MAX_MAGLEV_BACKENDS_def All_less_Suc)
qed

end
