(* ===== verification/Http_Route.thy ===== *)
theory Http_Route
  imports Weighted_Slots Gateway_Index Rate_Limiter
begin

text \<open>
  The controller of the HTTPRoute resources (\<open>control/src/apis/gateway/http_route.rs\<close>): the validation
  of paths, hostnames and header names, the rate limit annotation, the resolution of services to
  backends, and \<open>reconcile\<close> with the status it reports. The Kubernetes API is a parameter: its
  answers may depend on the number of calls made before, so that the cluster may change between
  them. The fields of the resources that the controller never reads are left out of the records.
\<close>

section \<open>Resources\<close>

record HTTPRouteParentRefs =
  pr_name :: string
  pr_namespace :: "string option"
  pr_section_name :: "string option"

datatype HTTPRouteRulesMatchesMethod =
  Mget | Mhead | Mpost | Mput | Mdelete | Mconnect | Moptions | Mtrace | Mpatch

text \<open>The path of a match is its \<open>value\<close>; its type is not read.\<close>

record HTTPRouteRulesMatches =
  rm_path :: "string option option"
  rm_method :: "HTTPRouteRulesMatchesMethod option"

record HTTPRouteRulesBackendRefs =
  br_name :: string
  br_port :: "int option"
  br_weight :: "int option"

record HTTPRouteRules =
  ru_matches :: "HTTPRouteRulesMatches list option"
  ru_backend_refs :: "HTTPRouteRulesBackendRefs list option"

record HTTPRoute =
  hr_metadata :: ObjectMeta
  hr_parent_refs :: "HTTPRouteParentRefs list option"
  hr_rules :: "HTTPRouteRules list option"

datatype IntOrString = IntPort int | StringPort string

record ServicePort =
  sp_port :: int
  sp_target_port :: "IntOrString option"

record Service =
  sv_spec_ports :: "ServicePort list option option"

datatype json =
  JNull | JStr string | JInt int | JArr "json list" | JObj "(string \<times> json) list"

text \<open>
  The API server and the clocks: every answer takes the number of API calls made so far;
  \<open>ke_timestamp\<close> also takes the number of the reading within a status update.
\<close>

record kube_env =
  ke_get_service :: "nat \<Rightarrow> string \<Rightarrow> string \<Rightarrow> string + Service"
  ke_list_slices :: "nat \<Rightarrow> string \<Rightarrow> string \<Rightarrow> string + EndpointSlice list"
  ke_patch_status :: "nat \<Rightarrow> string \<Rightarrow> string \<Rightarrow> json \<Rightarrow> string option"
  ke_now :: "nat \<Rightarrow> instant"
  ke_timestamp :: "nat \<Rightarrow> nat \<Rightarrow> string"

datatype Action = AwaitChange | Requeue duration

abbreviation secs :: "nat \<Rightarrow> duration" where
  "secs n \<equiv> n * 1000000000"

text \<open>
  The reconciler with the API calls it made, the patches it sent and the results it counted. The
  circuit breakers it holds are not used by any of its methods.
\<close>

record 'r HTTPRouteReconciler =
  hx_router :: "'r Router"
  hx_gateway_index :: GatewayIndex
  hx_rate_limiter :: RateLimiter
  hx_calls :: nat
  hx_patches :: "(string \<times> string \<times> json) list"
  hx_results :: "(string \<times> string \<times> string) list"

record RouteStatus =
  st_accepted :: bool
  st_resolved_refs :: bool
  st_resolved_refs_reason :: string
  st_resolved_refs_message :: string
  st_generation :: int
  st_parent_refs :: "HTTPRouteParentRefs list"

section \<open>Parent references and services\<close>

fun filter_managed :: "string \<Rightarrow> HTTPRouteParentRefs list \<Rightarrow> GatewayIndex \<Rightarrow> HTTPRouteParentRefs list \<times> GatewayIndex" where
  "filter_managed ns [] g = ([], g)"
| "filter_managed ns (r # rs) g =
     (let (is_managed, g) = gi_contains (unwrap_or ns (pr_namespace r)) (pr_name r) g;
          (kept, g) = filter_managed ns rs g
      in (if is_managed then r # kept else kept, g))"

definition get_matching_parent_refs :: "HTTPRouteParentRefs list option \<Rightarrow> string \<Rightarrow> 'r HTTPRouteReconciler \<Rightarrow>
    HTTPRouteParentRefs list \<times> 'r HTTPRouteReconciler" where
  "get_matching_parent_refs parent_refs route_namespace s =
     (case parent_refs of
        None \<Rightarrow> ([], s)
      | Some refs \<Rightarrow>
          (let (kept, g) = filter_managed route_namespace refs (hx_gateway_index s)
           in (kept, s\<lparr>hx_gateway_index := g\<rparr>)))"

definition service_target_port :: "Service \<Rightarrow> u32 \<Rightarrow> u16" where
  "service_target_port service service_port =
     (case sv_spec_ports service of
        Some (Some ports) \<Rightarrow>
          (case find (\<lambda>p. sp_port p = sint service_port) ports of
             Some p \<Rightarrow>
               (case sp_target_port p of
                  Some (IntPort n) \<Rightarrow> as_u16 n
                | Some (StringPort _) \<Rightarrow> ucast service_port
                | None \<Rightarrow> ucast service_port)
           | None \<Rightarrow> ucast service_port)
      | _ \<Rightarrow> ucast service_port)"

definition resolve_service_endpoints :: "kube_env \<Rightarrow> string \<Rightarrow> string \<Rightarrow> u32 \<Rightarrow> 'r HTTPRouteReconciler \<Rightarrow>
    (string + backend list) \<times> 'r HTTPRouteReconciler" where
  "resolve_service_endpoints K service_name ns service_port s =
     (let service = ke_get_service K (hx_calls s) ns service_name; s = s\<lparr>hx_calls := hx_calls s + 1\<rparr> in
      case service of
        Inl e \<Rightarrow> (Inl e, s)
      | Inr service \<Rightarrow>
          (let target_port = service_target_port service service_port;
               slices = ke_list_slices K (hx_calls s) ns (SERVICE_NAME_LABEL @ ''='' @ service_name);
               s = s\<lparr>hx_calls := hx_calls s + 1\<rparr>
           in case slices of
                Inr items \<Rightarrow> (Inr (concat (map (\<lambda>es. parse_endpointslice_to_backends es target_port) items)), s)
              | Inl e \<Rightarrow> (Inl e, s)))"

section \<open>Validation\<close>

abbreviation quoted :: "string \<Rightarrow> string" where
  "quoted s \<equiv> [CHR 0x27] @ s @ [CHR 0x27]"

definition validate_path :: "string \<Rightarrow> string + unit" where
  "validate_path path =
     (if path = [] then Inl ''Path cannot be empty''
      else if \<not> starts_with path ''/'' then Inl (''Path '' @ quoted path @ '' must start with '' @ quoted ''/'')
      else if contains_str path ''//'' then Inl (''Path '' @ quoted path @ '' cannot contain double slashes'')
      else if length path > 1 \<and> ends_with path ''/''
      then Inl (''Path '' @ quoted path @ '' cannot have trailing slash'')
      else Inr ())"

definition hostname_char :: "char \<Rightarrow> bool" where
  "hostname_char c \<longleftrightarrow>
     (let n = of_char c :: nat in 97 \<le> n \<and> n \<le> 122 \<or> 48 \<le> n \<and> n \<le> 57) \<or> c = CHR ''-''"

text \<open>The first character that is not allowed starts at the first byte that is none of the allowed ones.\<close>

fun check_label :: "string \<Rightarrow> string \<Rightarrow> string option" where
  "check_label hostname [] = None"
| "check_label hostname (c # cs) =
     (if hostname_char c then check_label hostname cs
      else Some (''Hostname '' @ quoted hostname @ '' contains invalid character '' @
        quoted (take (utf8_len c) (c # cs)) @ '' (must be lowercase alphanumeric or hyphen)''))"

fun check_labels :: "string \<Rightarrow> string list \<Rightarrow> string + unit" where
  "check_labels hostname [] = Inr ()"
| "check_labels hostname (label # labels) =
     (if label = [] then check_labels hostname labels
      else if starts_with label ''-'' then Inl (''Hostname label '' @ quoted label @ '' cannot start with '' @ quoted ''-'')
      else if ends_with label ''-'' then Inl (''Hostname label '' @ quoted label @ '' cannot end with '' @ quoted ''-'')
      else case check_label hostname label of
        Some e \<Rightarrow> Inl e
      | None \<Rightarrow> check_labels hostname labels)"

definition validate_hostname :: "string \<Rightarrow> string + unit" where
  "validate_hostname hostname =
     (if hostname = [] then Inl ''Hostname cannot be empty''
      else if length hostname > 253 then Inl (''Hostname '' @ quoted hostname @ '' exceeds 253 characters'')
      else let to_check = (if starts_with hostname ''*.'' then drop 2 hostname else hostname)
        in if to_check = [] then Inl (''Hostname cannot be just '' @ quoted ''*.'')
           else if contains_str to_check ''..'' then Inl (''Hostname '' @ quoted hostname @ '' cannot contain '' @ quoted ''..'')
           else check_labels hostname (split_char (CHR ''.'') to_check))"

definition validate_header_name :: "string \<Rightarrow> string + unit" where
  "validate_header_name name =
     (if name = [] then Inl ''Header name cannot be empty''
      else if length name > 256 then Inl (''Header name '' @ quoted name @ '' exceeds 256 characters'')
      else if CHR '':'' \<in> set name
      then Inl (''Header name '' @ quoted name @ '' cannot contain '' @ quoted '':'' @ '' (HTTP/2 pseudo-headers not allowed)'')
      else if list_ex (contains_str name) (whitespace @ control_chars)
      then Inl (''Header name '' @ quoted name @ '' contains invalid character (whitespace or control character)'')
      else Inr ())"

fun parse_http_method :: "HTTPRouteRulesMatchesMethod \<Rightarrow> HttpMethod option" where
  "parse_http_method Mget = Some GET"
| "parse_http_method Mpost = Some POST"
| "parse_http_method Mput = Some PUT"
| "parse_http_method Mdelete = Some DELETE"
| "parse_http_method Mpatch = Some PATCH"
| "parse_http_method Mhead = Some HEAD"
| "parse_http_method Moptions = Some OPTIONS"
| "parse_http_method _ = None"

definition parse_rate_limit_annotation :: "string \<Rightarrow> string + f64 \<times> u64" where
  "parse_rate_limit_annotation annotation =
     (let parts = split_char (CHR '','') annotation in
      case parts of
        [] \<Rightarrow> Inl ''Missing rate specification''
      | p # more_parts \<Rightarrow>
          (let rate_str = trim p in
           if \<not> ends_with rate_str ''rps'' then Inl (''Rate must end with '' @ quoted ''rps'' @ '', got: '' @ rate_str)
           else case parse_f64 (trim_end_matches ''rps'' rate_str) of
             None \<Rightarrow> Inl (''Invalid rate number: '' @ rate_str)
           | Some rate \<Rightarrow>
               if f64_le rate (Fin 0) then Inl ''Rate must be positive''
               else (case more_parts of
                   [] \<Rightarrow> Inr (rate, f64_to_u64 (f64_ceil rate))
                 | b # _ \<Rightarrow>
                     (let burst_str = trim b in
                      if \<not> starts_with burst_str ''burst=''
                      then Inl (''Expected '' @ quoted ''burst=N'' @ '', got: '' @ burst_str)
                      else case parse_u64 (trim_start_matches ''burst='' burst_str) of
                        None \<Rightarrow> Inl (''Invalid burst number: '' @ burst_str)
                      | Some burst \<Rightarrow> Inr (rate, burst)))))"

section \<open>Status\<close>

definition json_opt :: "string option \<Rightarrow> json" where
  "json_opt x = (case x of Some s \<Rightarrow> JStr s | None \<Rightarrow> JNull)"

definition condition :: "string \<Rightarrow> bool \<Rightarrow> string \<Rightarrow> string \<Rightarrow> string \<Rightarrow> int \<Rightarrow> json" where
  "condition ty holds reason message timestamp generation =
     JObj [(''type'', JStr ty), (''status'', JStr (if holds then ''True'' else ''False'')), (''reason'', JStr reason),
       (''message'', JStr message), (''lastTransitionTime'', JStr timestamp), (''observedGeneration'', JInt generation)]"

definition parent_status :: "string \<Rightarrow> json list \<Rightarrow> HTTPRouteParentRefs \<Rightarrow> json" where
  "parent_status ns conditions r =
     JObj [(''parentRef'',
         JObj [(''group'', JStr ''gateway.networking.k8s.io''), (''kind'', JStr ''Gateway''), (''name'', JStr (pr_name r)),
           (''namespace'', JStr (unwrap_or ns (pr_namespace r))), (''sectionName'', json_opt (pr_section_name r))]),
       (''controllerName'', JStr ''rauta.io/gateway-controller''),
       (''conditions'', JArr conditions)]"

definition patch_route :: "kube_env \<Rightarrow> string \<Rightarrow> string \<Rightarrow> json list \<Rightarrow> 'r HTTPRouteReconciler \<Rightarrow>
    (string + unit) \<times> 'r HTTPRouteReconciler" where
  "patch_route K ns name parents s =
     (let status_json = JObj [(''status'', JObj [(''parents'', JArr parents)])];
          err = ke_patch_status K (hx_calls s) ns name status_json;
          s = s\<lparr>hx_calls := hx_calls s + 1, hx_patches := hx_patches s @ [(ns, name, status_json)]\<rparr>
      in (case err of None \<Rightarrow> Inr () | Some e \<Rightarrow> Inl e, s))"

definition route_conditions :: "kube_env \<Rightarrow> nat \<Rightarrow> RouteStatus \<Rightarrow> json list" where
  "route_conditions K calls st =
     (let conditions =
        [condition ''Accepted'' (st_accepted st) (if st_accepted st then ''Accepted'' else ''NoRules'')
           (if st_accepted st then ''HTTPRoute is accepted and configured'' else ''HTTPRoute has no valid routing rules'')
           (ke_timestamp K calls 0) (st_generation st)]
      in if st_accepted st
         then conditions @
           [condition ''ResolvedRefs'' (st_resolved_refs st) (st_resolved_refs_reason st) (st_resolved_refs_message st)
              (ke_timestamp K calls 1) (st_generation st)]
         else conditions)"

definition set_route_status :: "kube_env \<Rightarrow> string \<Rightarrow> string \<Rightarrow> RouteStatus \<Rightarrow> 'r HTTPRouteReconciler \<Rightarrow>
    (string + unit) \<times> 'r HTTPRouteReconciler" where
  "set_route_status K ns name st s =
     patch_route K ns name (map (parent_status ns (route_conditions K (hx_calls s) st)) (st_parent_refs st)) s"

definition set_route_status_invalid :: "kube_env \<Rightarrow> string \<Rightarrow> string \<Rightarrow> string \<Rightarrow> int \<Rightarrow> HTTPRouteParentRefs list \<Rightarrow>
    'r HTTPRouteReconciler \<Rightarrow> (string + unit) \<times> 'r HTTPRouteReconciler" where
  "set_route_status_invalid K ns name error_message generation parent_refs s =
     patch_route K ns name
       (map (\<lambda>(i, r). parent_status ns
            [condition ''Accepted'' False ''Invalid'' error_message (ke_timestamp K (hx_calls s) i) generation] r)
          (List.enumerate 0 parent_refs)) s"

definition record_httproute_reconciliation :: "string \<Rightarrow> string \<Rightarrow> string \<Rightarrow> 'r HTTPRouteReconciler \<Rightarrow> 'r HTTPRouteReconciler" where
  "record_httproute_reconciliation name ns result s = s\<lparr>hx_results := hx_results s @ [(name, ns, result)]\<rparr>"

section \<open>Reconciliation\<close>

definition path_method_pairs :: "HTTPRouteRules \<Rightarrow> (string \<times> HttpMethod option) list" where
  "path_method_pairs rule =
     (let pairs = (case ru_matches rule of
                     None \<Rightarrow> []
                   | Some ms \<Rightarrow> map (\<lambda>m.
                       (unwrap_or ''/'' (case rm_path m of Some v \<Rightarrow> v | None \<Rightarrow> None),
                        case rm_method m of Some x \<Rightarrow> parse_http_method x | None \<Rightarrow> None)) ms)
      in if pairs = [] then [(''/'', None)] else pairs)"

text \<open>The variables that \<open>reconcile\<close> carries through its rules.\<close>

record Progress =
  pg_routes_added :: nat
  pg_all_resolved :: bool
  pg_reason :: string
  pg_message :: string

definition progress_start :: Progress where
  "progress_start = \<lparr>pg_routes_added = 0, pg_all_resolved = True, pg_reason = ''ResolvedRefs'',
     pg_message = ''All backend refs resolved''\<rparr>"

definition not_found :: "string \<Rightarrow> Progress \<Rightarrow> Progress" where
  "not_found message pg = pg\<lparr>pg_all_resolved := False, pg_reason := ''BackendNotFound'', pg_message := message\<rparr>"

text \<open>The first pass over the backend references of a rule.\<close>

fun resolve_backend_refs :: "kube_env \<Rightarrow> string \<Rightarrow> HTTPRouteRulesBackendRefs list \<Rightarrow> service list \<Rightarrow> int \<Rightarrow> Progress \<Rightarrow>
    'r HTTPRouteReconciler \<Rightarrow> service list \<times> int \<times> Progress \<times> 'r HTTPRouteReconciler" where
  "resolve_backend_refs K ns [] resolved total_weight pg s = (resolved, total_weight, pg, s)"
| "resolve_backend_refs K ns (b # bs) resolved total_weight pg s =
     (let weight = unwrap_or 1 (br_weight b);
          (res, s) = resolve_service_endpoints K (br_name b) ns (word_of_int (unwrap_or 80 (br_port b))) s
      in case res of
           Inr [] \<Rightarrow>
             resolve_backend_refs K ns bs resolved total_weight
               (not_found (''Service '' @ ns @ ''/'' @ br_name b @ '' has no ready endpoints'') pg) s
         | Inr backends \<Rightarrow>
             resolve_backend_refs K ns bs (resolved @ [(backends, weight)]) (i32_add total_weight weight) pg s
         | Inl e \<Rightarrow>
             resolve_backend_refs K ns bs resolved total_weight
               (not_found (''Failed to resolve service '' @ ns @ ''/'' @ br_name b) pg) s)"

text \<open>The routes of the pairs; an error of the router is logged and the loop goes on.\<close>

fun add_pairs :: "'r matchit \<Rightarrow> (string \<times> HttpMethod option) list \<Rightarrow> backend list \<Rightarrow> 'r Router \<Rightarrow> 'r Router outcome" where
  "add_pairs M [] bs r = Done r"
| "add_pairs M ((path, method_opt) # pairs) bs r =
     (case validate_path path of
        Inl e \<Rightarrow> add_pairs M pairs bs r
      | Inr _ \<Rightarrow>
          (case add_route M True (unwrap_or ALL_m method_opt) path bs r of
             Done (_, r) \<Rightarrow> add_pairs M pairs bs r
           | Panic m \<Rightarrow> Panic m
           | Diverges \<Rightarrow> Diverges))"

definition configure_rate_limit :: "kube_env \<Rightarrow> HTTPRoute \<Rightarrow> string \<Rightarrow> 'r HTTPRouteReconciler \<Rightarrow> 'r HTTPRouteReconciler" where
  "configure_rate_limit K route path s =
     (case om_annotations (hr_metadata route) of
        None \<Rightarrow> s
      | Some annotations \<Rightarrow>
          (case map_of annotations ''rauta.io/rate-limit'' of
             None \<Rightarrow> s
           | Some config \<Rightarrow>
               (case parse_rate_limit_annotation config of
                  Inr (rate, burst) \<Rightarrow>
                    s\<lparr>hx_rate_limiter := configure_route path rate burst (ke_now K (hx_calls s)) (hx_rate_limiter s)\<rparr>
                | Inl e \<Rightarrow> s)))"

definition reconcile_rule :: "'r matchit \<Rightarrow> kube_env \<Rightarrow> HTTPRoute \<Rightarrow> string \<Rightarrow> HTTPRouteRules \<Rightarrow> string \<Rightarrow>
    Progress \<times> 'r HTTPRouteReconciler \<Rightarrow> (Progress \<times> 'r HTTPRouteReconciler) outcome" where
  "reconcile_rule M K route ns rule path = (\<lambda>(pg, s).
     case ru_backend_refs rule of
       None \<Rightarrow> Done (pg, s)
     | Some backend_refs \<Rightarrow>
         (let (resolved, total_weight, pg, s) = resolve_backend_refs K ns backend_refs [] 0 pg s in
          case weighted_backends resolved total_weight of
            Panic m \<Rightarrow> Panic m
          | Diverges \<Rightarrow> Diverges
          | Done [] \<Rightarrow> Done (pg, s)
          | Done backends \<Rightarrow>
              (case add_pairs M (path_method_pairs rule) backends (hx_router s) of
                 Panic m \<Rightarrow> Panic m
               | Diverges \<Rightarrow> Diverges
               | Done r \<Rightarrow>
                   Done (pg\<lparr>pg_routes_added := pg_routes_added pg + 1\<rparr>,
                         configure_rate_limit K route path (s\<lparr>hx_router := r\<rparr>)))))"

text \<open>The rules in order; the left result is the message of the first invalid path.\<close>

fun reconcile_rules :: "'r matchit \<Rightarrow> kube_env \<Rightarrow> HTTPRoute \<Rightarrow> string \<Rightarrow> HTTPRouteRules list \<Rightarrow>
    Progress \<times> 'r HTTPRouteReconciler \<Rightarrow> ((string + Progress) \<times> 'r HTTPRouteReconciler) outcome" where
  "reconcile_rules M K route ns [] (pg, s) = Done (Inr pg, s)"
| "reconcile_rules M K route ns (rule # rules) (pg, s) =
     (let path = fst (hd (path_method_pairs rule)) in
      case validate_path path of
        Inl validation_error \<Rightarrow> Done (Inl validation_error, s)
      | Inr _ \<Rightarrow>
          (case reconcile_rule M K route ns rule path (pg, s) of
             Done st \<Rightarrow> reconcile_rules M K route ns rules st
           | Panic m \<Rightarrow> Panic m
           | Diverges \<Rightarrow> Diverges))"

definition finish_reconcile :: "string \<Rightarrow> string \<Rightarrow> string \<Rightarrow> (string + unit) \<times> 'r HTTPRouteReconciler \<Rightarrow>
    (string + Action) \<times> 'r HTTPRouteReconciler" where
  "finish_reconcile name ns result = (\<lambda>(res, s).
     case res of
       Inl e \<Rightarrow> (Inl e, s)
     | Inr _ \<Rightarrow> (Inr (Requeue (secs 300)), record_httproute_reconciliation name ns result s))"

definition reconcile :: "'r matchit \<Rightarrow> kube_env \<Rightarrow> HTTPRoute \<Rightarrow> 'r HTTPRouteReconciler \<Rightarrow>
    ((string + Action) \<times> 'r HTTPRouteReconciler) outcome" where
  "reconcile M K route s =
     (let ns = namespace_or_default (hr_metadata route); name = name_any (hr_metadata route);
          generation = unwrap_or 0 (om_generation (hr_metadata route));
          (matching, s) = get_matching_parent_refs (hr_parent_refs route) ns s
      in if matching = [] then Done (Inr AwaitChange, s)
         else map_outcome (\<lambda>(res, s).
           case res of
             Inl validation_error \<Rightarrow>
               finish_reconcile name ns ''validation_failed''
                 (set_route_status_invalid K ns name (''Invalid path: '' @ validation_error) generation matching s)
           | Inr pg \<Rightarrow>
               finish_reconcile name ns ''success''
                 (set_route_status K ns name
                    \<lparr>st_accepted = (pg_routes_added pg > 0), st_resolved_refs = pg_all_resolved pg,
                     st_resolved_refs_reason = pg_reason pg, st_resolved_refs_message = pg_message pg,
                     st_generation = generation, st_parent_refs = matching\<rparr> s))
           (reconcile_rules M K route ns (unwrap_or [] (hr_rules route)) (progress_start, s)))"

definition error_policy :: "HTTPRoute \<Rightarrow> string \<Rightarrow> 'r HTTPRouteReconciler \<Rightarrow> Action" where
  "error_policy route error s = Requeue (secs 60)"

end
