(* ===== verification/Route_Reconcile.thy ===== *)
theory Route_Reconcile
  imports Http_Route
begin

text \<open>
  What the controller of \<open>Http_Route\<close> does to the router. The interface that the controllers have of
  the router is a locale: adding a route with one to 32 backends returns, the route then has these
  backends, and no other route changes. It is interpreted on \<open>add_route\<close>. Every reconciliation
  returns, keeps every route the router had, and installs the backends of its rules.
\<close>

section \<open>The router as a sink of routes\<close>

locale route_sink =
  fixes add :: "HttpMethod \<Rightarrow> string \<Rightarrow> backend list \<Rightarrow> 's \<Rightarrow> 's outcome"
    and backends_of :: "'s \<Rightarrow> RouteKey \<Rightarrow> backend list option"
  assumes add_done: "bs \<noteq> [] \<Longrightarrow> length bs \<le> MAX_BACKENDS \<Longrightarrow> \<exists>s'. add m p bs s = Done s'"
    and add_hit: "add m p bs s = Done s' \<Longrightarrow> backends_of s' (key_of m p) = Some bs"
    and add_miss: "add m p bs s = Done s' \<Longrightarrow> k \<noteq> key_of m p \<Longrightarrow> backends_of s' k = backends_of s k"
begin

fun add_all :: "(HttpMethod \<times> string) list \<Rightarrow> backend list \<Rightarrow> 's \<Rightarrow> 's outcome" where
  "add_all [] bs s = Done s"
| "add_all ((m, p) # ps) bs s =
     (case add m p bs s of Done s \<Rightarrow> add_all ps bs s | Panic e \<Rightarrow> Panic e | Diverges \<Rightarrow> Diverges)"

lemma add_all_done: "bs \<noteq> [] \<Longrightarrow> length bs \<le> MAX_BACKENDS \<Longrightarrow> \<exists>s'. add_all ps bs s = Done s'"
proof (induction ps arbitrary: s)
  case (Cons mp ps)
  obtain m p where "mp = (m, p)" by fastforce
  then show ?case using add_done [OF Cons.prems, of m p s] Cons.IH [OF Cons.prems] by auto
qed simp

lemma add_all_backends:
  "add_all ps bs s = Done s' \<Longrightarrow>
     backends_of s' k = (if k \<in> (\<lambda>(m, p). key_of m p) ` set ps then Some bs else backends_of s k)"
proof (induction ps arbitrary: s)
  case (Cons mp ps)
  obtain m p where mp: "mp = (m, p)" by fastforce
  then obtain s1 where s1: "add m p bs s = Done s1" "add_all ps bs s1 = Done s'"
    using Cons.prems by (auto split: outcome.splits)
  show ?case
    using Cons.IH [OF s1(2)] add_hit [OF s1(1)] add_miss [OF s1(1), of k] by (auto simp: mp)
qed simp

lemma add_all_keeps: "add_all ps bs s = Done s' \<Longrightarrow> backends_of s k \<noteq> None \<Longrightarrow> backends_of s' k \<noteq> None"
  using add_all_backends by auto

end

definition route_backends :: "'r Router \<Rightarrow> RouteKey \<Rightarrow> backend list option" where
  "route_backends r k = map_option rt_backends (map_of (routes r) k)"

lemma add_route_done:
  assumes "bs \<noteq> []" "length bs \<le> MAX_BACKENDS"
  shows "\<exists>res r'. add_route M rt m p bs r = Done (res, r')"
proof -
  obtain t where "maglev_build_compact_table bs = Done t" using compact_build [OF assms] .
  then show ?thesis by (auto simp: add_route_def Let_def split: option.split sum.split)
qed

lemma add_route_hit:
  assumes "add_route M rt m p bs r = Done (res, r')"
  shows "route_backends r' (key_of m p) = Some bs"
proof (cases "maglev_build_compact_table bs")
  case (Done t)
  then have "r' = r \<and> route_backends r (key_of m p) = Some bs \<or>
      routes r' = AList.update (key_of m p) (plain_route p bs t) (routes r)"
    using assms by (auto simp: add_route_def route_backends_def Let_def split: if_splits option.splits sum.splits)
  then show ?thesis by (auto simp: route_backends_def update_conv' plain_route_def)
qed (use assms in \<open>auto simp: add_route_def route_backends_def Let_def split: if_splits option.splits\<close>)

interpretation rs: route_sink "\<lambda>m p bs r. map_outcome snd (add_route M rt m p bs r)" route_backends for M rt
proof
  show "\<exists>s'. map_outcome snd (add_route M rt m p bs s) = Done s'" if "bs \<noteq> []" "length bs \<le> MAX_BACKENDS" for bs m p s
    using add_route_done [OF that, of M rt m p s] by auto
  show "route_backends s' (key_of m p) = Some bs" if "map_outcome snd (add_route M rt m p bs s) = Done s'" for m p bs s s'
    using that add_route_hit by (auto simp: map_outcome_Done)
  show "route_backends s' k = route_backends s k"
    if "map_outcome snd (add_route M rt m p bs s) = Done s'" "k \<noteq> key_of m p" for m p bs s s' k
    using that add_route_other_routes by (fastforce simp: map_outcome_Done route_backends_def)
qed

section \<open>Rules\<close>

definition valid_pairs :: "HTTPRouteRules \<Rightarrow> (HttpMethod \<times> string) list" where
  "valid_pairs rule = map (\<lambda>(p, m). (unwrap_or ALL_m m, p))
     (filter (\<lambda>(p, m). validate_path p = Inr ()) (path_method_pairs rule))"

lemma add_pairs_all:
  "add_pairs M pairs bs r =
     rs.add_all M True (map (\<lambda>(p, m). (unwrap_or ALL_m m, p)) (filter (\<lambda>(p, m). validate_path p = Inr ()) pairs)) bs r"
proof (induction pairs arbitrary: r)
  case (Cons pm pairs)
  obtain p m where pm: "pm = (p, m)" by fastforce
  show ?case
  proof (cases "validate_path p")
    case (Inr u)
    then show ?thesis using Cons
      by (cases "add_route M True (unwrap_or ALL_m m) p bs r") (auto simp: pm rs.add_all.simps split: prod.split)
  qed (use Cons in \<open>simp add: pm\<close>)
qed (simp add: rs.add_all.simps)

lemma add_pairs_reach: "add_pairs M pairs bs r = Done r' \<Longrightarrow> router_reach M r \<Longrightarrow> router_reach M r'"
proof (induction pairs arbitrary: r)
  case (Cons pm pairs)
  then show ?case
    by (cases pm) (auto split: sum.splits outcome.splits intro: router_reach.add)
qed simp

lemma weighted_backends_total: "\<exists>bs. weighted_backends services tw = Done bs \<and> length bs \<le> MAX_BACKENDS"
proof (cases "0 < tw")
  case True
  then show ?thesis using weighted_backends_prefix [OF True, of services]
    by (auto simp: MAX_BACKENDS_def MAX_MAGLEV_BACKENDS_def)
qed (simp add: weighted_backends_def)

lemma resolve_service_frame:
  assumes "resolve_service_endpoints K nm ns p s = (res, s')"
  shows "\<exists>n. s' = s\<lparr>hx_calls := n\<rparr>"
proof -
  have twice: "s\<lparr>hx_calls := m, hx_calls := n\<rparr> = s\<lparr>hx_calls := n\<rparr>" for m n by (cases s) simp
  show ?thesis using assms unfolding resolve_service_endpoints_def Let_def
    by (auto simp: twice split: sum.splits)
qed

lemma resolve_refs_frame:
  "resolve_backend_refs K ns refs resolved tw pg s = (resolved', tw', pg', s') \<Longrightarrow>
     hx_router s' = hx_router s \<and> hx_rate_limiter s' = hx_rate_limiter s \<and> hx_gateway_index s' = hx_gateway_index s \<and>
     pg_routes_added pg' = pg_routes_added pg"
proof (induction refs arbitrary: resolved tw pg s)
  case (Cons b refs)
  obtain res s1 where r: "resolve_service_endpoints K (br_name b) ns (word_of_int (unwrap_or 80 (br_port b))) s = (res, s1)"
    by fastforce
  obtain n where s1: "s1 = s\<lparr>hx_calls := n\<rparr>" using resolve_service_frame [OF r] by blast
  obtain resolved1 tw1 pg1 where step: "resolve_backend_refs K ns refs resolved1 tw1 pg1 s1 = (resolved', tw', pg', s')"
    and "pg_routes_added pg1 = pg_routes_added pg"
    using Cons.prems r by (auto simp: Let_def not_found_def split: sum.splits list.splits)
  with Cons.IH [OF step] show ?case by (simp add: s1)
qed simp

lemma resolve_refs_pods:
  "resolve_backend_refs K ns refs resolved tw pg s = (resolved', tw', pg', s') \<Longrightarrow>
     (\<forall>sv \<in> set resolved. fst sv \<noteq> []) \<Longrightarrow> (resolved = [] \<longrightarrow> tw = 0) \<Longrightarrow>
     (\<forall>sv \<in> set resolved'. fst sv \<noteq> []) \<and> (resolved' = [] \<longrightarrow> tw' = 0)"
proof (induction refs arbitrary: resolved tw pg s)
  case (Cons b refs)
  obtain res s1 where r: "resolve_service_endpoints K (br_name b) ns (word_of_int (unwrap_or 80 (br_port b))) s = (res, s1)"
    by fastforce
  obtain resolved1 tw1 pg1 where step: "resolve_backend_refs K ns refs resolved1 tw1 pg1 s1 = (resolved', tw', pg', s')"
    and "(\<forall>sv \<in> set resolved1. fst sv \<noteq> []) \<and> (resolved1 = [] \<longrightarrow> tw1 = 0)"
    using Cons.prems r by (auto simp: Let_def split: sum.splits list.splits)
  with Cons.IH [OF step] show ?case by blast
qed simp

lemma weighted_backends_nonempty:
  assumes "0 < tw" "\<forall>sv \<in> set services. fst sv \<noteq> []" "services \<noteq> []"
    and "weighted_backends services tw = Done bs"
  shows "bs \<noteq> []"
  using weighted_backends_prefix [OF assms(1), of services] assms(2-4)
  by (cases services) (auto simp: MAX_MAGLEV_BACKENDS_def)

lemma configure_rate_limit_frame:
  "hx_router (configure_rate_limit K route path s) = hx_router s"
  "p \<noteq> path \<Longrightarrow> map_of (buckets (hx_rate_limiter (configure_rate_limit K route path s))) p =
     map_of (buckets (hx_rate_limiter s)) p"
  by (simp_all add: configure_rate_limit_def configure_route_def update_conv' split: option.split sum.split prod.split)

text \<open>The effect of one rule.\<close>

definition rule_effect :: "'r matchit \<Rightarrow> HTTPRouteRules \<Rightarrow> string \<Rightarrow> 'r HTTPRouteReconciler \<Rightarrow> 'r HTTPRouteReconciler \<Rightarrow> bool" where
  "rule_effect M rule path s s' \<longleftrightarrow>
     (router_reach M (hx_router s) \<longrightarrow> router_reach M (hx_router s')) \<and>
     (\<forall>p. p \<noteq> path \<longrightarrow> map_of (buckets (hx_rate_limiter s')) p = map_of (buckets (hx_rate_limiter s)) p) \<and>
     (\<exists>bs. \<forall>k. route_backends (hx_router s') k = (if k \<in> (\<lambda>(m, p). key_of m p) ` set (valid_pairs rule) \<and> bs \<noteq> []
        then Some bs else route_backends (hx_router s) k))"

lemma reconcile_rule_done:
  assumes "ru_backend_refs rule = Some refs" "resolve_backend_refs K ns refs [] 0 pg s = (resolved, tw, pg1, s1)"
    and "weighted_backends resolved tw = Done bs" "bs \<noteq> []"
  shows "\<exists>s2. reconcile_rule M K route ns rule path (pg, s) =
           Done (pg1\<lparr>pg_routes_added := pg_routes_added pg + 1\<rparr>, s2) \<and> rule_effect M rule path s s2 \<and>
         (\<forall>k. route_backends (hx_router s2) k = (if k \<in> (\<lambda>(m, p). key_of m p) ` set (valid_pairs rule)
            then Some bs else route_backends (hx_router s) k))"
proof -
  note fr = resolve_refs_frame [OF assms(2)]
  have len: "length bs \<le> MAX_BACKENDS" using weighted_backends_total [of resolved tw] assms(3) by auto
  obtain r where r: "add_pairs M (path_method_pairs rule) bs (hx_router s1) = Done r"
    using rs.add_all_done [OF assms(4) len] unfolding add_pairs_all by blast
  define s2 where "s2 = configure_rate_limit K route path (s1\<lparr>hx_router := r\<rparr>)"
  have "reconcile_rule M K route ns rule path (pg, s) = Done (pg1\<lparr>pg_routes_added := pg_routes_added pg + 1\<rparr>, s2)"
    using assms r fr by (cases bs) (simp_all add: reconcile_rule_def s2_def)
  moreover have k: "route_backends (hx_router s2) k = (if k \<in> (\<lambda>(m, p). key_of m p) ` set (valid_pairs rule)
      then Some bs else route_backends (hx_router s) k)" for k
    using rs.add_all_backends [OF r [unfolded add_pairs_all], of k] fr
    by (simp add: s2_def configure_rate_limit_frame valid_pairs_def)
  moreover have "rule_effect M rule path s s2"
    unfolding rule_effect_def using k assms(4) add_pairs_reach [OF r] fr
    by (auto simp: s2_def configure_rate_limit_frame intro!: exI [of _ bs])
  ultimately show ?thesis by blast
qed

lemma reconcile_rule_effect:
  "\<exists>pg' s'. reconcile_rule M K route ns rule path (pg, s) = Done (pg', s') \<and> rule_effect M rule path s s'"
proof (cases "ru_backend_refs rule")
  case None
  then show ?thesis by (auto simp: reconcile_rule_def rule_effect_def)
next
  case (Some refs)
  obtain resolved tw pg1 s1 where r: "resolve_backend_refs K ns refs [] 0 pg s = (resolved, tw, pg1, s1)"
    by (metis prod_cases4)
  obtain bs where bs: "weighted_backends resolved tw = Done bs" using weighted_backends_total by blast
  show ?thesis
  proof (cases "bs = []")
    case True
    then show ?thesis using Some r bs resolve_refs_frame [OF r]
      by (auto simp: reconcile_rule_def rule_effect_def intro!: exI [of _ "[]"])
  next
    case False
    then show ?thesis using reconcile_rule_done [OF Some r bs] by blast
  qed
qed

section \<open>Reconciliations\<close>

text \<open>
  The effect of rules: reachable routers stay reachable, no route is lost, and only the first paths
  of the rules are rate limited.
\<close>

definition first_path :: "HTTPRouteRules \<Rightarrow> string" where
  "first_path rule = fst (hd (path_method_pairs rule))"

definition rules_effect :: "'r matchit \<Rightarrow> HTTPRouteRules list \<Rightarrow> 'r HTTPRouteReconciler \<Rightarrow> 'r HTTPRouteReconciler \<Rightarrow> bool" where
  "rules_effect M rules s s' \<longleftrightarrow>
     (router_reach M (hx_router s) \<longrightarrow> router_reach M (hx_router s')) \<and>
     dom (route_backends (hx_router s)) \<subseteq> dom (route_backends (hx_router s')) \<and>
     (\<forall>p. p \<notin> first_path ` set rules \<longrightarrow>
        map_of (buckets (hx_rate_limiter s')) p = map_of (buckets (hx_rate_limiter s)) p)"

lemma rule_effect_dom: "rule_effect M rule path s s' \<Longrightarrow> dom (route_backends (hx_router s)) \<subseteq> dom (route_backends (hx_router s'))"
proof
  fix k assume a: "rule_effect M rule path s s'" and "k \<in> dom (route_backends (hx_router s))"
  then obtain v where v: "route_backends (hx_router s) k = Some v" by blast
  from a obtain bs where "route_backends (hx_router s') k = (if k \<in> (\<lambda>(m, p). key_of m p) ` set (valid_pairs rule) \<and> bs \<noteq> []
      then Some bs else route_backends (hx_router s) k)" unfolding rule_effect_def by blast
  with v show "k \<in> dom (route_backends (hx_router s'))" by (simp add: domIff)
qed

lemma reconcile_rules_effect:
  "\<exists>res s'. reconcile_rules M K route ns rules (pg, s) = Done (res, s') \<and> rules_effect M rules s s'"
proof (induction rules arbitrary: pg s)
  case Nil
  then show ?case by (simp add: rules_effect_def)
next
  case (Cons rule rules)
  show ?case
  proof (cases "validate_path (first_path rule)")
    case (Inl e)
    then show ?thesis by (simp add: rules_effect_def first_path_def)
  next
    case (Inr u)
    obtain pg1 s1 where r: "reconcile_rule M K route ns rule (first_path rule) (pg, s) = Done (pg1, s1)"
      and e: "rule_effect M rule (first_path rule) s s1"
      using reconcile_rule_effect by blast
    obtain res s' where "reconcile_rules M K route ns rules (pg1, s1) = Done (res, s')" and e': "rules_effect M rules s1 s'"
      using Cons.IH by blast
    moreover have "rules_effect M (rule # rules) s s'"
      unfolding rules_effect_def
    proof (intro conjI)
      show "router_reach M (hx_router s) \<longrightarrow> router_reach M (hx_router s')"
        using e e' unfolding rules_effect_def rule_effect_def by blast
      show "dom (route_backends (hx_router s)) \<subseteq> dom (route_backends (hx_router s'))"
        using rule_effect_dom [OF e] e' unfolding rules_effect_def by blast
      show "\<forall>p. p \<notin> first_path ` set (rule # rules) \<longrightarrow>
          map_of (buckets (hx_rate_limiter s')) p = map_of (buckets (hx_rate_limiter s)) p"
        using e e' unfolding rules_effect_def rule_effect_def by simp
    qed
    ultimately show ?thesis using Inr r by (simp add: first_path_def)
  qed
qed

definition managed :: "GatewayIndex \<Rightarrow> string \<Rightarrow> HTTPRouteParentRefs \<Rightarrow> bool" where
  "managed g ns r \<longleftrightarrow> gatewaykey_new (unwrap_or ns (pr_namespace r)) (pr_name r) \<in> set (gi_inner g)"

lemma filter_managed_filter:
  "fst (filter_managed ns refs g) = filter (managed g ns) refs \<and> gi_inner (snd (filter_managed ns refs g)) = gi_inner g"
proof (induction refs arbitrary: g)
  case (Cons r refs)
  have same: "managed (g\<lparr>gi_metrics := m\<rparr>) ns = managed g ns" for m by (auto simp: managed_def)
  show ?case
    using Cons [of "g\<lparr>gi_metrics := record_lookup (managed g ns r) (gi_metrics g)\<rparr>"]
    unfolding filter_managed.simps gi_contains_def Let_def managed_def [symmetric] split_def same
    by (cases "managed g ns r") simp_all
qed simp

lemma matching_frame:
  assumes "get_matching_parent_refs refs ns s = (matching, s')"
  shows "hx_router s' = hx_router s \<and> hx_rate_limiter s' = hx_rate_limiter s"
  using assms by (auto simp: get_matching_parent_refs_def split: option.splits prod.splits)

lemma patch_frame:
  assumes "patch_route K ns name parents s = (res, s')"
  shows "hx_router s' = hx_router s \<and> hx_rate_limiter s' = hx_rate_limiter s"
  using assms by (auto simp: patch_route_def Let_def)

lemma finish_frame:
  assumes "finish_reconcile name ns result (res, s) = (act, s')"
  shows "hx_router s' = hx_router s \<and> hx_rate_limiter s' = hx_rate_limiter s"
  using assms by (auto simp: finish_reconcile_def record_httproute_reconciliation_def split: sum.splits)

lemma reconcile_effect:
  "\<exists>res s'. reconcile M K route s = Done (res, s') \<and> rules_effect M (unwrap_or [] (hr_rules route)) s s'"
proof -
  let ?ns = "namespace_or_default (hr_metadata route)" and ?rules = "unwrap_or [] (hr_rules route)"
  obtain matching s1 where m: "get_matching_parent_refs (hr_parent_refs route) ?ns s = (matching, s1)" by fastforce
  obtain res s2 where r: "reconcile_rules M K route ?ns ?rules (progress_start, s1) = Done (res, s2)"
    and e: "rules_effect M ?rules s1 s2"
    using reconcile_rules_effect by blast
  have same: "rules_effect M ?rules s s3" if "hx_router s3 = hx_router s2 \<and> hx_rate_limiter s3 = hx_rate_limiter s2" for s3
    using e that matching_frame [OF m] by (simp add: rules_effect_def)
  have end_same: "rules_effect M ?rules s (snd (finish_reconcile nm ns t (patch_route K ns nm parents s2)))" for nm ns t parents
  proof -
    obtain rs s3 where p: "patch_route K ns nm parents s2 = (rs, s3)" by fastforce
    obtain act s4 where f: "finish_reconcile nm ns t (rs, s3) = (act, s4)" by fastforce
    show ?thesis using same patch_frame [OF p] finish_frame [OF f] p f by simp
  qed
  show ?thesis
  proof (cases "matching = []")
    case True
    then have "reconcile M K route s = Done (Inr AwaitChange, s1)" using m by (simp add: reconcile_def Let_def)
    then show ?thesis using matching_frame [OF m] by (auto simp: rules_effect_def)
  next
    case False
    then have "\<exists>nm ns t parents. reconcile M K route s = Done (finish_reconcile nm ns t (patch_route K ns nm parents s2))"
      using m r by (cases res) (simp_all add: reconcile_def Let_def set_route_status_invalid_def set_route_status_def, blast+)
    then show ?thesis using end_same by (metis prod.collapse)
  qed
qed

text \<open>
  C11: Every reconciliation of a route returns, whatever the API server answers and whatever the
  weights, ports and addresses are: no list of backends is too long for the router and no comparison
  of shares fails. No route that the router has is ever removed, also when the resource no longer
  names it.
\<close>

theorem reconcile_total:
  "\<exists>res s'. reconcile M K route s = Done (res, s') \<and>
     dom (route_backends (hx_router s)) \<subseteq> dom (route_backends (hx_router s'))"
  using reconcile_effect [of M K route s] unfolding rules_effect_def by blast

text \<open>
  C33: Only the first path of a rule is rate limited: after a reconciliation the bucket of every path
  that is not the first path of a rule is what it was before, with any annotation and although the
  route is installed for it.
\<close>

theorem only_first_paths_limited:
  assumes "reconcile M K route s = Done (res, s')" "p \<notin> first_path ` set (unwrap_or [] (hr_rules route))"
  shows "map_of (buckets (hx_rate_limiter s')) p = map_of (buckets (hx_rate_limiter s)) p"
  using reconcile_effect [of M K route s] assms unfolding rules_effect_def by auto

text \<open>
  C17: A rule whose services resolve with a positive total weight is installed: the backends are a
  list of at most 31, every valid pair of a path and a method of the rule, with the neutral method
  where none is given, then has exactly these backends in the router, and all other routes have what
  they had.
\<close>

theorem rule_installs_backends:
  assumes "ru_backend_refs rule = Some refs"
    and "resolve_backend_refs K ns refs [] 0 pg s = (resolved, tw, pg1, s1)" "0 < tw"
  shows "\<exists>bs pg2 s2. weighted_backends resolved tw = Done bs \<and> bs \<noteq> [] \<and> length bs \<le> MAX_MAGLEV_BACKENDS \<and>
           reconcile_rule M K route ns rule path (pg, s) = Done (pg2, s2) \<and>
           route_backends (hx_router s2) = (\<lambda>k. if k \<in> (\<lambda>(m, p). key_of m p) ` set (valid_pairs rule)
             then Some bs else route_backends (hx_router s) k)"
proof -
  have pods: "(\<forall>sv \<in> set resolved. fst sv \<noteq> [])" "resolved \<noteq> []"
    using resolve_refs_pods [OF assms(2)] assms(3) by auto
  obtain rest where bs: "weighted_backends resolved tw = Done (take MAX_MAGLEV_BACKENDS (concat (map fst resolved) @ rest))"
    using weighted_backends_prefix [OF assms(3)] by blast
  note ne = weighted_backends_nonempty [OF assms(3) pods bs]
  show ?thesis using reconcile_rule_done [OF assms(1,2) bs ne, of M route path] ne bs by fastforce
qed

section \<open>Methods without a name\<close>

definition drop_unsupported :: "HTTPRouteRulesMatches \<Rightarrow> HTTPRouteRulesMatches" where
  "drop_unsupported m =
     (if rm_method m \<in> {Some Mconnect, Some Mtrace} then m\<lparr>rm_method := None\<rparr> else m)"

definition erase_rule :: "HTTPRouteRules \<Rightarrow> HTTPRouteRules" where
  "erase_rule rule = rule\<lparr>ru_matches := map_option (map drop_unsupported) (ru_matches rule)\<rparr>"

lemma erase_pairs: "path_method_pairs (erase_rule rule) = path_method_pairs rule"
proof -
  have "rm_path (drop_unsupported m) = rm_path m \<and>
      (case rm_method (drop_unsupported m) of Some x \<Rightarrow> parse_http_method x | None \<Rightarrow> None) =
      (case rm_method m of Some x \<Rightarrow> parse_http_method x | None \<Rightarrow> None)" for m
    by (auto simp: drop_unsupported_def)
  then show ?thesis by (auto simp: path_method_pairs_def erase_rule_def Let_def split: option.split)
qed

lemma erase_rules:
  "reconcile_rules M K (route\<lparr>hr_rules := x\<rparr>) ns (map erase_rule rules) (pg, s) = reconcile_rules M K route ns rules (pg, s)"
proof (induction rules arbitrary: pg s)
  case (Cons rule rules)
  have limit: "configure_rate_limit K (route\<lparr>hr_rules := x\<rparr>) path t = configure_rate_limit K route path t" for path t
    by (simp add: configure_rate_limit_def)
  have refs: "ru_backend_refs (erase_rule rule) = ru_backend_refs rule" by (simp add: erase_rule_def)
  have "reconcile_rule M K (route\<lparr>hr_rules := x\<rparr>) ns (erase_rule rule) path (pg, s) =
      reconcile_rule M K route ns rule path (pg, s)" for path
    unfolding reconcile_rule_def erase_pairs limit refs ..
  then show ?case using Cons by (auto simp: erase_pairs Let_def split: sum.split outcome.split)
qed simp

text \<open>
  A match on the methods CONNECT or TRACE is no restriction: the reconciliation of a route does
  exactly what it does for the route without these methods, so such a rule is installed for all
  methods.
\<close>

theorem unsupported_methods_match_all:
  "reconcile M K (route\<lparr>hr_rules := map_option (map erase_rule) (hr_rules route)\<rparr>) s = reconcile M K route s"
proof -
  let ?r = "route\<lparr>hr_rules := map_option (map erase_rule) (hr_rules route)\<rparr>"
  have sel: "hr_metadata ?r = hr_metadata route" "hr_parent_refs ?r = hr_parent_refs route"
    "unwrap_or [] (hr_rules ?r) = map erase_rule (unwrap_or [] (hr_rules route))"
    by (simp_all split: option.split)
  show ?thesis unfolding reconcile_def sel erase_rules ..
qed

section \<open>An example cluster\<close>

lemma reconcile_one_rule:
  assumes "get_matching_parent_refs (hr_parent_refs route) (namespace_or_default (hr_metadata route)) s = (matching, s1)"
    and "matching \<noteq> []" "hr_rules route = Some [rule]" "validate_path (first_path rule) = Inr ()"
    and "reconcile_rule M K route (namespace_or_default (hr_metadata route)) rule (first_path rule) (progress_start, s1) =
      Done (pg2, s2)"
  shows "\<exists>act s'. reconcile M K route s = Done (act, s') \<and> hx_router s' = hx_router s2"
proof -
  have "\<exists>nm ns t parents. reconcile M K route s = Done (finish_reconcile nm ns t (patch_route K ns nm parents s2))"
    using assms by (simp add: reconcile_def Let_def set_route_status_def first_path_def) blast
  then obtain nm ns t parents where r: "reconcile M K route s = Done (finish_reconcile nm ns t (patch_route K ns nm parents s2))"
    by blast
  obtain res s3 where p: "patch_route K ns nm parents s2 = (res, s3)" by fastforce
  obtain act s4 where f: "finish_reconcile nm ns t (res, s3) = (act, s4)" by fastforce
  show ?thesis using r p f patch_frame [OF p] finish_frame [OF f] by simp
qed

definition demo_backend :: backend where
  "demo_backend = from_ipv4 (Ipv4Addr 10 0 0 1) 80 100"

definition demo_env :: kube_env where
  "demo_env = \<lparr>ke_get_service = (\<lambda>_ _ _. Inr \<lparr>sv_spec_ports = None\<rparr>),
     ke_list_slices = (\<lambda>_ _ _. Inr [bare_slice [demo_backend]]),
     ke_patch_status = (\<lambda>_ _ _ _. None), ke_now = (\<lambda>_. 0), ke_timestamp = (\<lambda>_ _. ''2024-01-01T00:00:00Z'')\<rparr>"

definition demo_rule :: HTTPRouteRules where
  "demo_rule = \<lparr>ru_matches = Some [\<lparr>rm_path = Some (Some ''/a''), rm_method = None\<rparr>, \<lparr>rm_path = Some (Some ''/b''), rm_method = None\<rparr>],
     ru_backend_refs = Some [\<lparr>br_name = ''web'', br_port = None, br_weight = None\<rparr>]\<rparr>"

definition demo_route :: HTTPRoute where
  "demo_route = \<lparr>hr_metadata = \<lparr>om_name = Some ''r'', om_generate_name = None, om_namespace = None, om_labels = None,
       om_annotations = Some [(''rauta.io/rate-limit'', ''10rps'')], om_generation = Some 1\<rparr>,
     hr_parent_refs = Some [\<lparr>pr_name = ''gw'', pr_namespace = None, pr_section_name = None\<rparr>], hr_rules = Some [demo_rule]\<rparr>"

definition demo_start :: "'r matchit \<Rightarrow> 'r HTTPRouteReconciler" where
  "demo_start M = \<lparr>hx_router = router_new M, hx_gateway_index = snd (gi_add ''default'' ''gw'' (gi_new ''rauta'')),
     hx_rate_limiter = rl_new, hx_calls = 0, hx_patches = [], hx_results = []\<rparr>"

lemma demo_resolve:
  "\<exists>s1. resolve_backend_refs demo_env ns [\<lparr>br_name = ''web'', br_port = None, br_weight = None\<rparr>] [] 0 pg s =
     ([([demo_backend], 1)], 1, pg, s1)"
proof -
  have "parse_endpointslice_to_backends (bare_slice [demo_backend]) 80 = [demo_backend]"
    by (rule parse_bare_slice) (simp add: demo_backend_def from_ipv4_def backend_wf_def)
  then show ?thesis
    by (simp add: resolve_service_endpoints_def demo_env_def service_target_port_def Let_def i32_add_def)
qed

lemma demo_pairs: "valid_pairs demo_rule = [(ALL_m, ''/a''), (ALL_m, ''/b'')]" "first_path demo_rule = ''/a''"
  "validate_path ''/a'' = Inr ()"
  by (simp_all add: valid_pairs_def path_method_pairs_def demo_rule_def validate_path_def starts_with_def ends_with_def first_path_def)

theorem rule_installs_backends_witness:
  "\<exists>bs pg2 s2. bs \<noteq> [] \<and>
     reconcile_rule list_matchit demo_env demo_route ''default'' demo_rule ''/a'' (progress_start, demo_start list_matchit) = Done (pg2, s2) \<and>
     route_backends (hx_router s2) (key_of ALL_m ''/b'') = Some bs"
proof -
  obtain s1 where r: "resolve_backend_refs demo_env ''default'' [\<lparr>br_name = ''web'', br_port = None, br_weight = None\<rparr>] [] 0
      progress_start (demo_start list_matchit) = ([([demo_backend], 1)], 1, progress_start, s1)"
    using demo_resolve by blast
  have "ru_backend_refs demo_rule = Some [\<lparr>br_name = ''web'', br_port = None, br_weight = None\<rparr>]"
    by (simp add: demo_rule_def)
  from rule_installs_backends [OF this r, of list_matchit demo_route "''/a''"] show ?thesis
    by (auto simp: demo_pairs)
qed

theorem only_first_paths_limited_witness:
  "\<exists>act s'. reconcile list_matchit demo_env demo_route (demo_start list_matchit) = Done (act, s') \<and>
     route_backends (hx_router s') (key_of ALL_m ''/b'') \<noteq> None \<and>
     map_of (buckets (hx_rate_limiter s')) ''/b'' = None"
proof -
  let ?s = "demo_start list_matchit" and ?ns = "namespace_or_default (hr_metadata demo_route)"
  obtain matching s1 where m: "get_matching_parent_refs (hr_parent_refs demo_route) ?ns ?s = (matching, s1)" "matching \<noteq> []"
    by (simp add: get_matching_parent_refs_def demo_route_def demo_start_def gi_contains_def gi_add_def gi_new_def Let_def)
  obtain s2 where r: "resolve_backend_refs demo_env ?ns [\<lparr>br_name = ''web'', br_port = None, br_weight = None\<rparr>] [] 0
      progress_start s1 = ([([demo_backend], 1)], 1, progress_start, s2)"
    using demo_resolve by blast
  obtain bs where bs: "weighted_backends [([demo_backend], 1)] 1 = Done bs" "bs \<noteq> []"
    using weighted_backends_prefix [of 1 "[([demo_backend], 1)]"] by (auto simp: MAX_MAGLEV_BACKENDS_def)
  have refs: "ru_backend_refs demo_rule = Some [\<lparr>br_name = ''web'', br_port = None, br_weight = None\<rparr>]"
    by (simp add: demo_rule_def)
  obtain pg3 s3 where s3: "reconcile_rule list_matchit demo_env demo_route ?ns demo_rule (first_path demo_rule) (progress_start, s1) = Done (pg3, s3)"
    "route_backends (hx_router s3) (key_of ALL_m ''/b'') = Some bs"
    using reconcile_rule_done [OF refs r bs, of list_matchit demo_route "first_path demo_rule"] by (auto simp: demo_pairs)
  have rules: "hr_rules demo_route = Some [demo_rule]" by (simp add: demo_route_def)
  obtain act s' where "reconcile list_matchit demo_env demo_route ?s = Done (act, s')" "hx_router s' = hx_router s3"
    using reconcile_one_rule [OF m rules _ s3(1)] demo_pairs by auto
  then show ?thesis
    using only_first_paths_limited [of list_matchit demo_env demo_route ?s act s' "''/b''"] s3(2) rules
    by (auto simp: demo_pairs demo_start_def rl_new_def)
qed

end
