(* ===== verification/Route_Validation.thy ===== *)
theory Route_Validation
  imports Http_Route
begin

text \<open>
  The languages of the validators of \<open>Http_Route\<close> and the reading of the rate limit annotation.
\<close>

section \<open>Paths\<close>

definition path_of :: "string list \<Rightarrow> string" where
  "path_of segs = concat (map (\<lambda>s. CHR ''/'' # s) segs)"

definition segments_ok :: "string list \<Rightarrow> bool" where
  "segments_ok segs \<longleftrightarrow> (\<forall>s \<in> set segs. s \<noteq> [] \<and> CHR ''/'' \<notin> set s)"

lemma split_char_concat:
  "split_char c s = w # ws \<Longrightarrow> s = w @ concat (map ((#) c) ws) \<and> (\<forall>x \<in> set (w # ws). c \<notin> set x)"
proof (induction s arbitrary: w ws)
  case (Cons x xs)
  obtain v vs where v: "split_char c xs = v # vs" by (cases "split_char c xs") simp_all
  note ih = Cons.IH [OF v]
  show ?case
  proof (cases "x = c")
    case True
    with Cons.prems v have "w = []" "ws = v # vs" by auto
    with True ih show ?thesis by auto
  next
    case False
    with Cons.prems v have "w = x # v" "ws = vs" by auto
    with False ih show ?thesis by auto
  qed
qed auto

lemma path_of_no_double: "segments_ok segs \<Longrightarrow> path_of segs \<noteq> a @ CHR ''/'' # CHR ''/'' # b"
proof (induction segs arbitrary: a)
  case (Cons s segs)
  have s: "s \<noteq> []" "CHR ''/'' \<notin> set s" and segs: "segments_ok segs" using Cons.prems by (auto simp: segments_ok_def)
  show ?case
  proof
    assume eq: "path_of (s # segs) = a @ CHR ''/'' # CHR ''/'' # b"
    show False
    proof (cases a)
      case Nil
      with eq s show False by (cases s) (auto simp: path_of_def)
    next
      case (Cons x a')
      with eq have "s @ path_of segs = a' @ CHR ''/'' # CHR ''/'' # b" by (auto simp: path_of_def)
      then consider u where "s = a' @ u" "u @ path_of segs = CHR ''/'' # CHR ''/'' # b"
        | u where "path_of segs = u @ CHR ''/'' # CHR ''/'' # b"
        by (auto simp: append_eq_append_conv2)
      then show False
      proof cases
        case (1 u)
        with s(2) have "u = []" by (cases u) auto
        with 1 Cons.IH [OF segs, of "[]"] show False by simp
      next
        case (2 u)
        with Cons.IH [OF segs] show False by blast
      qed
    qed
  qed
qed (simp add: path_of_def)

lemma path_of_last: "segments_ok segs \<Longrightarrow> segs \<noteq> [] \<Longrightarrow> last (path_of segs) \<noteq> CHR ''/''"
proof -
  assume "segments_ok segs" "segs \<noteq> []"
  then obtain us s where "segs = us @ [s]" "s \<noteq> []" "CHR ''/'' \<notin> set s"
    by (cases segs rule: rev_cases) (auto simp: segments_ok_def)
  moreover from this have "last s \<noteq> CHR ''/''" by (metis last_in_set)
  ultimately show ?thesis by (simp add: path_of_def)
qed

lemma ends_with_last: "s \<noteq> [] \<Longrightarrow> ends_with s [c] \<longleftrightarrow> last s = c"
  by (cases s rule: rev_cases) (auto simp: ends_with_def)

lemma valid_path_split:
  assumes "starts_with p ''/''" "\<not> contains_str p ''//''" "\<not> (length p > 1 \<and> ends_with p ''/'')"
  shows "p = ''/'' \<or> (\<exists>segs. segs \<noteq> [] \<and> segments_ok segs \<and> p = path_of segs)"
proof -
  obtain t where t: "p = CHR ''/'' # t" using assms(1) by (auto simp: starts_with_iff)
  obtain w ws where ws: "split_char (CHR ''/'') p = w # ws" by (cases "split_char (CHR ''/'') p") simp_all
  note sp = split_char_concat [OF ws]
  have w: "w = []" using sp t by (cases w) auto
  then have p: "p = path_of ws" "ws \<noteq> []" using sp t by (auto simp: path_of_def)
  show ?thesis
  proof (cases "[] \<in> set ws")
    case False
    then show ?thesis using p sp by (auto simp: segments_ok_def intro!: exI [of _ ws])
  next
    case True
    then obtain us vs where uv: "ws = us @ [] # vs" by (meson split_list)
    show ?thesis
    proof (cases vs)
      case Nil
      with p uv have pe: "p = path_of us @ ''/''" by (simp add: path_of_def)
      with assms(3) have "path_of us = []" by (auto simp: ends_with_last)
      with pe show ?thesis by simp
    next
      case (Cons v vs')
      with p uv have "p = path_of us @ ''//'' @ (v @ path_of vs')" by (simp add: path_of_def)
      with assms(2) show ?thesis by (auto simp: contains_str_iff)
    qed
  qed
qed

text \<open>
  \<open>validate_path\<close> accepts exactly the root path and the paths made of a slash and a non-empty
  segment without slashes, one or more times.
\<close>

theorem valid_paths:
  "validate_path p = Inr () \<longleftrightarrow> p = ''/'' \<or> (\<exists>segs. segs \<noteq> [] \<and> segments_ok segs \<and> p = path_of segs)"
proof
  assume "validate_path p = Inr ()"
  then show "p = ''/'' \<or> (\<exists>segs. segs \<noteq> [] \<and> segments_ok segs \<and> p = path_of segs)"
    using valid_path_split [of p] by (auto simp: validate_path_def split: if_splits)
next
  assume "p = ''/'' \<or> (\<exists>segs. segs \<noteq> [] \<and> segments_ok segs \<and> p = path_of segs)"
  then show "validate_path p = Inr ()"
  proof
    assume "p = ''/''"
    then show ?thesis by (simp add: validate_path_def starts_with_def)
  next
    assume "\<exists>segs. segs \<noteq> [] \<and> segments_ok segs \<and> p = path_of segs"
    then obtain segs where segs: "segs \<noteq> []" "segments_ok segs" "p = path_of segs" by blast
    have ne: "p \<noteq> []" "starts_with p ''/''" using segs by (cases segs; simp add: path_of_def starts_with_def)+
    have "\<not> contains_str p ''//''" using path_of_no_double [OF segs(2)] segs(3) by (auto simp: contains_str_iff)
    moreover have "\<not> ends_with p ''/''" using path_of_last [OF segs(2,1)] segs(3) ne by (simp add: ends_with_last)
    ultimately show ?thesis using ne by (simp add: validate_path_def)
  qed
qed

section \<open>The rate limit annotation\<close>

definition printable :: "char \<Rightarrow> bool" where
  "printable c \<longleftrightarrow> 33 \<le> (of_char c :: nat) \<and> (of_char c :: nat) \<le> 126"

lemma whitespace_ends: "\<forall>w \<in> set whitespace. w \<noteq> [] \<and> \<not> printable (hd w) \<and> \<not> printable (last w)"
  by code_simp

lemma drop_prefixes_id:
  "\<forall>w \<in> set ws. w \<noteq> [] \<longrightarrow> hd w \<noteq> c \<Longrightarrow> drop_prefixes ws (c # s) = c # s"
proof -
  assume "\<forall>w \<in> set ws. w \<noteq> [] \<longrightarrow> hd w \<noteq> c"
  then have "find (\<lambda>w. w \<noteq> [] \<and> starts_with (c # s) w) ws = None"
    by (force simp: find_None_iff starts_with_iff Cons_eq_append_conv)
  then show ?thesis by simp
qed

lemma trim_id:
  assumes "s \<noteq> []" "printable (hd s)" "printable (last s)"
  shows "trim s = s"
proof -
  obtain c t where ct: "s = c # t" using assms(1) by (cases s) auto
  have 1: "drop_prefixes whitespace s = s"
    unfolding ct using whitespace_ends assms(2) by (intro drop_prefixes_id) (auto simp: ct)
  obtain d u where du: "rev s = d # u" "d = last s" using assms(1) by (cases s rule: rev_cases) auto
  have "drop_prefixes (map rev whitespace) (rev s) = rev s"
    unfolding du(1) using whitespace_ends assms(3) du(2) by (intro drop_prefixes_id) (auto simp: hd_rev)
  with 1 show ?thesis by (simp add: trim_def)
qed

lemma split_char_none: "c \<notin> set s \<Longrightarrow> split_char c s = [s]"
  by (induction s) auto

lemma split_char_append: "c \<notin> set a \<Longrightarrow> split_char c (a @ c # b) = a # split_char c b"
  by (induction a) auto

lemma drop_prefix_once:
  assumes "p \<noteq> []" "s = [] \<or> hd s \<noteq> hd p"
  shows "drop_prefixes [p] (p @ s) = s"
proof -
  obtain c p' where p: "p = c # p'" using assms(1) by (cases p) auto
  have "drop_prefixes [p] (p @ s) = drop_prefixes [p] s"
    using starts_with_append [of p s] by (simp add: p)
  also have "\<dots> = s" using assms(2) by (cases s) (auto simp: p starts_with_def)
  finally show ?thesis .
qed

lemma show_nat_char: "c \<in> set (show_nat n) \<Longrightarrow> 48 \<le> (of_char c :: nat) \<and> (of_char c :: nat) \<le> 57"
  using is_digit_show [of c 10 n] by (auto simp: to_digit_def Let_def split: if_splits)

lemma show_nat_notin: "(of_char c :: nat) < 48 \<or> 57 < (of_char c :: nat) \<Longrightarrow> c \<notin> set (show_nat n)"
  using show_nat_char by fastforce

lemma show_nat_ends: "hd (show_nat n) \<in> set (show_nat n)" "last (show_nat n) \<in> set (show_nat n)"
  by simp_all

lemma takeWhile_show: "takeWhile (is_digit 10) (show_nat n) = show_nat n"
  using is_digit_show [of _ 10 n] by (simp add: takeWhile_eq_all_conv)

lemma strip_sign_show: "strip_sign (show_nat n) = (False, show_nat n)"
  using show_nat_notin [of "CHR ''-''" n] show_nat_notin [of "CHR ''+''" n]
  by (cases "show_nat n") (auto simp: strip_sign_def)

lemma parse_f64_show: "n < 2 ^ 53 \<Longrightarrow> parse_f64 (show_nat n) = Some (Fin (of_nat n))"
proof -
  assume n: "n < 2 ^ 53"
  have "parse_decimal (show_nat n) = Some (of_nat n)"
    unfolding parse_decimal_def takeWhile_show Let_def by (simp add: parse_exponent_def digits_value_show)
  then show ?thesis using f64_of_nat_exact [OF n] by (simp add: parse_f64_def strip_sign_show f64_of_nat_def)
qed

lemma parse_u64_show: "n < 2 ^ 64 \<Longrightarrow> parse_u64 (show_nat n) = Some (of_nat n)"
proof -
  assume n: "n < 2 ^ 64"
  have "\<not> list_ex (\<lambda>c. to_digit 10 c = None) (show_nat n)"
    using is_digit_show [of _ 10 n] by (auto simp: list_ex_iff)
  moreover have "(case show_nat n of c # r \<Rightarrow> if c = CHR ''+'' then r else show_nat n | [] \<Rightarrow> show_nat n) = show_nat n"
    using show_nat_notin [of "CHR ''+''" n] by (cases "show_nat n") auto
  ultimately show ?thesis using n by (simp add: parse_u64_def digits_value_show Let_def)
qed

definition annotation_text :: "nat \<Rightarrow> nat \<Rightarrow> string" where
  "annotation_text rate burst = show_nat rate @ ''rps,burst='' @ show_nat burst"

lemma trim_rate: "trim (show_nat n @ ''rps'') = show_nat n @ ''rps''" "ends_with (show_nat n @ ''rps'') ''rps''"
  "trim_end_matches ''rps'' (show_nat n @ ''rps'') = show_nat n"
proof -
  have "printable (hd (show_nat n))" using show_nat_char [OF show_nat_ends(1), of n] by (simp add: printable_def)
  then show "trim (show_nat n @ ''rps'') = show_nat n @ ''rps''"
    by (intro trim_id) (simp_all add: printable_def)
  show "ends_with (show_nat n @ ''rps'') ''rps''" by (simp add: ends_with_def)
  have "last (show_nat n) \<noteq> CHR ''s''" using show_nat_char [OF show_nat_ends(2), of n] by auto
  then show "trim_end_matches ''rps'' (show_nat n @ ''rps'') = show_nat n"
    using drop_prefix_once [of "''spr''" "rev (show_nat n)"] by (simp add: trim_end_matches_def hd_rev)
qed

lemma trim_burst: "trim (''burst='' @ show_nat n) = ''burst='' @ show_nat n"
  "trim_start_matches ''burst='' (''burst='' @ show_nat n) = show_nat n"
proof -
  have "printable (last (show_nat n))" using show_nat_char [OF show_nat_ends(2), of n] by (simp add: printable_def)
  then show "trim (''burst='' @ show_nat n) = ''burst='' @ show_nat n"
    by (intro trim_id) (simp_all add: printable_def)
  have "hd (show_nat n) \<noteq> CHR ''b''" using show_nat_char [OF show_nat_ends(1), of n] by auto
  then show "trim_start_matches ''burst='' (''burst='' @ show_nat n) = show_nat n"
    using drop_prefix_once [of "''burst=''" "show_nat n"] by (simp add: trim_start_matches_def)
qed

text \<open>
  The annotation \<open>Nrps,burst=M\<close> is read as the rate \<open>N\<close> and the burst \<open>M\<close>, for every positive rate that is
  a double and every burst of 64 bits.
\<close>

theorem annotation_roundtrip:
  assumes "0 < rate" "rate < 2 ^ 53" "burst < 2 ^ 64"
  shows "parse_rate_limit_annotation (annotation_text rate burst) = Inr (Fin (of_nat rate), of_nat burst)"
proof -
  have a: "CHR '','' \<notin> set (show_nat rate @ ''rps'')" "CHR '','' \<notin> set (''burst='' @ show_nat burst)"
    using show_nat_notin [of "CHR '',''"] by simp_all
  have "split_char (CHR '','') (annotation_text rate burst) = [show_nat rate @ ''rps'', ''burst='' @ show_nat burst]"
    using split_char_append [OF a(1), of "''burst='' @ show_nat burst"] split_char_none [OF a(2)]
    by (simp add: annotation_text_def)
  then show ?thesis
    unfolding parse_rate_limit_annotation_def
    using assms trim_rate [of rate] trim_burst [of burst] starts_with_append [of "''burst=''" "show_nat burst"]
    by (simp add: Let_def parse_f64_show parse_u64_show)
qed

theorem annotation_roundtrip_witness:
  "parse_rate_limit_annotation (annotation_text 100 200) = Inr (Fin 100, 200)"
  using annotation_roundtrip [of 100 200] by simp

text \<open>What is not a number is a rate, too: the comparison with zero lets it pass, and the bucket is empty.\<close>

lemma nan_rate_accepted: "parse_rate_limit_annotation ''nanrps'' = Inr (NaN, 0)"
  by code_simp

lemma infinite_rate_accepted: "parse_rate_limit_annotation ''infrps'' = Inr (PosInf, - 1)"
  by code_simp

lemma suffix_repeated: "trim_end_matches ''rps'' ''5rpsrps'' = ''5''"
  by code_simp

end
