(* ===== verification/Tls.thy ===== *)
theory Tls
  imports Endpoint_Slices
begin

text \<open>
  Certificates and the choice of one by the server name (\<open>control/src/proxy/tls.rs\<close>), and the watcher
  that keeps them up to date with the secrets of the cluster
  (\<open>control/src/apis/gateway/secret_watcher.rs\<close>). The TLS library is a parameter: it parses PEM
  texts, builds a signing key, and resolves server names. Locking is left out: a poisoned lock is
  recovered, so every access sees the data.
\<close>

section \<open>The TLS library\<close>

record ('c, 'k, 'i) rustls =
  rt_certs :: "string \<Rightarrow> string + 'c"
  rt_key :: "string \<Rightarrow> string + 'k"
  rt_single_cert :: "'c \<Rightarrow> 'k \<Rightarrow> string option"
  rt_signing_key :: "'k \<Rightarrow> string option"
  rt_new :: 'i
  rt_add :: "string \<Rightarrow> 'c \<times> 'k \<Rightarrow> 'i \<Rightarrow> string + 'i"
  rt_resolve :: "string option \<Rightarrow> 'i \<Rightarrow> ('c \<times> 'k) option"

text \<open>
  What the library documents: a new resolver knows no name, a client that sends no name gets no
  key, and adding a key for a name replaces the key of this name only. Names are compared without
  case.
\<close>

definition rustls_documented :: "('c, 'k, 'i) rustls \<Rightarrow> bool" where
  "rustls_documented R \<longleftrightarrow>
     (\<forall>h. rt_resolve R (Some h) (rt_new R) = None) \<and>
     (\<forall>i. rt_resolve R None i = None) \<and>
     (\<forall>n c i i' h. rt_add R n c i = Inr i' \<longrightarrow>
        rt_resolve R (Some h) i' = (if to_lower h = to_lower n then Some c else rt_resolve R (Some h) i))"

section \<open>Certificates\<close>

datatype io_error_kind = InvalidData | NotFound

type_synonym io_error = "io_error_kind \<times> string"

datatype TlsMode = Terminate | Passthrough

record TlsCertificate =
  tc_cert_chain :: string
  tc_private_key :: string

record TlsConfig =
  tg_hostname :: string
  tg_mode :: TlsMode
  tg_certificate :: TlsCertificate

definition tlscertificate_new :: "string \<Rightarrow> string \<Rightarrow> TlsCertificate" where
  "tlscertificate_new cert_chain private_key = \<lparr>tc_cert_chain = cert_chain, tc_private_key = private_key\<rparr>"

definition from_pem :: "('c, 'k, 'i) rustls \<Rightarrow> string \<Rightarrow> string \<Rightarrow> io_error + TlsCertificate" where
  "from_pem R cert_pem key_pem =
     (case rt_certs R cert_pem of
        Inl e \<Rightarrow> Inl (InvalidData, e)
      | Inr _ \<Rightarrow>
          (case rt_key R key_pem of
             Inl e \<Rightarrow> Inl (InvalidData, e)
           | Inr _ \<Rightarrow> Inr \<lparr>tc_cert_chain = cert_pem, tc_private_key = key_pem\<rparr>))"

definition tls_to_server_config :: "('c, 'k, 'i) rustls \<Rightarrow> TlsCertificate \<Rightarrow> io_error + 'c \<times> 'k" where
  "tls_to_server_config R c =
     (case rt_certs R (tc_cert_chain c) of
        Inl e \<Rightarrow> Inl (InvalidData, e)
      | Inr certs \<Rightarrow>
          (case rt_key R (tc_private_key c) of
             Inl e \<Rightarrow> Inl (InvalidData, e)
           | Inr key \<Rightarrow>
               (case rt_single_cert R certs key of
                  Some e \<Rightarrow> Inl (InvalidData, e)
                | None \<Rightarrow> Inr (certs, key))))"

section \<open>The resolver\<close>

record 'i SniResolver =
  sn_inner :: 'i
  sn_hostnames :: "string list"

definition sni_new :: "('c, 'k, 'i) rustls \<Rightarrow> 'i SniResolver" where
  "sni_new R = \<lparr>sn_inner = rt_new R, sn_hostnames = []\<rparr>"

definition parse_certified_key :: "('c, 'k, 'i) rustls \<Rightarrow> TlsCertificate \<Rightarrow> io_error + 'c \<times> 'k" where
  "parse_certified_key R c =
     (case rt_certs R (tc_cert_chain c) of
        Inl e \<Rightarrow> Inl (InvalidData, e)
      | Inr certs \<Rightarrow>
          (case rt_key R (tc_private_key c) of
             Inl e \<Rightarrow> Inl (InvalidData, e)
           | Inr key \<Rightarrow>
               (case rt_signing_key R key of
                  Some e \<Rightarrow> Inl (InvalidData, e)
                | None \<Rightarrow> Inr (certs, key))))"

definition add_cert :: "('c, 'k, 'i) rustls \<Rightarrow> string \<Rightarrow> TlsCertificate \<Rightarrow> 'i SniResolver \<Rightarrow>
    (io_error + unit) \<times> 'i SniResolver" where
  "add_cert R hostname cert s =
     (case parse_certified_key R cert of
        Inl e \<Rightarrow> (Inl e, s)
      | Inr certified_key \<Rightarrow>
          (case rt_add R hostname certified_key (sn_inner s) of
             Inl e \<Rightarrow> (Inl (InvalidData, e), s)
           | Inr i \<Rightarrow> (Inr (), s\<lparr>sn_inner := i, sn_hostnames := List.insert hostname (sn_hostnames s)\<rparr>)))"

definition update_cert :: "('c, 'k, 'i) rustls \<Rightarrow> string \<Rightarrow> TlsCertificate \<Rightarrow> 'i SniResolver \<Rightarrow>
    (io_error + unit) \<times> 'i SniResolver" where
  "update_cert R hostname cert s =
     (case parse_certified_key R cert of
        Inl e \<Rightarrow> (Inl e, s)
      | Inr certified_key \<Rightarrow>
          (case rt_add R hostname certified_key (sn_inner s) of
             Inl e \<Rightarrow> (Inl (InvalidData, e), s)
           | Inr i \<Rightarrow> (Inr (), s\<lparr>sn_inner := i\<rparr>)))"

text \<open>
  The configuration of a server shares the resolver; it is built without an error and answers a
  client with the certificate that the resolver has for its server name at that time.
\<close>

definition sni_to_server_config :: "('c, 'k, 'i) rustls \<Rightarrow> 'i SniResolver \<Rightarrow> io_error + (string option \<Rightarrow> ('c \<times> 'k) option)" where
  "sni_to_server_config R s = Inr (\<lambda>server_name. rt_resolve R server_name (sn_inner s))"

definition has_cert :: "string \<Rightarrow> 'i SniResolver \<Rightarrow> bool" where
  "has_cert hostname s \<longleftrightarrow> hostname \<in> set (sn_hostnames s)"

definition get_acceptor :: "('c, 'k, 'i) rustls \<Rightarrow> string \<Rightarrow> 'i SniResolver \<Rightarrow> (string option \<Rightarrow> ('c \<times> 'k) option) option" where
  "get_acceptor R hostname s =
     (if hostname \<notin> set (sn_hostnames s) then None
      else case sni_to_server_config R s of Inr config \<Rightarrow> Some config | Inl _ \<Rightarrow> None)"

section \<open>Secrets\<close>

record Secret =
  se_metadata :: ObjectMeta
  se_type :: "string option"
  se_data :: "(string \<times> string) list option"

definition parse_cert_from_secret_data :: "('c, 'k, 'i) rustls \<Rightarrow> Secret \<Rightarrow> io_error + TlsCertificate" where
  "parse_cert_from_secret_data R secret =
     (case se_data secret of
        None \<Rightarrow> Inl (InvalidData, ''Secret has no data'')
      | Some data \<Rightarrow>
          (case map_of data ''tls.crt'' of
             None \<Rightarrow> Inl (InvalidData, ''Secret missing tls.crt'')
           | Some cert_data \<Rightarrow>
               (case map_of data ''tls.key'' of
                  None \<Rightarrow> Inl (InvalidData, ''Secret missing tls.key'')
                | Some key_data \<Rightarrow> from_pem R cert_data key_data)))"

text \<open>The answer of the API server is the argument.\<close>

definition load_cert_from_secret :: "('c, 'k, 'i) rustls \<Rightarrow> string + Secret \<Rightarrow> io_error + TlsCertificate" where
  "load_cert_from_secret R answer =
     (case answer of
        Inl e \<Rightarrow> Inl (NotFound, e)
      | Inr secret \<Rightarrow>
          (case se_data secret of
             None \<Rightarrow> Inl (InvalidData, ''Secret has no data'')
           | Some data \<Rightarrow>
               (case map_of data ''tls.crt'' of
                  None \<Rightarrow> Inl (InvalidData, ''Secret missing tls.crt'')
                | Some cert_data \<Rightarrow>
                    (case map_of data ''tls.key'' of
                       None \<Rightarrow> Inl (InvalidData, ''Secret missing tls.key'')
                     | Some key_data \<Rightarrow> from_pem R cert_data key_data))))"

definition handle_secret_apply :: "('c, 'k, 'i) rustls \<Rightarrow> Secret \<Rightarrow> 'i SniResolver \<Rightarrow> (string + unit) \<times> 'i SniResolver" where
  "handle_secret_apply R secret s =
     (if se_type secret \<noteq> Some ''kubernetes.io/tls'' then (Inr (), s)
      else
        (case (case om_annotations (se_metadata secret) of Some a \<Rightarrow> map_of a ''rauta.io/hostname'' | None \<Rightarrow> None) of
           None \<Rightarrow> (Inl (''Secret '' @ namespace_or_default (se_metadata secret) @ ''/'' @ name_any (se_metadata secret) @
                     '' missing rauta.io/hostname annotation''), s)
         | Some hostname \<Rightarrow>
             (case parse_cert_from_secret_data R secret of
                Inl (_, e) \<Rightarrow> (Inl e, s)
              | Inr cert \<Rightarrow>
                  (case update_cert R hostname cert s of
                     (Inl (_, e), s) \<Rightarrow> (Inl e, s)
                   | (Inr _, s) \<Rightarrow> (Inr (), s)))))"

datatype secret_event =
  SecretApply Secret | SecretInitApply Secret | SecretDelete Secret | SecretInit | SecretInitDone | SecretError string

definition secret_event_step :: "('c, 'k, 'i) rustls \<Rightarrow> secret_event \<Rightarrow> 'i SniResolver \<Rightarrow> 'i SniResolver" where
  "secret_event_step R ev s =
     (case ev of
        SecretApply secret \<Rightarrow> snd (handle_secret_apply R secret s)
      | SecretInitApply secret \<Rightarrow> snd (handle_secret_apply R secret s)
      | SecretDelete secret \<Rightarrow> s
      | SecretInit \<Rightarrow> s
      | SecretInitDone \<Rightarrow> s
      | SecretError e \<Rightarrow> s)"

definition watch_tls_secrets :: "('c, 'k, 'i) rustls \<Rightarrow> secret_event list \<Rightarrow> 'i SniResolver \<Rightarrow> 'i SniResolver" where
  "watch_tls_secrets R events s = fold (secret_event_step R) events s"

section \<open>The certificates that are served\<close>

text \<open>
  What an event offers: a host name and a certified key, when it applies a TLS secret with an
  annotation and parsable data.
\<close>

definition offered :: "('c, 'k, 'i) rustls \<Rightarrow> secret_event \<Rightarrow> (string \<times> 'c \<times> 'k) option" where
  "offered R ev =
     (case (case ev of SecretApply secret \<Rightarrow> Some secret | SecretInitApply secret \<Rightarrow> Some secret | _ \<Rightarrow> None) of
        None \<Rightarrow> None
      | Some secret \<Rightarrow>
          (if se_type secret \<noteq> Some ''kubernetes.io/tls'' then None
           else case (case om_annotations (se_metadata secret) of Some a \<Rightarrow> map_of a ''rauta.io/hostname'' | None \<Rightarrow> None) of
             None \<Rightarrow> None
           | Some hostname \<Rightarrow>
               (case parse_cert_from_secret_data R secret of
                  Inl _ \<Rightarrow> None
                | Inr cert \<Rightarrow>
                    (case parse_certified_key R cert of Inl _ \<Rightarrow> None | Inr ck \<Rightarrow> Some (hostname, ck)))))"

lemma step_offered:
  "secret_event_step R ev s =
     (case offered R ev of
        None \<Rightarrow> s
      | Some (hostname, ck) \<Rightarrow>
          (case rt_add R hostname ck (sn_inner s) of Inl _ \<Rightarrow> s | Inr i \<Rightarrow> s\<lparr>sn_inner := i\<rparr>))"
proof -
  have "snd (handle_secret_apply R secret s) =
      (case offered R (SecretApply secret) of
         None \<Rightarrow> s
       | Some (hostname, ck) \<Rightarrow>
           (case rt_add R hostname ck (sn_inner s) of Inl _ \<Rightarrow> s | Inr i \<Rightarrow> s\<lparr>sn_inner := i\<rparr>))" for secret
    by (auto simp: handle_secret_apply_def offered_def update_cert_def split: option.split sum.split)
  moreover have "offered R (SecretInitApply secret) = offered R (SecretApply secret)" for secret
    by (simp add: offered_def)
  ultimately show ?thesis by (cases ev) (simp_all add: secret_event_step_def, simp_all add: offered_def)
qed

text \<open>The reference: the last offer for a name that the library accepted.\<close>

fun last_offer :: "('c, 'k, 'i) rustls \<Rightarrow> string \<Rightarrow> secret_event list \<Rightarrow> 'i \<Rightarrow> ('c \<times> 'k) option \<Rightarrow> ('c \<times> 'k) option" where
  "last_offer R h [] i found = found"
| "last_offer R h (ev # evs) i found =
     (case offered R ev of
        None \<Rightarrow> last_offer R h evs i found
      | Some (hostname, ck) \<Rightarrow>
          (case rt_add R hostname ck i of
             Inl _ \<Rightarrow> last_offer R h evs i found
           | Inr i' \<Rightarrow> last_offer R h evs i' (if to_lower h = to_lower hostname then Some ck else found)))"

lemma watch_resolves:
  assumes "rustls_documented R"
  shows "rt_resolve R (Some h) (sn_inner (watch_tls_secrets R evs s)) = last_offer R h evs (sn_inner s) (rt_resolve R (Some h) (sn_inner s))"
proof (induction evs arbitrary: s)
  case (Cons ev evs)
  have "watch_tls_secrets R (ev # evs) s = watch_tls_secrets R evs (secret_event_step R ev s)"
    by (simp add: watch_tls_secrets_def)
  with Cons [of "secret_event_step R ev s"] assms show ?case
    by (auto simp: step_offered rustls_documented_def split: option.split sum.split)
qed (simp add: watch_tls_secrets_def)

lemma watch_hostnames: "sn_hostnames (watch_tls_secrets R evs s) = sn_hostnames s"
proof (induction evs arbitrary: s)
  case (Cons ev evs)
  have "watch_tls_secrets R (ev # evs) s = watch_tls_secrets R evs (secret_event_step R ev s)"
    by (simp add: watch_tls_secrets_def)
  moreover have "sn_hostnames (secret_event_step R ev s) = sn_hostnames s"
    by (simp add: step_offered split: option.split sum.split)
  ultimately show ?case by (simp add: Cons)
qed (simp add: watch_tls_secrets_def)

text \<open>A library of lists: every text is its own parse, and a later key comes first.\<close>

definition list_rustls :: "(string, string, (string \<times> string \<times> string) list) rustls" where
  "list_rustls =
     \<lparr>rt_certs = (\<lambda>pem. if pem = [] then Inl ''no certificate'' else Inr pem),
      rt_key = (\<lambda>pem. if pem = [] then Inl ''no key'' else Inr pem),
      rt_single_cert = (\<lambda>c k. None),
      rt_signing_key = (\<lambda>k. None),
      rt_new = [],
      rt_add = (\<lambda>n c i. if n = [] then Inl ''invalid name'' else Inr ((to_lower n, c) # i)),
      rt_resolve = (\<lambda>h i. case h of Some h \<Rightarrow> map_of i (to_lower h) | None \<Rightarrow> None)\<rparr>"

lemma list_rustls_documented: "rustls_documented list_rustls"
  by (auto simp: rustls_documented_def list_rustls_def split: if_splits)

section \<open>Operations on the resolver\<close>

datatype sni_op = AddCert string TlsCertificate | UpdateCert string TlsCertificate

fun sni_op_step :: "('c, 'k, 'i) rustls \<Rightarrow> sni_op \<Rightarrow> 'i SniResolver \<Rightarrow> 'i SniResolver" where
  "sni_op_step R (AddCert h c) s = snd (add_cert R h c s)"
| "sni_op_step R (UpdateCert h c) s = snd (update_cert R h c s)"

definition sni_ok :: "('c, 'k, 'i) rustls \<Rightarrow> 'i SniResolver \<Rightarrow> bool" where
  "sni_ok R s \<longleftrightarrow> distinct (sn_hostnames s) \<and>
     (\<forall>h \<in> set (sn_hostnames s). rt_resolve R (Some h) (sn_inner s) \<noteq> None)"

lemma sni_new_ok: "sni_ok R (sni_new R)"
  by (simp add: sni_ok_def sni_new_def)

lemma add_cert_ok: "\<lbrakk>rustls_documented R; sni_ok R s\<rbrakk> \<Longrightarrow> sni_ok R (snd (add_cert R h c s))"
  by (auto simp: sni_ok_def add_cert_def rustls_documented_def split: sum.split)

lemma update_cert_ok: "\<lbrakk>rustls_documented R; sni_ok R s\<rbrakk> \<Longrightarrow> sni_ok R (snd (update_cert R h c s))"
  by (auto simp: sni_ok_def update_cert_def rustls_documented_def split: sum.split)

lemma sni_ops_ok: "\<lbrakk>rustls_documented R; sni_ok R s\<rbrakk> \<Longrightarrow> sni_ok R (fold (sni_op_step R) ops s)"
proof (induction ops arbitrary: s)
  case (Cons a ops)
  then have "sni_ok R (sni_op_step R a s)" by (cases a) (simp_all add: add_cert_ok update_cert_ok)
  with Cons show ?case by simp
qed simp

lemma added_is_served:
  assumes "rustls_documented R" and "add_cert R h cert s = (Inr (), s')"
  shows "\<exists>ck config. parse_certified_key R cert = Inr ck \<and> has_cert h s' \<and> get_acceptor R h s' = Some config \<and>
    (\<forall>name. to_lower name = to_lower h \<longrightarrow> config (Some name) = Some ck)"
  using assms
  by (auto simp: add_cert_def rustls_documented_def has_cert_def get_acceptor_def sni_to_server_config_def
      split: sum.splits)

lemma recorded_is_served:
  "\<lbrakk>sni_ok R s; has_cert h s\<rbrakk> \<Longrightarrow> \<exists>config ck. get_acceptor R h s = Some config \<and> config (Some h) = Some ck"
  by (auto simp: sni_ok_def has_cert_def get_acceptor_def sni_to_server_config_def)

lemma load_agrees: "load_cert_from_secret R (Inr secret) = parse_cert_from_secret_data R secret"
  by (simp add: load_cert_from_secret_def parse_cert_from_secret_data_def split: option.split)

section \<open>Properties\<close>

text \<open>
  C39: After any adds and updates of certificates from a new resolver, the acceptor of every
  recorded host name serves a client of this name, and a further successful add records its host
  name and serves exactly the certified key that was added, whatever the case of the client's name.
\<close>

theorem recorded_hosts_are_served:
  assumes "rustls_documented R"
    and "s = fold (sni_op_step R) ops (sni_new R)"
  shows "(has_cert h s \<longrightarrow> (\<exists>config ck. get_acceptor R h s = Some config \<and> config (Some h) = Some ck)) \<and>
    (add_cert R h cert s = (Inr (), s') \<longrightarrow>
      (\<exists>ck config. parse_certified_key R cert = Inr ck \<and> has_cert h s' \<and> get_acceptor R h s' = Some config \<and>
         (\<forall>name. to_lower name = to_lower h \<longrightarrow> config (Some name) = Some ck)))"
  using assms sni_ops_ok [OF assms(1) sni_new_ok] recorded_is_served added_is_served by blast

definition demo_cert :: TlsCertificate where
  "demo_cert = tlscertificate_new ''c'' ''k''"

lemma demo_lower: "to_lower ''A.io'' = ''a.io''" "to_lower ''a.io'' = ''a.io''" "to_lower ''b.io'' = ''b.io''"
  by code_simp+

lemma demo_cert_added:
  "add_cert list_rustls ''A.io'' demo_cert (fold (sni_op_step list_rustls) [UpdateCert ''b.io'' demo_cert] (sni_new list_rustls)) =
     (Inr (), \<lparr>sn_inner = [(''a.io'', ''c'', ''k''), (''b.io'', ''c'', ''k'')], sn_hostnames = [''A.io'']\<rparr>)"
  by (simp add: demo_cert_def tlscertificate_new_def add_cert_def update_cert_def sni_new_def parse_certified_key_def
      list_rustls_def demo_lower [simplified])

theorem recorded_hosts_are_served_witness:
  "\<exists>ck config. get_acceptor list_rustls ''A.io''
       \<lparr>sn_inner = [(''a.io'', ''c'', ''k''), (''b.io'', ''c'', ''k'')], sn_hostnames = [''A.io'']\<rparr> = Some config \<and>
     parse_certified_key list_rustls demo_cert = Inr ck \<and> config (Some ''A.io'') = Some ck"
  using recorded_hosts_are_served [OF list_rustls_documented refl,
    where ops = "[UpdateCert ''b.io'' demo_cert]" and h = "''A.io''" and cert = demo_cert]
    demo_cert_added by blast

text \<open>
  C40: From any resolver and after any events, the watcher of the secrets serves, for every name, the
  key of the last event that offered one for this name and was accepted by the TLS library, and what
  was served before if there is none (the deletion of a secret withdraws nothing). It records no host
  name: \<^const>\<open>has_cert\<close> answers as before the events, and \<^const>\<open>get_acceptor\<close> gives an acceptor
  for the host names recorded before the events only. So from a resolver on which only the watcher
  works, both deny every host name, those that are served included.
\<close>

theorem watched_certificates_served_unrecorded:
  assumes "rustls_documented R"
  shows "rt_resolve R (Some h) (sn_inner (watch_tls_secrets R evs s)) =
      last_offer R h evs (sn_inner s) (rt_resolve R (Some h) (sn_inner s)) \<and>
    has_cert h (watch_tls_secrets R evs s) = has_cert h s \<and>
    (get_acceptor R h (watch_tls_secrets R evs s) = None \<longleftrightarrow> \<not> has_cert h s) \<and>
    \<not> has_cert h (watch_tls_secrets R evs (sni_new R))"
  using watch_resolves [OF assms] by (simp add: has_cert_def get_acceptor_def watch_hostnames sni_new_def sni_to_server_config_def)

definition demo_secret :: "string \<Rightarrow> Secret" where
  "demo_secret pem =
     \<lparr>se_metadata = \<lparr>om_name = Some ''tls'', om_generate_name = None, om_namespace = None, om_labels = None,
        om_annotations = Some [(''rauta.io/hostname'', ''A.io'')], om_generation = None\<rparr>,
      se_type = Some ''kubernetes.io/tls'', se_data = Some [(''tls.crt'', pem), (''tls.key'', ''k'')]\<rparr>"

lemma demo_fresh: "sn_inner (sni_new R) = rt_new R" "rt_resolve list_rustls h (rt_new list_rustls) = None"
  by (simp_all add: sni_new_def list_rustls_def split: option.split)

lemma demo_last_offer:
  "last_offer list_rustls ''a.io'' [SecretInit, SecretInitApply (demo_secret ''old''), SecretApply (demo_secret ''new''),
     SecretApply (demo_secret []), SecretDelete (demo_secret ''new'')] (rt_new list_rustls) None = Some (''new'', ''k'')"
  by (simp add: offered_def demo_secret_def parse_cert_from_secret_data_def from_pem_def parse_certified_key_def
      list_rustls_def demo_lower [simplified])

theorem watched_certificates_served_unrecorded_witness:
  "let s = watch_tls_secrets list_rustls [SecretInit, SecretInitApply (demo_secret ''old''), SecretApply (demo_secret ''new''),
     SecretApply (demo_secret []), SecretDelete (demo_secret ''new'')] (sni_new list_rustls)
   in rt_resolve list_rustls (Some ''a.io'') (sn_inner s) = Some (''new'', ''k'') \<and> \<not> has_cert ''a.io'' s"
  using watched_certificates_served_unrecorded [OF list_rustls_documented, of "''a.io''"
    "[SecretInit, SecretInitApply (demo_secret ''old''), SecretApply (demo_secret ''new''),
     SecretApply (demo_secret []), SecretDelete (demo_secret ''new'')]" "sni_new list_rustls"] demo_last_offer
  unfolding Let_def demo_fresh by metis

end
