(* ===== verification/Gateway_Controller.thy ===== *)
theory Gateway_Controller
  imports Route_Reconcile Listener_Manager Tls
begin

text \<open>
  The controllers of the Gateway and GatewayClass resources (\<open>control/src/apis/gateway/gateway.rs\<close> and
  \<open>gateway_class.rs\<close>): a gateway of the own class is put into the index that the route controller
  reads, its listeners are registered with the listener manager, and a status is reported. The API
  server is a parameter, as in \<open>Http_Route\<close>. The certificates of the listeners are checked
  concurrently, so an answer about a secret takes the numbers of the listener and of the reference.
\<close>

section \<open>Resources\<close>

datatype kube_error = ApiError nat string | OtherError string

fun show_kube_error :: "kube_error \<Rightarrow> string" where
  "show_kube_error (ApiError code e) = e"
| "show_kube_error (OtherError e) = e"

text \<open>The addresses of a node are pairs of a type and an address.\<close>

record Node =
  no_addresses :: "(string \<times> string) list option option"

record CertificateRef =
  cr_group :: "string option"
  cr_kind :: "string option"
  cr_name :: string
  cr_namespace :: "string option"

record RouteKind =
  kd_group :: "string option"
  kd_kind :: string

record GatewayListener =
  gl_name :: string
  gl_port :: int
  gl_protocol :: string
  gl_hostname :: "string option"
  gl_tls_refs :: "CertificateRef list option option"
  gl_allowed_kinds :: "RouteKind list option option"

record Gateway =
  gw_metadata :: ObjectMeta
  gw_class_name :: string
  gw_listeners :: "GatewayListener list"

record gateway_env =
  ge_list_nodes :: "nat \<Rightarrow> kube_error + Node list"
  ge_get_secret :: "nat \<Rightarrow> nat \<Rightarrow> nat \<Rightarrow> string \<Rightarrow> string \<Rightarrow> kube_error + Secret"
  ge_patch_status :: "nat \<Rightarrow> string \<Rightarrow> string \<Rightarrow> json \<Rightarrow> kube_error option"
  ge_timestamp :: "nat \<Rightarrow> nat \<Rightarrow> string"

section \<open>The gateway controller\<close>

record GatewayReconciler =
  gx_gateway_class_name :: string
  gx_listener_manager :: ListenerManager
  gx_gateway_index :: GatewayIndex
  gx_calls :: nat
  gx_patches :: "(string \<times> string \<times> json) list"
  gx_results :: "(string \<times> string \<times> string) list"

definition should_reconcile :: "string \<Rightarrow> GatewayReconciler \<Rightarrow> bool" where
  "should_reconcile gateway_class_name s \<longleftrightarrow> gateway_class_name = gx_gateway_class_name s"

definition node_addresses :: "Node \<Rightarrow> json list" where
  "node_addresses node =
     (case no_addresses node of
        Some (Some addrs) \<Rightarrow>
          map (\<lambda>(_, a). JObj [(''type'', JStr ''IPAddress''), (''value'', JStr a)])
            (filter (\<lambda>(ty, _). ty = ''InternalIP'') addrs)
      | _ \<Rightarrow> [])"

definition get_node_addresses :: "gateway_env \<Rightarrow> GatewayReconciler \<Rightarrow> json list \<times> GatewayReconciler" where
  "get_node_addresses G s =
     (let nodes = ge_list_nodes G (gx_calls s); s = s\<lparr>gx_calls := gx_calls s + 1\<rparr>
      in (case nodes of Inr items \<Rightarrow> concat (map node_addresses items) | Inl e \<Rightarrow> [], s))"

definition register_listener :: "(u16 list \<Rightarrow> u16 \<Rightarrow> string option) \<Rightarrow> string \<Rightarrow> string \<Rightarrow> GatewayListener \<Rightarrow>
    ListenerManager \<Rightarrow> ListenerManager" where
  "register_listener bind ns name l m =
     (case (if gl_protocol l = ''HTTP'' then Some HTTP else if gl_protocol l = ''HTTPS'' then Some HTTPS else None) of
        None \<Rightarrow> m
      | Some protocol \<Rightarrow>
          snd (register_gateway bind \<lparr>lc_port = as_u16 (gl_port l), lc_protocol = protocol\<rparr>
            \<lparr>gr_namespace = ns, gr_name = name, gr_listener_name = gl_name l, gr_hostname = gl_hostname l\<rparr> m))"

definition cert_invalid :: "string \<Rightarrow> bool \<times> string \<times> string" where
  "cert_invalid message = (False, ''InvalidCertificateRef'', message)"

definition resolved_refs :: "bool \<times> string \<times> string" where
  "resolved_refs = (True, ''ResolvedRefs'', ''All references resolved'')"

definition secret_problem :: "kube_error + Secret \<Rightarrow> string \<Rightarrow> string \<Rightarrow> string option" where
  "secret_problem answer ns name =
     (case answer of
        Inr secret \<Rightarrow>
          (case se_data secret of
             Some data \<Rightarrow>
               (if map_of data ''tls.crt'' = None \<or> map_of data ''tls.key'' = None
                then Some (''Secret '' @ ns @ ''/'' @ name @ '' is missing required fields (needs both tls.crt and tls.key)'')
                else None)
           | None \<Rightarrow> Some (''Secret '' @ ns @ ''/'' @ name @ '' has no data''))
      | Inl e \<Rightarrow>
          Some (case e of
                  ApiError code _ \<Rightarrow>
                    (if code = 404 then ''Secret '' @ ns @ ''/'' @ name @ '' not found''
                     else ''Failed to access Secret '' @ ns @ ''/'' @ name @ '': '' @ show_kube_error e)
                | OtherError _ \<Rightarrow> ''Failed to access Secret '' @ ns @ ''/'' @ name @ '': '' @ show_kube_error e))"

text \<open>\<open>ask\<close> answers for the secret of the reference with the given number.\<close>

definition certificate_ref_problem :: "(nat \<Rightarrow> string \<Rightarrow> string \<Rightarrow> kube_error + Secret) \<Rightarrow> nat \<Rightarrow> string \<Rightarrow> CertificateRef \<Rightarrow>
    string option" where
  "certificate_ref_problem ask i gateway_namespace r =
     (if (case cr_group r of Some g \<Rightarrow> g \<noteq> [] \<and> g \<noteq> ''core'' | None \<Rightarrow> False)
      then Some (''Unsupported group '' @ quoted (the (cr_group r)) @ '' for certificateRef'')
      else if (case cr_kind r of Some kind \<Rightarrow> kind \<noteq> ''Secret'' | None \<Rightarrow> False)
      then Some (''Unsupported kind '' @ quoted (the (cr_kind r)) @ '' for certificateRef'')
      else let ns = unwrap_or gateway_namespace (cr_namespace r)
        in secret_problem (ask i ns (cr_name r)) ns (cr_name r))"

fun validate_certificate_refs :: "(nat \<Rightarrow> string \<Rightarrow> string \<Rightarrow> kube_error + Secret) \<Rightarrow> nat \<Rightarrow> string \<Rightarrow> CertificateRef list \<Rightarrow>
    bool \<times> string \<times> string" where
  "validate_certificate_refs ask i gateway_namespace [] = resolved_refs"
| "validate_certificate_refs ask i gateway_namespace (r # rs) =
     (case certificate_ref_problem ask i gateway_namespace r of
        Some message \<Rightarrow> cert_invalid message
      | None \<Rightarrow> validate_certificate_refs ask (Suc i) gateway_namespace rs)"

definition route_kind_json :: "string \<Rightarrow> string \<Rightarrow> json" where
  "route_kind_json grp kind = JObj [(''group'', JStr grp), (''kind'', JStr kind)]"

definition default_kinds :: "json list" where
  "default_kinds = [route_kind_json ''gateway.networking.k8s.io'' ''HTTPRoute'']"

definition listener_refs :: "bool \<times> string \<times> string \<Rightarrow> GatewayListener \<Rightarrow> (bool \<times> string \<times> string) \<times> json list" where
  "listener_refs tls_validation l =
     (if \<not> fst tls_validation then (tls_validation, default_kinds)
      else case gl_allowed_kinds l of
        Some (Some kinds) \<Rightarrow>
          if kinds = [] then ((False, ''InvalidRouteKinds'', ''No route kinds specified''), [])
          else
            (let valid_kinds = filter (\<lambda>k. kd_kind k = ''HTTPRoute'') kinds;
                 has_invalid_kinds = (length valid_kinds < length kinds);
                 supported = map (\<lambda>k. route_kind_json (unwrap_or ''gateway.networking.k8s.io'' (kd_group k)) (kd_kind k)) valid_kinds
             in if valid_kinds = [] then ((False, ''InvalidRouteKinds'', ''No supported route kinds found''), [])
                else if has_invalid_kinds
                then ((False, ''InvalidRouteKinds'', ''Some route kinds are not supported''), supported)
                else (resolved_refs, supported))
      | _ \<Rightarrow> (resolved_refs, default_kinds))"

text \<open>The clock is read for every condition, here three times for each listener and then for the gateway.\<close>

definition listener_status :: "(nat \<Rightarrow> string) \<Rightarrow> int \<Rightarrow> nat \<times> GatewayListener \<times> (bool \<times> string \<times> string) \<Rightarrow> json" where
  "listener_status timestamp generation = (\<lambda>(i, l, tls_validation).
     let ((ok, reason, message), supported_kinds) = listener_refs tls_validation l
     in JObj [(''attachedRoutes'', JInt 0),
          (''conditions'', JArr
             [condition ''Accepted'' True ''Accepted'' ''Listener is accepted'' (timestamp (3 * i)) generation,
              condition ''Programmed'' True ''Programmed'' ''Listener is programmed'' (timestamp (3 * i + 1)) generation,
              condition ''ResolvedRefs'' ok reason message (timestamp (3 * i + 2)) generation]),
          (''name'', JStr (gl_name l)), (''supportedKinds'', JArr supported_kinds)])"

definition tls_validation :: "gateway_env \<Rightarrow> nat \<Rightarrow> string \<Rightarrow> nat \<times> GatewayListener \<Rightarrow> bool \<times> string \<times> string" where
  "tls_validation G calls ns = (\<lambda>(i, l).
     case gl_tls_refs l of
       Some (Some cert_refs) \<Rightarrow> validate_certificate_refs (ge_get_secret G calls i) 0 ns cert_refs
     | _ \<Rightarrow> resolved_refs)"

definition set_gateway_status :: "gateway_env \<Rightarrow> string \<Rightarrow> string \<Rightarrow> bool \<Rightarrow> Gateway \<Rightarrow> int \<Rightarrow> GatewayReconciler \<Rightarrow>
    (kube_error + unit) \<times> GatewayReconciler" where
  "set_gateway_status G ns name accepted gateway generation s =
     (let (addresses, s) = get_node_addresses G s;
          timestamp = ge_timestamp G (gx_calls s);
          listeners = List.enumerate 0 (gw_listeners gateway);
          n = 3 * length (gw_listeners gateway);
          status_json =
            (if accepted
             then JObj [(''status'', JObj
                 [(''addresses'', JArr addresses),
                  (''conditions'', JArr
                     [condition ''Accepted'' True ''Accepted'' ''Gateway is accepted'' (timestamp n) generation,
                      condition ''Programmed'' True ''Programmed'' ''Gateway is programmed'' (timestamp (n + 1)) generation]),
                  (''listeners'', JArr (map (\<lambda>(i, l).
                     listener_status timestamp generation (i, l, tls_validation G (gx_calls s) ns (i, l))) listeners))])]
             else JObj [(''status'', JObj
                 [(''conditions'', JArr
                     [condition ''Accepted'' False ''Invalid'' ''Gateway configuration is invalid'' (timestamp 0) generation])])]);
          err = ge_patch_status G (gx_calls s) ns name status_json;
          s = s\<lparr>gx_calls := gx_calls s + 1, gx_patches := gx_patches s @ [(ns, name, status_json)]\<rparr>
      in (case err of None \<Rightarrow> Inr () | Some e \<Rightarrow> Inl e, s))"

definition record_gateway_reconciliation :: "string \<Rightarrow> string \<Rightarrow> string \<Rightarrow> GatewayReconciler \<Rightarrow> GatewayReconciler" where
  "record_gateway_reconciliation name ns result s = s\<lparr>gx_results := gx_results s @ [(name, ns, result)]\<rparr>"

definition gateway_reconcile :: "gateway_env \<Rightarrow> (u16 list \<Rightarrow> u16 \<Rightarrow> string option) \<Rightarrow> Gateway \<Rightarrow> GatewayReconciler \<Rightarrow>
    (kube_error + Action) \<times> GatewayReconciler" where
  "gateway_reconcile G bind gateway s =
     (let ns = namespace_or_default (gw_metadata gateway); name = name_any (gw_metadata gateway) in
      if \<not> should_reconcile (gw_class_name gateway) s
      then (Inr AwaitChange, s\<lparr>gx_gateway_index := snd (gi_remove ns name (gx_gateway_index s))\<rparr>)
      else
        (let s = s\<lparr>gx_gateway_index := snd (gi_add ns name (gx_gateway_index s))\<rparr>;
             s = s\<lparr>gx_listener_manager :=
               fold (register_listener bind ns name) (gw_listeners gateway) (gx_listener_manager s)\<rparr>;
             generation = unwrap_or 0 (om_generation (gw_metadata gateway))
         in case set_gateway_status G ns name True gateway generation s of
              (Inl e, s) \<Rightarrow> (Inl e, s)
            | (Inr _, s) \<Rightarrow> (Inr (Requeue (secs 300)), record_gateway_reconciliation name ns ''success'' s)))"

definition gateway_error_policy :: "Gateway \<Rightarrow> kube_error \<Rightarrow> GatewayReconciler \<Rightarrow> Action" where
  "gateway_error_policy gateway error s = Requeue (secs 60)"

section \<open>The class controller\<close>

record GatewayClass =
  gc_metadata :: ObjectMeta
  gc_controller_name :: string

record GatewayClassReconciler =
  cx_calls :: nat
  cx_patches :: "(string \<times> json) list"
  cx_results :: "(string \<times> string) list"

definition RAUTA_CONTROLLER_NAME :: string where
  "RAUTA_CONTROLLER_NAME = ''rauta.io/gateway-controller''"

definition should_accept :: "string \<Rightarrow> bool" where
  "should_accept controller_name \<longleftrightarrow> controller_name = RAUTA_CONTROLLER_NAME"

definition set_accepted_status :: "gateway_env \<Rightarrow> string \<Rightarrow> bool \<Rightarrow> int \<Rightarrow> GatewayClassReconciler \<Rightarrow>
    (kube_error + unit) \<times> GatewayClassReconciler" where
  "set_accepted_status G name accepted generation s =
     (let timestamp = ge_timestamp G (cx_calls s) 0;
          cond = (if accepted
            then condition ''Accepted'' True ''Accepted''
                   (''GatewayClass is accepted by controller '' @ RAUTA_CONTROLLER_NAME) timestamp generation
            else condition ''Accepted'' False ''InvalidParameters'' ''GatewayClass configuration is invalid'' timestamp generation);
          status_json = JObj [(''status'', JObj [(''conditions'', JArr [cond])])];
          err = ge_patch_status G (cx_calls s) [] name status_json;
          s = s\<lparr>cx_calls := cx_calls s + 1, cx_patches := cx_patches s @ [(name, status_json)]\<rparr>
      in (case err of None \<Rightarrow> Inr () | Some e \<Rightarrow> Inl e, s))"

definition gatewayclass_reconcile :: "gateway_env \<Rightarrow> GatewayClass \<Rightarrow> GatewayClassReconciler \<Rightarrow>
    (kube_error + Action) \<times> GatewayClassReconciler" where
  "gatewayclass_reconcile G gateway_class s =
     (let name = name_any (gc_metadata gateway_class) in
      if should_accept (gc_controller_name gateway_class)
      then case set_accepted_status G name True (unwrap_or 0 (om_generation (gc_metadata gateway_class))) s of
             (Inl e, s) \<Rightarrow> (Inl e, s)
           | (Inr _, s) \<Rightarrow> (Inr (Requeue (secs 300)), s\<lparr>cx_results := cx_results s @ [(name, ''success'')]\<rparr>)
      else (Inr (Requeue (secs 300)), s))"

definition gatewayclass_error_policy :: "GatewayClass \<Rightarrow> kube_error \<Rightarrow> GatewayClassReconciler \<Rightarrow> Action" where
  "gatewayclass_error_policy gateway_class error s = Requeue (secs 60)"

section \<open>Registrations\<close>

definition listener_entry :: "string \<Rightarrow> string \<Rightarrow> GatewayListener \<Rightarrow> u16 \<times> GatewayRef" where
  "listener_entry ns name l = (as_u16 (gl_port l),
     \<lparr>gr_namespace = ns, gr_name = name, gr_listener_name = gl_name l, gr_hostname = gl_hostname l\<rparr>)"

lemma register_listener_registered:
  "registered m \<subseteq> registered (register_listener bind ns name l m)"
  "registered (register_listener bind ns name l m) \<subseteq> insert (listener_entry ns name l) (registered m)"
  by (auto simp: register_listener_def listener_entry_def register_registered split: option.split)

lemma register_listeners_registered:
  "registered m \<subseteq> registered (fold (register_listener bind ns name) ls m) \<and>
   registered (fold (register_listener bind ns name) ls m) \<subseteq> registered m \<union> listener_entry ns name ` set ls"
proof (induction ls arbitrary: m)
  case (Cons l ls)
  show ?case using Cons [of "register_listener bind ns name l m"] register_listener_registered(1) [of m bind ns name l]
      register_listener_registered(2) [of bind ns name l m]
    by auto
qed simp

lemma set_status_frame:
  assumes "set_gateway_status G ns name a gateway gen s = (res, s')"
  shows "gx_listener_manager s' = gx_listener_manager s \<and> gx_gateway_index s' = gx_gateway_index s"
  using assms by (auto simp: set_gateway_status_def get_node_addresses_def Let_def)

lemma gateway_reconcile_manager:
  "gx_listener_manager (snd (gateway_reconcile G bind gateway s)) =
     (if should_reconcile (gw_class_name gateway) s
      then fold (register_listener bind (namespace_or_default (gw_metadata gateway)) (name_any (gw_metadata gateway)))
             (gw_listeners gateway) (gx_listener_manager s)
      else gx_listener_manager s)"
  using set_status_frame
  by (auto simp: gateway_reconcile_def Let_def record_gateway_reconciliation_def split: prod.split sum.split)

lemma gateway_reconcile_index:
  "gx_gateway_index (snd (gateway_reconcile G bind gateway s)) =
     snd ((if should_reconcile (gw_class_name gateway) s then gi_add else gi_remove)
       (namespace_or_default (gw_metadata gateway)) (name_any (gw_metadata gateway)) (gx_gateway_index s))"
  using set_status_frame
  by (auto simp: gateway_reconcile_def Let_def record_gateway_reconciliation_def split: prod.split sum.split)

text \<open>
  C35: Reconciling a gateway only ever adds registrations: those that were there stay, also those of
  listeners that were removed from the gateway, moved to another port or given another hostname, and
  those of a gateway that left the class; the new ones are those of the listeners it has now.
\<close>

theorem gateway_registrations_only_grow:
  "registered (gx_listener_manager s) \<subseteq> registered (gx_listener_manager (snd (gateway_reconcile G bind gateway s))) \<and>
   registered (gx_listener_manager (snd (gateway_reconcile G bind gateway s))) \<subseteq> registered (gx_listener_manager s) \<union>
     listener_entry (namespace_or_default (gw_metadata gateway)) (name_any (gw_metadata gateway)) ` set (gw_listeners gateway)"
  using register_listeners_registered [of "gx_listener_manager s" bind "namespace_or_default (gw_metadata gateway)"
      "name_any (gw_metadata gateway)" "gw_listeners gateway"]
  unfolding gateway_reconcile_manager by auto

lemma status_manager:
  "set_gateway_status G ns name a gateway gen (s\<lparr>gx_listener_manager := m\<rparr>) =
     (fst (set_gateway_status G ns name a gateway gen s),
      (snd (set_gateway_status G ns name a gateway gen s))\<lparr>gx_listener_manager := m\<rparr>)"
  by (cases s) (simp add: set_gateway_status_def get_node_addresses_def Let_def)

text \<open>
  The reported status does not depend on the listeners: with any other state of the listener
  manager and any other answers to binding a port, a reconciliation gives the same result and sends
  the same status, which says that the gateway and every listener are programmed.
\<close>

theorem status_ignores_registration:
  "fst (gateway_reconcile G bind gateway (s\<lparr>gx_listener_manager := m\<rparr>)) = fst (gateway_reconcile G bind' gateway s) \<and>
   gx_patches (snd (gateway_reconcile G bind gateway (s\<lparr>gx_listener_manager := m\<rparr>))) =
     gx_patches (snd (gateway_reconcile G bind' gateway s))"
proof -
  let ?ns = "namespace_or_default (gw_metadata gateway)" and ?name = "name_any (gw_metadata gateway)"
    and ?gen = "unwrap_or 0 (om_generation (gw_metadata gateway))"
  let ?s0 = "s\<lparr>gx_gateway_index := snd (gi_add ?ns ?name (gx_gateway_index s))\<rparr>"
  have swap: "s\<lparr>gx_listener_manager := x, gx_gateway_index := g\<rparr> = s\<lparr>gx_gateway_index := g\<rparr>\<lparr>gx_listener_manager := x\<rparr>"
    for x g by (cases s) simp
  have "fst (gateway_reconcile G b gateway (s\<lparr>gx_listener_manager := x\<rparr>)) =
        (if should_reconcile (gw_class_name gateway) s
         then map_sum id (\<lambda>_. Requeue (secs 300)) (fst (set_gateway_status G ?ns ?name True gateway ?gen ?s0)) else Inr AwaitChange) \<and>
      gx_patches (snd (gateway_reconcile G b gateway (s\<lparr>gx_listener_manager := x\<rparr>))) =
        (if should_reconcile (gw_class_name gateway) s
         then gx_patches (snd (set_gateway_status G ?ns ?name True gateway ?gen ?s0)) else gx_patches s)" for b x
    by (cases "set_gateway_status G ?ns ?name True gateway ?gen ?s0"; cases "fst (set_gateway_status G ?ns ?name True gateway ?gen ?s0)")
      (simp_all add: gateway_reconcile_def should_reconcile_def Let_def swap status_manager record_gateway_reconciliation_def)
  from this [of bind m] this [of bind' "gx_listener_manager s"] show ?thesis by simp
qed

text \<open>
  When a gateway changes to another class its routes are detached and its listeners stay: the
  reconciliation of the gateway leaves all registrations as they were, and afterwards every route
  whose parents are all this gateway is ignored by the route controller, which neither touches the
  router nor calls the API server. Routes installed earlier go on being served.
\<close>

theorem class_change_detaches:
  assumes "gw_class_name gateway \<noteq> gx_gateway_class_name s" "gi_inv (gx_gateway_index s)"
    and "hr_parent_refs route = Some refs"
    and "\<forall>r \<in> set refs. pr_name r = name_any (gw_metadata gateway) \<and>
      unwrap_or (namespace_or_default (hr_metadata route)) (pr_namespace r) = namespace_or_default (gw_metadata gateway)"
    and "hx_gateway_index h = gx_gateway_index (snd (gateway_reconcile G bind gateway s))"
  shows "registered (gx_listener_manager (snd (gateway_reconcile G bind gateway s))) = registered (gx_listener_manager s) \<and>
         (\<exists>h'. reconcile M K route h = Done (Inr AwaitChange, h') \<and> hx_router h' = hx_router h \<and> hx_calls h' = hx_calls h)"
proof -
  let ?ns = "namespace_or_default (gw_metadata gateway)" and ?name = "name_any (gw_metadata gateway)"
  have own: "\<not> should_reconcile (gw_class_name gateway) s" using assms(1) by (simp add: should_reconcile_def)
  have "gi_members (hx_gateway_index h) = gi_members (gx_gateway_index s) - {(?ns, ?name)}"
    unfolding assms(5) gateway_reconcile_index using own gi.remove_members [OF assms(2)] by simp
  then have gone: "gatewaykey_new ?ns ?name \<notin> set (gi_inner (hx_gateway_index h))" using gi_members_iff by blast
  obtain kept g where k: "filter_managed (namespace_or_default (hr_metadata route)) refs (hx_gateway_index h) = (kept, g)"
    by fastforce
  have "kept = filter (managed (hx_gateway_index h) (namespace_or_default (hr_metadata route))) refs"
    using filter_managed_filter [of "namespace_or_default (hr_metadata route)" refs "hx_gateway_index h"] k by simp
  also have "\<dots> = []" using assms(4) gone by (auto simp: filter_empty_conv managed_def)
  finally have "get_matching_parent_refs (hr_parent_refs route) (namespace_or_default (hr_metadata route)) h =
      ([], h\<lparr>hx_gateway_index := g\<rparr>)"
    using k by (simp add: get_matching_parent_refs_def assms(3))
  then have "reconcile M K route h = Done (Inr AwaitChange, h\<lparr>hx_gateway_index := g\<rparr>)"
    by (simp add: reconcile_def Let_def)
  then show ?thesis using own by (simp add: gateway_reconcile_manager)
qed

definition demo_gateway :: Gateway where
  "demo_gateway = \<lparr>gw_metadata = \<lparr>om_name = Some ''gw'', om_generate_name = None, om_namespace = None, om_labels = None,
       om_annotations = None, om_generation = None\<rparr>, gw_class_name = ''other'', gw_listeners = []\<rparr>"

theorem class_change_detaches_witness:
  "\<forall>G bind. \<exists>s h h'. (0, web_ref) \<in> registered (gx_listener_manager (snd (gateway_reconcile G bind demo_gateway s))) \<and>
     reconcile list_matchit demo_env demo_route h = Done (Inr AwaitChange, h') \<and> hx_router h' = hx_router h"
proof (intro allI)
  fix G bind
  define m where "m = lm_new\<lparr>lm_listeners := [(0, \<lparr>al_config = web, al_gateways = [web_ref], al_task = 0\<rparr>)]\<rparr>"
  define s where "s = \<lparr>gx_gateway_class_name = ''rauta'', gx_listener_manager = m,
    gx_gateway_index = snd (gi_add ''default'' ''gw'' (gi_new ''rauta'')), gx_calls = 0, gx_patches = [], gx_results = []\<rparr>"
  define h where "h = (demo_start list_matchit)\<lparr>hx_gateway_index := gx_gateway_index (snd (gateway_reconcile G bind demo_gateway s))\<rparr>"
  have "registered (gx_listener_manager (snd (gateway_reconcile G bind demo_gateway s))) = registered (gx_listener_manager s) \<and>
      (\<exists>h'. reconcile list_matchit demo_env demo_route h = Done (Inr AwaitChange, h') \<and> hx_router h' = hx_router h \<and> hx_calls h' = hx_calls h)"
    by (rule class_change_detaches [of _ _ _ "[\<lparr>pr_name = ''gw'', pr_namespace = None, pr_section_name = None\<rparr>]"])
      (simp_all add: demo_gateway_def demo_route_def s_def h_def gi_add_def gi_new_def gi_inv_def name_any_def Let_def)
  moreover have "(0, web_ref) \<in> registered (gx_listener_manager s)" by (simp add: s_def m_def registered_def)
  ultimately show "\<exists>s h h'. (0, web_ref) \<in> registered (gx_listener_manager (snd (gateway_reconcile G bind demo_gateway s))) \<and>
     reconcile list_matchit demo_env demo_route h = Done (Inr AwaitChange, h') \<and> hx_router h' = hx_router h" by metis
qed

section \<open>Accepted classes\<close>

text \<open>A class gets a status exactly when it names this controller, and then one that accepts it.\<close>

lemma gatewayclass_accepts:
  "cx_patches (snd (gatewayclass_reconcile G c s)) = cx_patches s @
     (if gc_controller_name c = ''rauta.io/gateway-controller''
      then [(name_any (gc_metadata c), JObj [(''status'', JObj [(''conditions'', JArr [condition ''Accepted'' True ''Accepted''
         ''GatewayClass is accepted by controller rauta.io/gateway-controller'' (ge_timestamp G (cx_calls s) 0)
         (unwrap_or 0 (om_generation (gc_metadata c)))])])])]
      else [])"
  by (simp add: gatewayclass_reconcile_def set_accepted_status_def should_accept_def RAUTA_CONTROLLER_NAME_def Let_def
    split: prod.split sum.split option.split)

lemma certificates_valid:
  "fst (validate_certificate_refs ask i ns refs) \<longleftrightarrow>
     (\<forall>j < length refs. certificate_ref_problem ask (i + j) ns (refs ! j) = None)"
proof (induction refs arbitrary: i)
  case (Cons r refs)
  show ?case
  proof (cases "certificate_ref_problem ask i ns r")
    case None
    then show ?thesis using Cons [of "Suc i"] by (auto simp: less_Suc_eq_0_disj)
  qed (auto simp: cert_invalid_def intro: exI [of _ 0])
qed (simp add: resolved_refs_def)

end
