(* ===== verification/Server.thy ===== *)
theory Server
  imports Request_Handler Tls Listener_Manager
begin

text \<open>
  The static server of the standalone mode (\<open>control/src/proxy/server.rs\<close>): its construction, the accept
  loops of its four ways to serve, and the shutdown that drains the connections. A connection is
  served by requests to the handler of \<open>Request_Handler\<close>; here it is a task that ends or panics. The
  shutdown is a state machine whose steps interleave the accept loop, the tasks of the connections
  and the task that drains.
\<close>

section \<open>The server\<close>

text \<open>What the handler reads of the server is a state of \<open>Request_Handler\<close>.\<close>

record ('r, 's) ProxyServer =
  ps_bind_addr :: string
  ps_gateway :: "('r, 's) gateway"

definition proxyserver_new :: "string \<Rightarrow> 'r Router \<Rightarrow> string + ('r, 's) ProxyServer" where
  "proxyserver_new addr router =
     Inr \<lparr>ps_bind_addr = addr,
          ps_gateway =
            \<lparr>g_router = router, g_limiter = rl_new, g_breakers = cbm_new 5 30000000000, g_selector = None,
             g_fwd = \<lparr>fs_pools = pools_new 0, fs_workers = None, fs_protocol_cache = []\<rparr>, g_http = []\<rparr>\<rparr>"

definition worker_new :: "nat \<Rightarrow> 's BackendConnectionPools" where
  "worker_new worker_id = pools_new worker_id"

definition new_with_workers :: "string \<Rightarrow> 'r Router \<Rightarrow> nat \<Rightarrow> string + ('r, 's) ProxyServer" where
  "new_with_workers addr router num_workers =
     Inr \<lparr>ps_bind_addr = addr,
          ps_gateway =
            \<lparr>g_router = router, g_limiter = rl_new, g_breakers = cbm_new 5 30000000000,
             g_selector = Some (selector_new num_workers),
             g_fwd = \<lparr>fs_pools = pools_new 0, fs_workers = Some (map worker_new [0..<num_workers]),
                      fs_protocol_cache = []\<rparr>,
             g_http = []\<rparr>\<rparr>"

definition ps_set_backend_protocol_http2 :: "string \<Rightarrow> u16 \<Rightarrow> ('r, 's) ProxyServer \<Rightarrow> ('r, 's) ProxyServer" where
  "ps_set_backend_protocol_http2 host p s =
     s\<lparr>ps_gateway := ps_gateway s\<lparr>g_fwd := g_fwd (ps_gateway s)
         \<lparr>fs_protocol_cache := AList.update (host @ '':'' @ show_u16 p) True (fs_protocol_cache (g_fwd (ps_gateway s)))\<rparr>\<rparr>\<rparr>"

section \<open>Accept loops\<close>

text \<open>
  The answers of the listener are given in their order; an accepted TLS connection comes with the
  outcome of its handshake, the negotiated protocol if any. The value is what the loop has returned,
  none while it runs, and the protocols of the connections it serves.
\<close>

type_synonym serving = "(string + unit) option \<times> HttpProtocol list"

definition bind_error :: "string \<Rightarrow> string \<Rightarrow> string" where
  "bind_error addr e = ''Failed to bind to '' @ addr @ '': '' @ e"

definition accept_error :: "string \<Rightarrow> string" where
  "accept_error e = ''Failed to accept connection: '' @ e"

fun accept_until_error :: "HttpProtocol \<Rightarrow> (string + unit) list \<Rightarrow> serving" where
  "accept_until_error p [] = (None, [])"
| "accept_until_error p (Inl e # answers) = (Some (Inl (accept_error e)), [])"
| "accept_until_error p (Inr _ # answers) = apsnd (Cons p) (accept_until_error p answers)"

definition ps_serve :: "string option \<Rightarrow> (string + unit) list \<Rightarrow> ('r, 's) ProxyServer \<Rightarrow> serving" where
  "ps_serve bound answers s =
     (case bound of
        Some e \<Rightarrow> (Some (Inl (bind_error (ps_bind_addr s) e)), [])
      | None \<Rightarrow> accept_until_error Http1 answers)"

definition serve_http2 :: "string option \<Rightarrow> (string + unit) list \<Rightarrow> ('r, 's) ProxyServer \<Rightarrow> serving" where
  "serve_http2 bound answers s =
     (case bound of
        Some e \<Rightarrow> (Some (Inl (bind_error (ps_bind_addr s) e)), [])
      | None \<Rightarrow> accept_until_error Http2 answers)"

fun accept_https :: "(string option \<Rightarrow> HttpProtocol) \<Rightarrow> (string + string + string option) list \<Rightarrow> HttpProtocol list" where
  "accept_https version [] = []"
| "accept_https version (Inl e # answers) = accept_https version answers"
| "accept_https version (Inr (Inl e) # answers) = accept_https version answers"
| "accept_https version (Inr (Inr alpn) # answers) = version alpn # accept_https version answers"

definition serve_https :: "('c, 'k, 'i) rustls \<Rightarrow> string option \<Rightarrow> (string + string + string option) list \<Rightarrow>
    'i SniResolver \<Rightarrow> ('r, 's) ProxyServer \<Rightarrow> serving" where
  "serve_https R bound answers sni s =
     (case bound of
        Some e \<Rightarrow> (Some (Inl (bind_error (ps_bind_addr s) e)), [])
      | None \<Rightarrow>
          (case sni_to_server_config R sni of
             Inl (_, e) \<Rightarrow> (Some (Inl (''Failed to build TLS config: '' @ e)), [])
           | Inr _ \<Rightarrow> (None, accept_https (\<lambda>_. Http1) answers)))"

definition serve_https_h2 :: "('c, 'k, 'i) rustls \<Rightarrow> string option \<Rightarrow> (string + string + string option) list \<Rightarrow>
    'i SniResolver \<Rightarrow> ('r, 's) ProxyServer \<Rightarrow> serving" where
  "serve_https_h2 R bound answers sni s =
     (case bound of
        Some e \<Rightarrow> (Some (Inl (bind_error (ps_bind_addr s) e)), [])
      | None \<Rightarrow>
          (case sni_to_server_config R sni of
             Inl (_, e) \<Rightarrow> (Some (Inl (''Failed to build TLS config: '' @ e)), [])
           | Inr _ \<Rightarrow> (None, accept_https (\<lambda>alpn. if alpn = Some ''h2'' then Http2 else Http1) answers)))"

section \<open>Graceful shutdown\<close>

text \<open>
  The task that drains waits for the signal, reads the counter of the connections, sleeps between
  two readings, and at last notifies the accept loop. \<open>Reading\<close> and \<open>Sleeping\<close> carry the time when the
  signal came; \<open>Sleeping\<close> also the end of the sleep.
\<close>

datatype drain_phase = AwaitSignal | Reading instant | Sleeping instant instant | NotifySent

record server_state =
  sv_now :: instant
  sv_active :: u64
  sv_live :: nat
  sv_drain :: drain_phase
  sv_result :: "(string + unit) option"

definition drain_timeout :: duration where "drain_timeout = 30000000000"
definition drain_interval :: duration where "drain_interval = 100000000"

definition server_started :: "instant \<Rightarrow> server_state" where
  "server_started now = \<lparr>sv_now = now, sv_active = 0, sv_live = 0, sv_drain = AwaitSignal, sv_result = None\<rparr>"

text \<open>The events: those of the accept loop, of the connections, and of the task that drains.\<close>

datatype server_event =
  Accepted | AcceptFailed string | Notified | Finished | TaskPanicked | Signal | ReadCounter | Woke | Tick duration

inductive server_step :: "server_state \<Rightarrow> server_event \<Rightarrow> server_state \<Rightarrow> bool" where
  accepted: "sv_result s = None \<Longrightarrow> server_step s Accepted (s\<lparr>sv_active := sv_active s + 1, sv_live := sv_live s + 1\<rparr>)"
| accept_failed: "sv_result s = None \<Longrightarrow>
    server_step s (AcceptFailed e) (s\<lparr>sv_result := Some (Inl (accept_error e))\<rparr>)"
| notified: "\<lbrakk>sv_result s = None; sv_drain s = NotifySent\<rbrakk> \<Longrightarrow> server_step s Notified (s\<lparr>sv_result := Some (Inr ())\<rparr>)"
| finished: "0 < sv_live s \<Longrightarrow> server_step s Finished (s\<lparr>sv_active := sv_active s - 1, sv_live := sv_live s - 1\<rparr>)"
| task_panicked: "0 < sv_live s \<Longrightarrow> server_step s TaskPanicked (s\<lparr>sv_live := sv_live s - 1\<rparr>)"
| signal: "sv_drain s = AwaitSignal \<Longrightarrow> server_step s Signal (s\<lparr>sv_drain := Reading (sv_now s)\<rparr>)"
| read_drained: "\<lbrakk>sv_drain s = Reading start; sv_active s = 0\<rbrakk> \<Longrightarrow> server_step s ReadCounter (s\<lparr>sv_drain := NotifySent\<rparr>)"
| read_timeout: "\<lbrakk>sv_drain s = Reading start; sv_active s > 0; sv_now s - start > drain_timeout\<rbrakk> \<Longrightarrow>
    server_step s ReadCounter (s\<lparr>sv_drain := NotifySent\<rparr>)"
| read_waiting: "\<lbrakk>sv_drain s = Reading start; sv_active s > 0; sv_now s - start \<le> drain_timeout\<rbrakk> \<Longrightarrow>
    server_step s ReadCounter (s\<lparr>sv_drain := Sleeping start (sv_now s + drain_interval)\<rparr>)"
| woke: "\<lbrakk>sv_drain s = Sleeping start until; until \<le> sv_now s\<rbrakk> \<Longrightarrow> server_step s Woke (s\<lparr>sv_drain := Reading start\<rparr>)"
| tick: "server_step s (Tick d) (s\<lparr>sv_now := sv_now s + d\<rparr>)"

code_pred (modes: i \<Rightarrow> i \<Rightarrow> i \<Rightarrow> bool, i \<Rightarrow> i \<Rightarrow> o \<Rightarrow> bool) server_step .

inductive_cases server_stepE: "server_step s e s'"
inductive_simps read_step: "server_step s ReadCounter s'"

inductive server_run :: "server_state \<Rightarrow> server_event list \<Rightarrow> server_state \<Rightarrow> bool" where
  run_start: "server_run s [] s"
| run_step: "\<lbrakk>server_run s es s'; server_step s' e s''\<rbrakk> \<Longrightarrow> server_run s (es @ [e]) s''"

lemma server_run_trans: "\<lbrakk>server_run s' fs s''; server_run s es s'\<rbrakk> \<Longrightarrow> server_run s (es @ fs) s''"
proof (induction rule: server_run.induct)
  case (run_step s' fs t e u)
  then show ?case using server_run.run_step [of s "es @ fs" t e u] by simp
qed simp

lemma server_run_Cons: "\<lbrakk>server_step s e s'; server_run s' es s''\<rbrakk> \<Longrightarrow> server_run s (e # es) s''"
  using server_run_trans [of s' es s'' s "[e]"] server_run.run_step [OF run_start, of s e s'] by simp

subsection \<open>The counter\<close>

lemma counter_step:
  "server_step s e s' \<Longrightarrow> sv_active s = of_nat (sv_live s + n) \<Longrightarrow>
     sv_active s' = of_nat (sv_live s' + (if e = TaskPanicked then Suc n else n))"
  by (erule server_stepE) (auto simp: of_nat_diff)

lemma counter_run:
  assumes "server_run s es s'" and "sv_active s = of_nat (sv_live s)"
  shows "sv_active s' = of_nat (sv_live s' + count_list es TaskPanicked)"
  using assms
proof (induction rule: server_run.induct)
  case (run_step s es s' e s'')
  then have "sv_active s' = of_nat (sv_live s' + count_list es TaskPanicked)" by simp
  from counter_step [OF run_step(2) this] show ?case by auto
qed simp

subsection \<open>The drain\<close>

text \<open>
  The readings of a run that found a connection and time left: while the drain goes on, each of them
  was followed by a sleep of its interval.
\<close>

definition drain_clock :: "server_state \<Rightarrow> nat \<Rightarrow> bool" where
  "drain_clock s n \<longleftrightarrow>
     (case sv_drain s of
        AwaitSignal \<Rightarrow> n = 0
      | Reading start \<Rightarrow> n \<le> 301 \<and> start + n * drain_interval \<le> sv_now s
      | Sleeping start until \<Rightarrow> n \<le> 301 \<and> start + n * drain_interval \<le> until
      | NotifySent \<Rightarrow> n \<le> 302)"

lemma drain_clock_step:
  "server_step s e s' \<Longrightarrow> drain_clock s n \<Longrightarrow> drain_clock s' (if e = ReadCounter then Suc n else n)"
  by (erule server_stepE)
    (auto simp: drain_clock_def drain_timeout_def drain_interval_def split: drain_phase.splits)

lemma drain_clock_run:
  "\<lbrakk>server_run s es s'; drain_clock s 0\<rbrakk> \<Longrightarrow> drain_clock s' (count_list es ReadCounter)"
proof (induction rule: server_run.induct)
  case (run_step s es s' e s'')
  from drain_clock_step [OF run_step(2)] run_step show ?case by (auto split: if_splits)
qed simp

definition drain_history :: "server_event list \<Rightarrow> server_state \<Rightarrow> bool" where
  "drain_history es s \<longleftrightarrow>
     (sv_drain s \<noteq> AwaitSignal \<longrightarrow> Signal \<in> set es) \<and>
     (sv_drain s = NotifySent \<longrightarrow> ReadCounter \<in> set es) \<and>
     (sv_result s = Some (Inr ()) \<longrightarrow> sv_drain s = NotifySent)"

lemma drain_history_run: "\<lbrakk>server_run s es s'; drain_history [] s\<rbrakk> \<Longrightarrow> drain_history es s'"
proof (induction rule: server_run.induct)
  case (run_step s es s' e s'')
  then have "drain_history es s'" by simp
  with run_step(2) show ?case by (cases rule: server_stepE) (auto simp: drain_history_def)
qed simp

lemma server_started_simps [simp]:
  "sv_active (server_started t) = 0" "sv_live (server_started t) = 0" "drain_clock (server_started t) 0"
  "drain_history [] (server_started t)"
  by (simp_all add: server_started_def drain_clock_def drain_history_def)

subsection \<open>Connections during the drain\<close>

text \<open>One round of the drain in which a connection is accepted and another one ends.\<close>

definition busy_round :: "server_event list" where
  "busy_round = [ReadCounter, Accepted, Finished, Tick drain_interval, Woke]"

lemma busy_round_run:
  assumes "sv_drain s = Reading start" "sv_active s > 0" "sv_now s - start \<le> drain_timeout" "sv_result s = None"
  shows "server_run s busy_round (s\<lparr>sv_now := sv_now s + drain_interval\<rparr>)"
proof -
  let ?s1 = "s\<lparr>sv_drain := Sleeping start (sv_now s + drain_interval)\<rparr>"
  let ?s2 = "?s1\<lparr>sv_active := sv_active ?s1 + 1, sv_live := sv_live ?s1 + 1\<rparr>"
  let ?s3 = "?s2\<lparr>sv_active := sv_active ?s2 - 1, sv_live := sv_live ?s2 - 1\<rparr>"
  let ?s4 = "?s3\<lparr>sv_now := sv_now ?s3 + drain_interval\<rparr>"
  let ?s5 = "?s4\<lparr>sv_drain := Reading start\<rparr>"
  have "server_step s ReadCounter ?s1" using assms by (intro read_waiting)
  moreover have "server_step ?s1 Accepted ?s2" using assms by (intro accepted) simp
  moreover have "server_step ?s2 Finished ?s3" by (intro finished) simp
  moreover have "server_step ?s3 (Tick drain_interval) ?s4" by (intro tick)
  moreover have "server_step ?s4 Woke ?s5" by (intro woke [of _ start "sv_now s + drain_interval"]) simp_all
  ultimately have "server_run s busy_round ?s5"
    unfolding busy_round_def by - ((rule server_run_Cons, assumption)+, rule run_start)
  moreover have "?s5 = s\<lparr>sv_now := sv_now s + drain_interval\<rparr>" using assms(1) by (cases s) simp
  ultimately show ?thesis by simp
qed

lemma busy_rounds_run:
  assumes "sv_drain s = Reading start" "sv_active s > 0" "sv_result s = None" "start \<le> sv_now s"
    and "sv_now s + n * drain_interval \<le> start + drain_timeout + drain_interval"
  shows "server_run s (concat (replicate n busy_round)) (s\<lparr>sv_now := sv_now s + n * drain_interval\<rparr>)"
  using assms
proof (induction n)
  case (Suc n)
  then have run: "server_run s (concat (replicate n busy_round)) (s\<lparr>sv_now := sv_now s + n * drain_interval\<rparr>)"
    (is "server_run s _ ?t") by simp
  have "server_run ?t busy_round (?t\<lparr>sv_now := sv_now ?t + drain_interval\<rparr>)"
    using Suc.prems by (intro busy_round_run [of _ start]) (simp_all add: drain_interval_def)
  moreover have "concat (replicate (Suc n) busy_round) = concat (replicate n busy_round) @ busy_round"
    by (induction n) simp_all
  ultimately show ?case using server_run_trans [OF _ run, of busy_round] by (simp add: algebra_simps)
qed (simp add: run_start)

lemma accept_until_error_eq:
  "accept_until_error p answers =
     (case dropWhile (\<lambda>a. \<not> isl a) answers of [] \<Rightarrow> None | a # _ \<Rightarrow> Some (Inl (accept_error (projl a))),
      replicate (length (takeWhile (\<lambda>a. \<not> isl a) answers)) p)"
  by (induction p answers rule: accept_until_error.induct) auto

lemma accept_https_eq:
  "accept_https version answers = map (version \<circ> projr \<circ> projr) (filter (\<lambda>a. \<not> isl a \<and> \<not> isl (projr a)) answers)"
  by (induction version answers rule: accept_https.induct) auto

section \<open>Properties\<close>

text \<open>
  C36: A reading of the counter ends the drain exactly when no connection is served and no task of a
  connection has panicked since the start, or when the drain has lasted longer than its limit: the
  counter of the connections is exact up to the panics, whose connections it counts for ever.
\<close>

theorem drain_waits_for_connections:
  assumes "server_run (server_started t) es s"
    and "sv_drain s = Reading start"
    and "sv_live s + count_list es TaskPanicked < 2 ^ 64"
    and "server_step s ReadCounter s'"
  shows "sv_drain s' = NotifySent \<longleftrightarrow>
    (sv_live s = 0 \<and> TaskPanicked \<notin> set es) \<or> sv_now s - start > drain_timeout"
proof -
  have "sv_active s = of_nat (sv_live s + count_list es TaskPanicked)" using counter_run [OF assms(1)] by simp
  then have "unat (sv_active s) = sv_live s + count_list es TaskPanicked"
    using assms(3) by (simp add: unat_of_nat take_bit_nat_eq_self del: of_nat_add)
  then have "sv_active s = 0 \<longleftrightarrow> sv_live s = 0 \<and> TaskPanicked \<notin> set es"
    by (auto simp: unat_eq_0 [symmetric] count_list_0_iff simp del: unat_eq_0)
  moreover have "sv_drain s' = NotifySent \<longleftrightarrow> sv_active s = 0 \<or> sv_now s - start > drain_timeout"
    using assms(2, 4) by (auto simp: read_step word_gt_0)
  ultimately show ?thesis by simp
qed

definition demo_drained :: server_state where
  "demo_drained = \<lparr>sv_now = 0, sv_active = 0, sv_live = 0, sv_drain = Reading 0, sv_result = None\<rparr>"

lemma demo_run: "server_run (server_started 0) [Accepted, Signal, Finished] demo_drained"
proof -
  let ?s0 = "server_started 0"
  let ?s1 = "?s0\<lparr>sv_active := sv_active ?s0 + 1, sv_live := sv_live ?s0 + 1\<rparr>"
  let ?s2 = "?s1\<lparr>sv_drain := Reading (sv_now ?s1)\<rparr>"
  let ?s3 = "?s2\<lparr>sv_active := sv_active ?s2 - 1, sv_live := sv_live ?s2 - 1\<rparr>"
  have "server_step ?s0 Accepted ?s1" by (intro accepted) (simp add: server_started_def)
  moreover have "server_step ?s1 Signal ?s2" by (intro signal) (simp add: server_started_def)
  moreover have "server_step ?s2 Finished ?s3" by (intro finished) simp
  ultimately have "server_run ?s0 [Accepted, Signal, Finished] ?s3"
    by - ((rule server_run_Cons, assumption)+, rule run_start)
  then show ?thesis by (simp add: server_started_def demo_drained_def)
qed

lemma demo_read: "server_step demo_drained ReadCounter (demo_drained\<lparr>sv_drain := NotifySent\<rparr>)"
  by (simp add: read_step demo_drained_def)

theorem drain_waits_for_connections_witness:
  "sv_drain (demo_drained\<lparr>sv_drain := NotifySent\<rparr>) = NotifySent \<and>
    (sv_live demo_drained = 0 \<or> sv_now demo_drained - 0 > drain_timeout)"
  using drain_waits_for_connections [OF demo_run _ _ demo_read, of 0] by (simp add: demo_drained_def)

text \<open>
  C37: In every interleaving of accepted connections, ended and panicked tasks and the clock, the
  drain reads the counter at most 302 times, has notified the accept loop after the last of them, and
  the server returns without an error only after the signal and such a notification.
\<close>

theorem drain_ends:
  assumes "server_run (server_started t) es s"
  shows "count_list es ReadCounter \<le> 302 \<and> (count_list es ReadCounter = 302 \<longrightarrow> sv_drain s = NotifySent) \<and>
    (sv_result s = Some (Inr ()) \<longrightarrow> Signal \<in> set es \<and> ReadCounter \<in> set es \<and> sv_drain s = NotifySent)"
proof -
  have "drain_clock s (count_list es ReadCounter)" using drain_clock_run [OF assms] by simp
  moreover have "drain_history es s" using drain_history_run [OF assms] by simp
  moreover have "count_list es ReadCounter = 0" if "sv_drain s = AwaitSignal"
    using that calculation(1) by (simp add: drain_clock_def)
  ultimately show ?thesis
    by (cases "sv_drain s") (auto simp: drain_clock_def drain_history_def)
qed

theorem drain_ends_witness:
  "server_run (server_started 0) ([Accepted, Signal, Finished] @ [ReadCounter]) (demo_drained\<lparr>sv_drain := NotifySent\<rparr>) \<and>
   count_list ([Accepted, Signal, Finished] @ [ReadCounter]) ReadCounter \<le> 302"
  using drain_ends [OF run_step [OF demo_run demo_read]] run_step [OF demo_run demo_read] by blast

text \<open>
  The server goes on to accept during the drain: with one connection accepted and one ended in
  every round, each of the 301 readings within the limit finds a connection.
\<close>

theorem new_connections_prolong_drain:
  assumes "sv_drain s = Reading (sv_now s)" "sv_active s > 0" "sv_result s = None"
  shows "server_run s (concat (replicate 301 busy_round)) (s\<lparr>sv_now := sv_now s + 30100000000\<rparr>)"
  using busy_rounds_run [OF assms(1-3), of 301] by (simp add: drain_interval_def drain_timeout_def)

text \<open>
  An error of \<open>accept\<close> ends the servers without TLS, with the connections accepted before it, and is
  skipped by the servers with TLS, which serve every connection whose handshake succeeds.
\<close>

theorem accept_errors_end_plain_servers:
  "ps_serve None (map (\<lambda>_. Inr ()) ok @ Inl e # answers) s = (Some (Inl (accept_error e)), replicate (length ok) Http1)"
  "serve_https R None tls_answers sni s =
     (None, replicate (length (filter (\<lambda>a. \<not> isl a \<and> \<not> isl (projr a)) tls_answers)) Http1)"
proof -
  have "takeWhile (\<lambda>a. \<not> isl a) (map (\<lambda>_. Inr ()) ok @ Inl e # answers) = map (\<lambda>_. Inr ()) ok"
    "dropWhile (\<lambda>a. \<not> isl a) (map (\<lambda>_. Inr ()) ok @ Inl e # answers) = Inl e # answers"
    by (induction ok) simp_all
  then show "ps_serve None (map (\<lambda>_. Inr ()) ok @ Inl e # answers) s =
      (Some (Inl (accept_error e)), replicate (length ok) Http1)"
    by (simp add: ps_serve_def accept_until_error_eq)
  show "serve_https R None tls_answers sni s =
     (None, replicate (length (filter (\<lambda>a. \<not> isl a \<and> \<not> isl (projr a)) tls_answers)) Http1)"
    by (simp add: serve_https_def sni_to_server_config_def accept_https_eq map_replicate_const comp_def)
qed

lemma workers_of_new: "0 < n \<Longrightarrow> new_with_workers addr r n = Inr s \<Longrightarrow> workers_ok (ps_gateway s)"
  by (auto simp: new_with_workers_def workers_ok_def selector_new_def)

lemma proxyserver_new_workers: "proxyserver_new addr r = Inr s \<Longrightarrow> workers_ok (ps_gateway s)"
  by (auto simp: proxyserver_new_def workers_ok_def)

end
