(* ===== verification/Startup.thy ===== *)
theory Startup
  imports Server Std_Parse
begin

text \<open>
  The start of the program (\<open>control/src/main.rs\<close>) and its configuration (\<open>control/src/config.rs\<close>): the mode
  is taken from the environment variables, the example route is added in the standalone mode, the
  server is built with or without TLS, and the program waits for a signal. The environment
  variables, the files, the number of cores and the outcome of the connection to the cluster are
  given by the environment of the process.
\<close>

section \<open>Texts of the environment\<close>

definition rsplit_once :: "char \<Rightarrow> string \<Rightarrow> (string \<times> string) option" where
  "rsplit_once c s =
     (if c \<notin> set s then None
      else Some (rev (tl (dropWhile (\<lambda>x. x \<noteq> c) (rev s))), rev (takeWhile (\<lambda>x. x \<noteq> c) (rev s))))"

definition parse_bool :: "string \<Rightarrow> bool option" where
  "parse_bool s = (if s = ''true'' then Some True else if s = ''false'' then Some False else None)"

fun read_u16 :: "nat \<Rightarrow> string \<Rightarrow> string + u16" where
  "read_u16 acc [] = Inr (of_nat acc)"
| "read_u16 acc (c # s) =
     (case to_digit 10 c of
        None \<Rightarrow> Inl ''invalid digit found in string''
      | Some d \<Rightarrow>
          (if 2 ^ 16 \<le> acc * 10 + d then Inl ''number too large to fit in target type'' else read_u16 (acc * 10 + d) s))"

definition parse_u16 :: "string \<Rightarrow> string + u16" where
  "parse_u16 s =
     (case s of
        [] \<Rightarrow> Inl ''cannot parse integer from empty string''
      | c # r \<Rightarrow>
          (if c = CHR ''+'' then (if r = [] then Inl ''invalid digit found in string'' else read_u16 0 r)
           else read_u16 0 s))"

definition parse_ipaddr :: "string \<Rightarrow> string + ipaddr" where
  "parse_ipaddr s =
     (case read_ipv4_addr s of
        Some (a, rest) \<Rightarrow> if rest = [] then Inr (V4 a) else Inl ''invalid IP address syntax''
      | None \<Rightarrow> (case parse_ipv6 s of Some a \<Rightarrow> Inr (V6 a) | None \<Rightarrow> Inl ''invalid IP address syntax''))"

section \<open>Configuration\<close>

record TimeoutConfig =
  connect_timeout_secs :: u64
  request_timeout_secs :: u64
  idle_timeout_secs :: u64

record HealthCheckSettings =
  hs_enabled :: bool
  hs_interval_secs :: u64
  hs_timeout_secs :: u64
  hs_unhealthy_threshold :: u32
  hs_healthy_threshold :: u32

record ControllerConfig =
  controller_name :: string
  cc_gateway_class_name :: "string option"
  cc_timeouts :: TimeoutConfig
  cc_health_check :: HealthCheckSettings

definition timeoutconfig_default :: TimeoutConfig where
  "timeoutconfig_default = \<lparr>connect_timeout_secs = 5, request_timeout_secs = 30, idle_timeout_secs = 90\<rparr>"

definition healthcheck_default :: HealthCheckSettings where
  "healthcheck_default =
     \<lparr>hs_enabled = False, hs_interval_secs = 5, hs_timeout_secs = 2, hs_unhealthy_threshold = 3, hs_healthy_threshold = 2\<rparr>"

definition controllerconfig_default :: ControllerConfig where
  "controllerconfig_default =
     \<lparr>controller_name = ''rauta.io/gateway-controller'', cc_gateway_class_name = Some ''rauta'',
      cc_timeouts = timeoutconfig_default, cc_health_check = healthcheck_default\<rparr>"

definition from_env :: "(string \<Rightarrow> string option) \<Rightarrow> string + ControllerConfig" where
  "from_env var =
     (let config = controllerconfig_default;
          config = (case var ''RAUTA_CONTROLLER_NAME'' of Some val \<Rightarrow> config\<lparr>controller_name := val\<rparr> | None \<Rightarrow> config);
          config = (case var ''RAUTA_GATEWAY_CLASS'' of Some val \<Rightarrow> config\<lparr>cc_gateway_class_name := Some val\<rparr> | None \<Rightarrow> config)
      in Inr config)"

section \<open>The example route\<close>

definition example_backend :: "(string \<Rightarrow> string option) \<Rightarrow> string + backend" where
  "example_backend var =
     (let backend_addr = (case var ''RAUTA_BACKEND_ADDR'' of Some a \<Rightarrow> a | None \<Rightarrow> ''127.0.0.1:9090'') in
      case rsplit_once (CHR '':'') backend_addr of
        None \<Rightarrow> Inl (''Invalid RAUTA_BACKEND_ADDR format. Expected IP:PORT, got: '' @ backend_addr)
      | Some (ip_str, port_str) \<Rightarrow>
          (case parse_u16 port_str of
             Inl e \<Rightarrow> Inl (''Invalid backend port '' @ port_str @ '': '' @ e)
           | Inr p \<Rightarrow>
               let ip_str = trim_end_matches '']'' (trim_start_matches ''['' ip_str) in
               case parse_ipaddr ip_str of
                 Inl e \<Rightarrow> Inl (''Invalid backend IP '' @ ip_str @ '': '' @ e)
               | Inr (V4 ipv4) \<Rightarrow> Inr (from_ipv4 ipv4 p 100)
               | Inr (V6 ipv6) \<Rightarrow> Inr (from_ipv6 ipv6 p 100)))"

definition add_example_routes :: "'r matchit \<Rightarrow> (string \<Rightarrow> string option) \<Rightarrow> 'r Router \<Rightarrow>
    ((string + unit) \<times> 'r Router) outcome" where
  "add_example_routes M var r =
     (case example_backend var of
        Inl e \<Rightarrow> Done (Inl e, r)
      | Inr b \<Rightarrow>
          map_outcome (\<lambda>(res, r). (case res of Inl e \<Rightarrow> Inl (''Failed to add route: '' @ e) | Inr _ \<Rightarrow> Inr (), r))
            (add_route M True GET ''/'' [b] r))"

section \<open>The start\<close>

record process_env =
  pe_var :: "string \<Rightarrow> string option"
  pe_kube_client :: "string option"
  pe_read :: "string \<Rightarrow> string + string"
  pe_num_cpus :: nat

definition k8s_mode :: "(string \<Rightarrow> string option) \<Rightarrow> bool" where
  "k8s_mode var =
     (case parse_bool (case var ''RAUTA_K8S_MODE'' of Some v \<Rightarrow> v | None \<Rightarrow> ''false'') of Some b \<Rightarrow> b | None \<Rightarrow> False)"

definition admin_port :: "(string \<Rightarrow> string option) \<Rightarrow> u16" where
  "admin_port var =
     (case parse_u16 (case var ''RAUTA_ADMIN_PORT'' of Some v \<Rightarrow> v | None \<Rightarrow> ''9091'') of Inr p \<Rightarrow> p | Inl _ \<Rightarrow> 9091)"

text \<open>
  What the program runs after its start: the controllers, for the class of their gateways, if the
  connection to the cluster succeeded; or a server.
\<close>

datatype ('r, 's, 'i) running =
  Controllers "string option" | HttpsServer "('r, 's) ProxyServer" "'i SniResolver" | HttpServer "('r, 's) ProxyServer"

definition start_controllers :: "'r matchit \<Rightarrow> process_env \<Rightarrow> 'r Router \<Rightarrow> ((string + string option) \<times> 'r Router) outcome" where
  "start_controllers M pe r =
     (case pe_kube_client pe of
        None \<Rightarrow>
          Done (Inr (Some (case pe_var pe ''RAUTA_GATEWAY_CLASS'' of Some c \<Rightarrow> c | None \<Rightarrow> ''rauta'')), r)
      | Some e \<Rightarrow>
          map_outcome (\<lambda>(res, r). (case res of Inl e \<Rightarrow> Inl e | Inr _ \<Rightarrow> Inr None, r))
            (add_example_routes M (pe_var pe) r))"

definition start_server :: "('c, 'k, 'i) rustls \<Rightarrow> process_env \<Rightarrow> 'r Router \<Rightarrow> string + ('r, 's, 'i) running" where
  "start_server R pe r =
     (let bind_addr = (case pe_var pe ''RAUTA_BIND_ADDR'' of Some a \<Rightarrow> a | None \<Rightarrow> ''127.0.0.1:8080'') in
      case new_with_workers bind_addr r (pe_num_cpus pe) of
        Inl e \<Rightarrow> Inl (''Failed to create server: '' @ e)
      | Inr server \<Rightarrow>
          (let tls_hostname = (case pe_var pe ''RAUTA_TLS_HOSTNAME'' of Some h \<Rightarrow> h | None \<Rightarrow> ''localhost'') in
           case (pe_var pe ''RAUTA_TLS_CERT'', pe_var pe ''RAUTA_TLS_KEY'') of
             (Some cert_path, Some key_path) \<Rightarrow>
               (case pe_read pe cert_path of
                  Inl e \<Rightarrow> Inl (''Failed to read TLS cert '' @ cert_path @ '': '' @ e)
                | Inr cert_pem \<Rightarrow>
                    (case pe_read pe key_path of
                       Inl e \<Rightarrow> Inl (''Failed to read TLS key '' @ key_path @ '': '' @ e)
                     | Inr key_pem \<Rightarrow>
                         (case from_pem R cert_pem key_pem of
                            Inl (_, e) \<Rightarrow> Inl (''Failed to parse TLS certificate: '' @ e)
                          | Inr tls_cert \<Rightarrow>
                              (case add_cert R tls_hostname tls_cert (sni_new R) of
                                 (Inl (_, e), _) \<Rightarrow> Inl (''Failed to add TLS certificate: '' @ e)
                               | (Inr _, sni_resolver) \<Rightarrow> Inr (HttpsServer server sni_resolver)))))
           | _ \<Rightarrow> Inr (HttpServer server)))"

definition main_start :: "'r matchit \<Rightarrow> ('c, 'k, 'i) rustls \<Rightarrow> process_env \<Rightarrow>
    ((string + ('r, 's, 'i) running) \<times> 'r Router) outcome" where
  "main_start M R pe =
     (let router = router_new M in
      if k8s_mode (pe_var pe) then
        map_outcome (\<lambda>(res, r). (case res of Inl e \<Rightarrow> Inl e | Inr class \<Rightarrow> Inr (Controllers class), r))
          (start_controllers M pe router)
      else
        map_outcome (\<lambda>(res, r). (case res of Inl e \<Rightarrow> Inl e | Inr _ \<Rightarrow> start_server R pe r, r))
          (add_example_routes M (pe_var pe) router))"

section \<open>Signals\<close>

text \<open>
  The time when a signal handler delivers its signal, none if never; or the error of its
  installation. The shutdown signal is the first of both; a failed \<open>Ctrl-C\<close> handler is over at once,
  a failed handler of \<open>SIGTERM\<close> never is.
\<close>

definition first_of :: "instant option \<Rightarrow> instant option \<Rightarrow> instant option" where
  "first_of a b = (case (a, b) of (Some s, Some t) \<Rightarrow> Some (min s t) | (Some s, None) \<Rightarrow> Some s | (None, t) \<Rightarrow> t)"

definition shutdown_signal :: "instant \<Rightarrow> string + instant option \<Rightarrow> string + instant option \<Rightarrow> instant option" where
  "shutdown_signal now ctrl_c terminate =
     first_of (case ctrl_c of Inr t \<Rightarrow> t | Inl e \<Rightarrow> Some now) (case terminate of Inr t \<Rightarrow> t | Inl e \<Rightarrow> None)"

text \<open>
  The controllers are waited for after the signal, one after the other; a task is given by the time
  when it ends, none if it runs for ever. The value is the time when the program returns.
\<close>

fun await_all :: "instant \<Rightarrow> instant option list \<Rightarrow> instant option" where
  "await_all now [] = Some now"
| "await_all now (None # handles) = None"
| "await_all now (Some t # handles) = await_all (max now t) handles"

definition run_controllers_only :: "instant \<Rightarrow> string + instant option \<Rightarrow> string + instant option \<Rightarrow>
    instant option list \<Rightarrow> instant option" where
  "run_controllers_only now ctrl_c terminate controller_handles =
     (case shutdown_signal now ctrl_c terminate of
        None \<Rightarrow> None
      | Some t \<Rightarrow> await_all t controller_handles)"

text \<open>The server is left when its shutdown is complete or \<open>accept\<close> fails; its error is only logged.\<close>

definition run_with_signal_handling :: "server_state \<Rightarrow> 't list \<Rightarrow> ((string + unit) \<times> 't list) option" where
  "run_with_signal_handling s controller_handles =
     (case sv_result s of None \<Rightarrow> None | Some _ \<Rightarrow> Some (Inr (), controller_handles))"

section \<open>Reading a printed backend\<close>

lemma rsplit_once_last: "c \<notin> set t \<Longrightarrow> rsplit_once c (s @ c # t) = Some (s, t)"
proof -
  assume "c \<notin> set t"
  then have "takeWhile (\<lambda>x. x \<noteq> c) (rev t @ c # rev s) = rev t" "dropWhile (\<lambda>x. x \<noteq> c) (rev t @ c # rev s) = c # rev s"
    by (subst takeWhile_append2 dropWhile_append2; auto)+
  then show ?thesis by (simp add: rsplit_once_def)
qed

lemma read_u16_digits:
  "\<lbrakk>\<forall>c \<in> set s. is_digit 10 c; foldl (\<lambda>acc c. acc * 10 + the (to_digit 10 c)) acc s < 2 ^ 16\<rbrakk> \<Longrightarrow>
     read_u16 acc s = Inr (of_nat (foldl (\<lambda>acc c. acc * 10 + the (to_digit 10 c)) acc s))"
proof (induction s arbitrary: acc)
  case (Cons c s)
  have grow: "a \<le> foldl (\<lambda>acc c. acc * 10 + the (to_digit 10 c)) a s" for a :: nat
  proof (induction s arbitrary: a)
    case (Cons c s)
    have "a \<le> a * 10 + the (to_digit 10 c)" by simp
    with Cons [of "a * 10 + the (to_digit 10 c)"] show ?case by simp
  qed simp
  obtain d where d: "to_digit 10 c = Some d" using Cons.prems(1) by auto
  have "acc * 10 + d < 2 ^ 16" using grow [of "acc * 10 + d"] Cons.prems(2) by (simp add: d)
  with Cons d show ?case by simp
qed simp

lemma parse_show_u16: "parse_u16 (show_u16 p) = Inr p"
proof -
  have ds: "\<forall>c \<in> set (show_u16 p). is_digit 10 c" using is_digit_show [of _ 10] by (auto simp: show_u16_def)
  have v: "foldl (\<lambda>acc c. acc * 10 + the (to_digit 10 c)) 0 (show_u16 p) = unat p"
    using digits_value_show [of 10 "unat p"] by (simp add: show_u16_def digits_value_def)
  have "unat p < 2 ^ 16" using unsigned_less [of p] by simp
  then have "read_u16 0 (show_u16 p) = Inr p" using read_u16_digits [OF ds, of 0] v by simp
  moreover have "show_u16 p \<noteq> []" by (simp add: show_u16_def)
  moreover have "CHR ''+'' \<notin> set (show_u16 p)" using ds by (auto simp: to_digit_def)
  ultimately show ?thesis by (cases "show_u16 p") (auto simp: parse_u16_def)
qed

lemma set_fmt_subslice: "c \<in> set (fmt_subslice gs) \<Longrightarrow> c = CHR '':'' \<or> is_digit 16 c"
proof (induction gs rule: fmt_subslice.induct)
  case (2 s) then show ?case using is_digit_show [of c 16 s] by simp
next
  case (3 s t ss) then show ?case using is_digit_show [of c 16 s] by auto
qed simp

lemma set_show_ipv4: "c \<in> set (show_ipv4 a) \<Longrightarrow> c = CHR ''.'' \<or> is_digit 10 c"
  using is_digit_show [of c 10] by (cases a) (auto simp: show_u8_def)

lemma set_show_ipv6: "c \<in> set (show_ipv6 a) \<Longrightarrow> c \<in> {CHR '':'', CHR ''.''} \<or> is_digit 16 c \<or> is_digit 10 c"
proof (cases a)
  case (Ipv6Addr bs)
  assume c: "c \<in> set (show_ipv6 a)"
  obtain st n where sp: "longest_zero_span 0 (0, 0) (0, 0) (segments bs) = (st, n)" by fastforce
  have "is_digit 16 (CHR ''f'')" by (simp add: to_digit_def)
  then show ?thesis
    using c sp set_show_ipv4 [of c] set_fmt_subslice [of c]
    by (auto simp: Ipv6Addr Let_def simp del: show_ipv4.simps split: if_splits)
qed

lemma no_brackets:
  "CHR ''['' \<notin> set (show_ipv6 a)" "CHR '']'' \<notin> set (show_ipv6 a)" "CHR ''['' \<notin> set (show_ipv4 b)" "CHR '']'' \<notin> set (show_ipv4 b)"
proof -
  have "\<not> is_digit n (CHR ''['')" "\<not> is_digit n (CHR '']'')" for n by (simp_all add: to_digit_def)
  then show "CHR ''['' \<notin> set (show_ipv6 a)" "CHR '']'' \<notin> set (show_ipv6 a)" "CHR ''['' \<notin> set (show_ipv4 b)"
    "CHR '']'' \<notin> set (show_ipv4 b)"
    using set_show_ipv6 [of "CHR ''[''" a] set_show_ipv6 [of "CHR '']''" a] set_show_ipv4 [of "CHR ''[''" b]
      set_show_ipv4 [of "CHR '']''" b] by auto
qed

lemma drop_prefixes_none: "c \<notin> set s \<Longrightarrow> drop_prefixes [[c]] s = s"
  by (cases s) (auto simp: starts_with_def)

lemma trim_brackets:
  assumes "CHR ''['' \<notin> set s" "CHR '']'' \<notin> set s"
  shows "trim_end_matches '']'' (trim_start_matches ''['' (CHR ''['' # s @ '']'')) = s"
    "trim_end_matches '']'' (trim_start_matches ''['' s) = s"
  using assms drop_prefixes_none [of "CHR ''[''" s] drop_prefixes_none [of "CHR ''[''" "s @ '']''"]
    drop_prefixes_none [of "CHR '']''" "rev s"]
  by (simp_all add: trim_end_matches_def trim_start_matches_def starts_with_def)

lemma read_ipv4_show_ipv6: "read_ipv4_addr (show_ipv6 a) = None"
proof (cases a)
  case (Ipv6Addr bs)
  obtain st n where sp: "longest_zero_span 0 (0, 0) (0, 0) (segments bs) = (st, n)" by fastforce
  have dot: "CHR ''.'' \<notin> set (fmt_subslice gs)" for gs
    using set_fmt_subslice [of "CHR ''.''" gs] to_digit_punctuation [of 16] by auto
  have "CHR ''.'' \<notin> set (takeWhile (\<lambda>c. c \<noteq> CHR '':'') (show_ipv6 a))"
  proof (cases "take 12 bs = replicate 10 0 @ [255, 255]")
    case False
    then have "CHR ''.'' \<notin> set (show_ipv6 a)" using sp dot by (simp add: Ipv6Addr Let_def)
    then show ?thesis by (auto dest: set_takeWhileD)
  qed (simp add: Ipv6Addr)
  then show ?thesis by (rule read_ipv4_needs_dot)
qed

lemma parse_show_ipaddr:
  "parse_ipaddr (show_ipv4 a) = Inr (V4 a)"
  "length bs = 16 \<Longrightarrow> parse_ipaddr (show_ipv6 (Ipv6Addr bs)) = Inr (V6 (Ipv6Addr bs))"
proof -
  have "read_ipv4_addr (show_ipv4 a) = Some (a, [])"
    using parse_show_ipv4 [of a] by (auto simp: parse_ipv4_def split: option.splits if_splits list.splits)
  then show "parse_ipaddr (show_ipv4 a) = Inr (V4 a)" by (simp add: parse_ipaddr_def)
  show "parse_ipaddr (show_ipv6 (Ipv6Addr bs)) = Inr (V6 (Ipv6Addr bs))" if "length bs = 16"
    using parse_show_ipv6 [OF that] read_ipv4_show_ipv6 [of "Ipv6Addr bs"]
    by (simp add: parse_ipaddr_def del: show_ipv6.simps)
qed

lemma example_backend_shown:
  assumes "backend_wf b" "var ''RAUTA_BACKEND_ADDR'' = Some (show_backend b)"
  shows "example_backend var = Inr (b\<lparr>weight := 100\<rparr>)"
proof (cases "is_ipv6 b")
  case True
  have "CHR '':'' \<notin> set (show_u16 (port b))" by (simp add: show_u16_def)
  from rsplit_once_last [OF this, of "CHR ''['' # show_ipv6 (Ipv6Addr (ip b)) @ '']''"]
  have "rsplit_once (CHR '':'') (show_backend b) = Some (CHR ''['' # show_ipv6 (Ipv6Addr (ip b)) @ '']'', show_u16 (port b))"
    by (simp add: show_backend_def True del: show_ipv6.simps)
  moreover have "from_ipv6 (Ipv6Addr (ip b)) (port b) 100 = b\<lparr>weight := 100\<rparr>" using True by (simp add: from_ipv6_def)
  moreover have "length (ip b) = 16" using assms(1) by (simp add: backend_wf_def)
  ultimately show ?thesis
    using assms(2) by (simp add: example_backend_def parse_show_u16 trim_brackets no_brackets parse_show_ipaddr
        del: show_ipv6.simps)
next
  case False
  have "CHR '':'' \<notin> set (show_u16 (port b))" by (simp add: show_u16_def)
  from rsplit_once_last [OF this, of "show_ipv4 (ipv4_of_octets (ip b))"]
  have "rsplit_once (CHR '':'') (show_backend b) = Some (show_ipv4 (ipv4_of_octets (ip b)), show_u16 (port b))"
    by (simp add: show_backend_def False del: show_ipv4.simps)
  moreover have "from_ipv4 (ipv4_of_octets (ip b)) (port b) 100 = b\<lparr>weight := 100\<rparr>"
    using False wf_ipv4_octets [OF assms(1) False, symmetric] by (simp add: from_ipv4_def)
  ultimately show ?thesis
    using assms(2) by (simp add: example_backend_def parse_show_u16 trim_brackets no_brackets parse_show_ipaddr
        del: show_ipv4.simps)
qed

section \<open>Routing by the example route\<close>

lemma get_patterns:
  "list_all (\<lambda>(pat, _). plain_pattern pat) [(''GET:/'', k), (''GET:{*rest}'', k)]"
  "best_match [(''GET:/'', k), (''GET:{*rest}'', k)] s = (if take 4 s = ''GET:'' \<and> 4 < length s then Some k else None)"
proof -
  have "wildcard_part ''GET:/'' = None" "wildcard_part ''GET:{*rest}'' = Some ''GET:''" by (simp_all add: wildcard_part_def)
  then show "list_all (\<lambda>(pat, _). plain_pattern pat) [(''GET:/'', k), (''GET:{*rest}'', k)]"
    "best_match [(''GET:/'', k), (''GET:{*rest}'', k)] s = (if take 4 s = ''GET:'' \<and> 4 < length s then Some k else None)"
    by (simp_all add: plain_pattern_def best_match_def covering_def List.map_filter_def) (auto simp: numeral_eq_Suc)
qed

lemma method_prefix_get: "m \<noteq> GET \<Longrightarrow> take 4 (get_method_prefix m @ CHR ''/'' # q) \<noteq> ''GET:''"
  by (cases m) simp_all

lemma get_root_resolves:
  assumes "matchit_documented M"
    and "add_route M rt GET ''/'' bs (router_new M) = Done (Inr (), r)"
  shows "resolve M m (CHR ''/'' # q) r = (if m = GET then Some (key_of GET ''/'') else None)"
proof -
  let ?k = "key_of GET ''/''"
  have new: "map_of (routes (router_new M)) ?k = None" "routes (router_new M) = []"
    by (simp_all add: router_new_def with_health_config_def)
  obtain t where r: "routes r = [(?k, plain_route ''/'' bs t)]"
    and tree: "insert_all M (patterns_of method_patterns (routes r)) (mi_new M) = Inr (prefix_router r)"
    using add_route_fresh [OF assms(2) new(1)] new(2) by auto
  have ps: "patterns_of method_patterns (routes r) = [(''GET:/'', ?k), (''GET:{*rest}'', ?k)]"
    by (simp add: r patterns_of_def method_patterns_def plain_route_def key_of_def)
  have at: "mi_at M s (prefix_router r) = (if take 4 s = ''GET:'' \<and> 4 < length s then Some ?k else None)" for s
    using matchit_documentedD [OF assms(1) tree [unfolded ps] get_patterns(1)] get_patterns(2) by metis
  show ?thesis
  proof (cases "m = GET")
    case True
    have "mi_at M (''GET:'' @ CHR ''/'' # q) (prefix_router r) = Some ?k" by (simp add: at)
    then show ?thesis using True by (auto simp: resolve_def prefix_lookup_def r key_of_def)
  next
    case False
    have "key_of m (CHR ''/'' # q) \<noteq> ?k" "key_of ALL_m (CHR ''/'' # q) \<noteq> ?k" using False by (simp_all add: key_of_def)
    moreover have "mi_at M (get_method_prefix m @ CHR ''/'' # q) (prefix_router r) = None"
      using method_prefix_get [OF False, of q] unfolding at by simp
    moreover have "mi_at M (CHR ''/'' # q) (prefix_router r) = None" unfolding at by simp
    ultimately show ?thesis using False by (simp add: resolve_def prefix_lookup_def r Let_def)
  qed
qed

section \<open>Properties\<close>

text \<open>The request methods that the proxy knows, besides \<open>GET\<close>; it takes every other one for \<open>GET\<close>.\<close>

definition known_methods :: "string list" where
  "known_methods = [''POST'', ''PUT'', ''DELETE'', ''HEAD'', ''OPTIONS'', ''PATCH'']"

lemma method_of_GET: "method_of t = GET \<longleftrightarrow> t \<notin> set known_methods"
  by (auto simp: method_of_def known_methods_def)

text \<open>
  C38: In the standalone mode, every printed backend is read back from the environment variable, IPv4
  or IPv6, with weight 100. A request that reaches the router, with any path that starts with a slash,
  is resolved to the one route of the program, whose only backend this is, unless its method is
  \<open>POST\<close>, \<open>PUT\<close>, \<open>DELETE\<close>, \<open>HEAD\<close>, \<open>OPTIONS\<close> or \<open>PATCH\<close>, which have no route. So the methods with the
  route are \<open>GET\<close> and, because the proxy takes them for \<open>GET\<close>, all methods it does not know, such as
  \<open>TRACE\<close>. (The proxy answers \<open>GET\<close> requests for \<open>/metrics\<close>, \<open>/healthz\<close> and \<open>/status\<close> itself; they do not
  reach the router.)
\<close>

theorem example_route_by_method:
  assumes "matchit_documented M"
    and "backend_wf b" "var ''RAUTA_BACKEND_ADDR'' = Some (show_backend b)"
    and "add_example_routes M var (router_new M) = Done (Inr (), r)"
  shows "resolve M (method_of t) (CHR ''/'' # q) r =
      (if t \<in> set [''POST'', ''PUT'', ''DELETE'', ''HEAD'', ''OPTIONS'', ''PATCH''] then None else Some (key_of GET ''/'')) \<and>
    map_option rt_backends (map_of (routes r) (key_of GET ''/'')) = Some [b\<lparr>weight := 100\<rparr>]"
proof -
  have add: "add_route M True GET ''/'' [b\<lparr>weight := 100\<rparr>] (router_new M) = Done (Inr (), r)"
    using assms(4) example_backend_shown [of b var, OF assms(2,3)]
    by (cases "add_route M True GET ''/'' [b\<lparr>weight := 100\<rparr>] (router_new M)")
       (auto simp: add_example_routes_def split: sum.splits)
  have new: "map_of (routes (router_new M)) (key_of GET ''/'') = None" "routes (router_new M) = []"
    by (simp_all add: router_new_def with_health_config_def)
  obtain w where "routes r = [(key_of GET ''/'', plain_route ''/'' [b\<lparr>weight := 100\<rparr>] w)]"
    using add_route_fresh [OF add new(1)] new(2) by auto
  then show ?thesis
    using get_root_resolves [OF assms(1) add, of "method_of t" q] method_of_GET [of t]
    by (simp add: plain_route_def known_methods_def del: list.set)
qed

definition local_backend :: backend where
  "local_backend = from_ipv4 (Ipv4Addr 127 0 0 1) 9090 100"

lemma local_backend_wf: "backend_wf local_backend"
  by (simp add: local_backend_def inv_intros)

lemma example_routes_added:
  assumes "backend_wf b" "var ''RAUTA_BACKEND_ADDR'' = Some (show_backend b)"
  shows "\<exists>r. add_example_routes list_matchit var (router_new list_matchit) = Done (Inr (), r)"
proof -
  let ?b = "b\<lparr>weight := 100\<rparr>"
  obtain t where t: "maglev_build_compact_table [?b] = Done t"
    using compact_build [of "[?b]"] by (auto simp: MAX_BACKENDS_def)
  have "\<exists>r. add_route list_matchit True GET ''/'' [?b] (router_new list_matchit) = Done (Inr (), r)"
    by (simp add: add_route_def t router_new_def with_health_config_def Let_def route_eval)
  then show ?thesis using example_backend_shown [of b var, OF assms] by (auto simp: add_example_routes_def)
qed

theorem example_route_by_method_witness:
  "\<exists>r. add_example_routes list_matchit (\<lambda>_. Some (show_backend local_backend)) (router_new list_matchit) = Done (Inr (), r) \<and>
     resolve list_matchit (method_of ''TRACE'') ''/users'' r = Some (key_of GET ''/'') \<and>
     resolve list_matchit (method_of ''POST'') ''/users'' r = None"
proof -
  obtain r where r: "add_example_routes list_matchit (\<lambda>_. Some (show_backend local_backend)) (router_new list_matchit) = Done (Inr (), r)"
    using example_routes_added [OF local_backend_wf, of "\<lambda>_. Some (show_backend local_backend)"] by auto
  have "''TRACE'' \<notin> set [''POST'', ''PUT'', ''DELETE'', ''HEAD'', ''OPTIONS'', ''PATCH'']" by simp
  with r show ?thesis
    using example_route_by_method [where var = "\<lambda>_. Some (show_backend local_backend)",
        OF list_matchit_documented local_backend_wf refl r, where q = "''users''" and t = "''TRACE''"]
      example_route_by_method [where var = "\<lambda>_. Some (show_backend local_backend)",
        OF list_matchit_documented local_backend_wf refl r, where q = "''users''" and t = "''POST''"]
    by simp
qed

text \<open>
  With the variable for the cluster set but the cluster out of reach, the program adds the example
  route and then runs neither a controller nor a server: it waits for the shutdown signal.
\<close>

theorem unreachable_cluster_serves_nothing:
  assumes "k8s_mode (pe_var pe)" "pe_kube_client pe = Some e"
    and "add_example_routes M (pe_var pe) (router_new M) = Done (Inr (), r)"
  shows "main_start M R pe = Done (Inr (Controllers None), r)"
    and "run_controllers_only now ctrl_c terminate [] = shutdown_signal now ctrl_c terminate"
  using assms
  by (simp_all add: main_start_def start_controllers_def run_controllers_only_def split: option.split)

text \<open>
  The mode with the controllers returns after the signal only if all controllers have ended of their
  own accord; nothing stops them.
\<close>

lemma await_all_ends: "await_all now handles \<noteq> None \<longleftrightarrow> None \<notin> set handles"
  by (induction now handles rule: await_all.induct) auto

theorem running_controllers_block_shutdown:
  "run_controllers_only now ctrl_c terminate handles \<noteq> None \<longleftrightarrow>
     shutdown_signal now ctrl_c terminate \<noteq> None \<and> None \<notin> set handles"
  using await_all_ends by (simp add: run_controllers_only_def split: option.split)

text \<open>A handler of \<open>Ctrl-C\<close> that cannot be installed shuts the program down at once.\<close>

theorem failed_handler_shuts_down:
  "pred_option ((\<le>) now) t \<Longrightarrow> shutdown_signal now (Inl e) (Inr t) = Some now"
  "shutdown_signal now (Inr None) (Inl e) = None"
  by (cases t) (simp_all add: shutdown_signal_def first_of_def min_def)

text \<open>
  A start with TLS records the host name of the environment and serves it with the certificate of
  the files; every start of a server on at least one core has workers as the handler expects them.
\<close>

theorem https_start_serves_host:
  assumes "rustls_documented R" and "start_server R pe r = Inr (HttpsServer s sni)"
    and "hostname = (case pe_var pe ''RAUTA_TLS_HOSTNAME'' of Some h \<Rightarrow> h | None \<Rightarrow> ''localhost'')"
  shows "\<exists>config ck. has_cert hostname sni \<and> get_acceptor R hostname sni = Some config \<and> config (Some hostname) = Some ck"
proof -
  obtain cert where "add_cert R hostname cert (sni_new R) = (Inr (), sni)"
    using assms(2) unfolding start_server_def Let_def assms(3) [symmetric]
    by (auto split: option.splits sum.splits prod.splits)
  from added_is_served [OF assms(1) this] show ?thesis by blast
qed

lemma started_workers_ok:
  "\<lbrakk>start_server R pe r = Inr (HttpServer s); 0 < pe_num_cpus pe\<rbrakk> \<Longrightarrow> workers_ok (ps_gateway s) \<and> g_router (ps_gateway s) = r"
  by (auto simp: start_server_def Let_def new_with_workers_def workers_ok_def selector_new_def
      split: option.splits sum.splits prod.splits)

end
