(* ===== verification/Spec2Isabelle.thy ===== *)
theory Spec2Isabelle
  imports Common_Types Maglev Circuit_Breaker Breaker_Manager F64 Rate_Limiter Agent_Types Filters
    Route_Snapshot Health_Checker Route_Cache Route_Match Router Router_Select Router_Routing
    F64_Text Rust_Text Gateway_Index Diagnostics Local_Query Backend_Pool Http1_Pool Http_Types Forwarder
    Request_Handler Request_Paths Listener_Manager Listener_Requests
    Std_Parse Endpoint_Slices Weighted_Backends Weighted_Slots Http_Route Route_Reconcile Route_Validation
    Gateway_Controller Tls Server Startup
begin

text \<open>
  \<^bold>\<open>RAUTA: a Kubernetes gateway and its proxy.\<close>

  This theory collects a verification of the Rust sources under \<open>src/\<close>. The program has a control plane
  and a data plane in one process. The controllers (\<open>control/src/apis/gateway\<close>) read Gateway API
  resources and put routes into the router and listeners into the listener manager. The proxy
  (\<open>control/src/proxy\<close>) answers each request: it routes by method and path, picks a healthy backend by
  Maglev hashing (\<open>common/src/lib.rs\<close>), asks the rate limiter and the circuit breaker, forwards over
  pooled connections, and records the result. An admin interface (\<open>control/src/admin\<close>, \<open>agent-api/src\<close>)
  reports and diagnoses the live state.

  \<^bold>\<open>Conventions.\<close> A struct is a record, an enum a datatype, a machine integer a word of its width that
  wraps as in a release build. A function that may panic or run forever has a result of type
  \<open>outcome\<close> (\<open>Done\<close>, \<open>Panic\<close>, \<open>Diverges\<close>), a \<open>Result\<close> is a sum with the error on the left. Hash maps are
  association lists, strings lists of UTF-8 bytes, times natural numbers of nanoseconds. Doubles are exact
  rationals rounded to 53 bits after every operation (\<open>F64\<close>). Lock-free code is split into its atomic
  actions, which interleave. Crates outside the sources are records of functions given as arguments:
  the radix tree \<open>matchit\<close>, \<open>http\<close>, the regular expressions, \<open>rustls\<close>, the Kubernetes API, the network
  and the clock. The network may also stay silent for ever; a request that then waits without a timer
  has the result \<open>Diverges\<close>. What a theorem needs of them is a named predicate such as \<open>matchit_documented\<close> or
  \<open>rustls_documented\<close>, and an instance over lists shows that it can hold.

  \<^bold>\<open>Foundations.\<close>
  \<^item> \<open>Rauta_Prelude\<close>: word and outcome types, printing of numbers, shared lemmas and the collection
    \<open>inv_intros\<close> of preservation facts.
  \<^item> \<open>F64\<close>, \<open>F64_Text\<close>, \<open>Rust_Text\<close>, \<open>Std_Parse\<close>: doubles and their printing, string operations, the parsers
    of the standard library. Printed IPv4 and IPv6 addresses are read back.

  \<^bold>\<open>Common crate\<close> (\<open>common/src/lib.rs\<close>).
  \<^item> \<open>Common_Types\<close>: methods, backends, addresses, FNV-1a; printing separates different IPv4 backends.
  \<^item> \<open>Maglev\<close>: permutations, the claiming loop, both tables and lookups. The locale \<open>claim_table\<close> proves once
    that the loop ends and that a slot belongs to the first attempt at it; it is interpreted for the
    full and for the compact table. The loop has no bound in the code and none in the model; that it ends follows from
    the permutations being bijections of a prime number of slots.

  \<^bold>\<open>Routing\<close> (\<open>proxy/router.rs\<close>, \<open>route_snapshot.rs\<close>, \<open>health_checker.rs\<close>, \<open>filters.rs\<close>).
  \<^item> \<open>Filters\<close>, \<open>Route_Snapshot\<close>, \<open>Health_Checker\<close>: filters and retry delays, the response window and
    draining, the probe state machine, whose status is a function of the history of the probes.
  \<^item> \<open>Route_Cache\<close> (locale \<open>lookup_cache\<close>), \<open>Route_Match\<close>: the bounded cache, header and query conditions.
  \<^item> \<open>Router\<close>, \<open>Router_Select\<close> (locale \<open>backend_index\<close>), \<open>Router_Routing\<close>: route table, prefix tree, choice of a backend.
    Selection never panics, returns the first usable candidate of the flow, and the invariant of the
    router holds in every reachable state.

  \<^bold>\<open>Protection\<close> (\<open>proxy/circuit_breaker.rs\<close>, \<open>rate_limiter.rs\<close>).
  \<^item> \<open>Circuit_Breaker\<close>, \<open>Breaker_Manager\<close>: the packed breaker refines a three-state machine, one call at a
    time and under every interleaving of its atomic actions with spurious failures of the swap; at most
    three calls are admitted in a half-open period of any interleaving. A rejection is answered for the
    word that was loaded before, so the contract lets it happen in every state.
  \<^item> \<open>Rate_Limiter\<close>: the packed bucket refines a token bucket over unbounded numbers, and bounds the
    admitted requests in every window of a history of calls that do not overlap, for every finite rate up
    to 65,000,000 a second (above, the product of rate and time no longer fits 64 bits).

  \<^bold>\<open>Requests\<close> (\<open>proxy/request_handler.rs\<close>, \<open>forwarder.rs\<close>, \<open>backend_pool.rs\<close>, \<open>http1_pool.rs\<close>, \<open>worker.rs\<close>,
  \<open>error.rs\<close>).
  \<^item> \<open>Backend_Pool\<close>, \<open>Http1_Pool\<close>, \<open>Http_Types\<close>, \<open>Forwarder\<close>: connections, header modifiers, forwarding with its
    await points, where either timer may fire and the peer may stay silent.
  \<^item> \<open>Request_Handler\<close>, \<open>Request_Paths\<close>: the whole handler. It never panics, and answers every
    request unless the network is silent for ever and no timer bounds the request; rejected requests contact no backend; retries are bounded. The retry loop is structural in the
    number of remaining attempts, so no fuel is needed.

  \<^bold>\<open>Listeners and servers\<close> (\<open>proxy/listener_manager.rs\<close>, \<open>server.rs\<close>, \<open>tls.rs\<close>, \<open>main.rs\<close>, \<open>config.rs\<close>).
  \<^item> \<open>Listener_Manager\<close> (locale \<open>registry\<close>), \<open>Listener_Requests\<close>: ports follow the registrations of gateways;
    a listener applies the limiter and the breakers, but none of the filters, redirects, timeouts and
    retries of the routes; it panics only where the library rejects the request for a backend, and waits
    for ever only on a silent network.
  \<^item> \<open>Tls\<close>: certificates, the choice by server name, the watcher of the secrets. Recorded names are
    served; the watcher serves names without recording them.
  \<^item> \<open>Server\<close>: accept loops, and the shutdown as a step relation over the accept loop, the connections and
    the task that drains. The bound of 302 readings is 30 s at one reading every 100 ms, with one at time zero and the
    last one after the limit.
  \<^item> \<open>Startup\<close>: environment variables, modes, the example route, signals.

  \<^bold>\<open>Control plane\<close> (\<open>apis/gateway\<close>).
  \<^item> \<open>Gateway_Index\<close> (locale \<open>gateway_set\<close>): the index follows the last change of each gateway.
  \<^item> \<open>Endpoint_Slices\<close>: slices to backends, and the watcher, which never changes the router.
  \<^item> \<open>Weighted_Backends\<close>, \<open>Weighted_Slots\<close>: largest remainder in doubles; 31 slots in total, each service
    within one of its exact share; the first 31 pods come before all weights.
  \<^item> \<open>Http_Route\<close>, \<open>Route_Reconcile\<close> (locale \<open>route_sink\<close>), \<open>Route_Validation\<close>: validation and reconciliation of HTTPRoutes; it
    returns for all answers of the API server and never removes a route.
  \<^item> \<open>Gateway_Controller\<close>: reconciliation and status of Gateways and GatewayClasses.

  \<^bold>\<open>Reports\<close> (\<open>agent-api/src\<close>, \<open>control/src/admin\<close>).
  \<^item> \<open>Agent_Types\<close>, \<open>Diagnostics\<close>, \<open>Local_Query\<close>: snapshot types, the built-in rules, the queries and the
    admin request handler.

  \<^bold>\<open>Not modelled.\<close>
  \<^item> The bytes on a connection (\<open>hyper\<close>), TLS records (\<open>rustls\<close>), the runtime that calls \<open>reconcile\<close>
    (\<open>kube\<close>) and the scheduling of tasks (\<open>tokio\<close>): outside the sources; their answers are arguments.
  \<^item> Registration and text encoding of metrics (\<open>proxy/metrics.rs\<close>, \<open>apis/metrics.rs\<close>): the calls are recorded
    in order, the registry is the \<open>prometheus\<close> crate.
  \<^item> The packet counters, the fixed-size backend list and the table type of \<open>common/src/lib.rs\<close>: plain data that
    no code of the program uses.
  \<^item> The accept loop of the admin server, the trait of \<open>agent-api/src/query.rs\<close>, and log lines.
  \<^item> \<open>mcp-server\<close>, \<open>rauta-cli\<close> and \<open>eval/oracle\<close>: clients that format answers of the admin interface and keep
    no state.
  \<^item> The sharing of objects between tasks by reference, except where the order of atomic actions matters and is
    modelled as such.
\<close>

end
